(* ===== verification/Dcsctp_Prelude.thy ===== *)
theory Dcsctp_Prelude
  imports Main "HOL-Library.Word" "HOL-Library.Signed_Division"
begin

text \<open>
  Shared vocabulary of the development: the machine integers of the sources, the three-valued
  outcome of code that may return \<open>absl::nullopt\<close> or hit a failing \<open>RTC_CHECK\<close>, ordered
  associative containers (\<open>std::map\<close>, \<open>std::set\<close>) as strictly sorted lists, and the lemma
  collections the component theories extend.
\<close>

section \<open>Machine integers\<close>

type_synonym u8 = "8 word"
type_synonym u16 = "16 word"
type_synonym u32 = "32 word"
type_synonym u64 = "64 word"
type_synonym bytes = "u8 list"

named_theorems byte_simps \<open>big-endian loads and stores\<close>
named_theorems container_simps \<open>ordered containers\<close>
named_theorems codec_intros \<open>round trips and well-formedness of encoders\<close>

lemma unat_bounds:
  "unat (a :: u8) < 256" "unat (b :: u16) < 65536" "unat (c :: u32) < 4294967296"
proof -
  have "unat a < 2 ^ LENGTH(8)" "unat b < 2 ^ LENGTH(16)" "unat c < 2 ^ LENGTH(32)"
    by (rule unsigned_less)+
  then show "unat a < 256" "unat b < 65536" "unat c < 4294967296"
    by simp_all
qed

section \<open>Outcomes\<close>

text \<open>
  \<open>Abort\<close> is a failed \<open>RTC_CHECK\<close> (the process terminates), \<open>Nullopt\<close> is a returned
  \<open>absl::nullopt\<close>, \<open>Value\<close> is a returned value.
\<close>

datatype 'a outcome = Abort | Nullopt | Value 'a

fun bind_outcome :: "'a outcome \<Rightarrow> ('a \<Rightarrow> 'b outcome) \<Rightarrow> 'b outcome" where
  "bind_outcome Abort f = Abort"
| "bind_outcome Nullopt f = Nullopt"
| "bind_outcome (Value x) f = f x"

definition rtc_check :: "bool \<Rightarrow> unit outcome" where
  "rtc_check b = (if b then Value () else Abort)"

definition guard_opt :: "bool \<Rightarrow> unit outcome" where
  "guard_opt b = (if b then Value () else Nullopt)"

lemma bind_outcome_Value [simp]:
  "(bind_outcome m f = Value y) = (\<exists>x. m = Value x \<and> f x = Value y)"
  by (cases m) auto

lemma bind_outcome_Abort [simp]:
  "(bind_outcome m f = Abort) = (m = Abort \<or> (\<exists>x. m = Value x \<and> f x = Abort))"
  by (cases m) auto

lemma bind_outcome_no_abort [intro]:
  assumes "m \<noteq> Abort" "\<And>x. m = Value x \<Longrightarrow> f x \<noteq> Abort"
  shows "bind_outcome m f \<noteq> Abort"
  using assms by (cases m) auto

lemma rtc_check_simps [simp]:
  "(rtc_check b = Value u) = b" "(rtc_check b = Abort) = (\<not> b)" "rtc_check b \<noteq> Nullopt"
  by (auto simp: rtc_check_def)

lemma guard_opt_simps [simp]:
  "(guard_opt b = Value u) = b" "guard_opt b \<noteq> Abort" "(guard_opt b = Nullopt) = (\<not> b)"
  by (auto simp: guard_opt_def)

lemma guard_opt_eq [simp]: "b \<Longrightarrow> guard_opt b = Value ()"
  by simp

lemma rtc_check_eq [simp]: "b \<Longrightarrow> rtc_check b = Value ()"
  by simp

section \<open>Ordered sets\<close>

text \<open>
  A \<open>std::set\<close> is the strictly ascending list of its elements, in the order in which the
  sources iterate over it.
\<close>

fun sset_insert :: "'a::linorder \<Rightarrow> 'a list \<Rightarrow> 'a list" where
  "sset_insert x [] = [x]"
| "sset_insert x (y # ys) =
     (if x < y then x # y # ys else if x = y then y # ys else y # sset_insert x ys)"

definition sset_of :: "'a::linorder list \<Rightarrow> 'a list" where
  "sset_of xs = fold sset_insert xs []"

lemma set_sset_insert [container_simps, simp]: "set (sset_insert x ys) = insert x (set ys)"
  by (induction ys) auto

lemma sorted_sset_insert [container_simps, simp]:
  "sorted_wrt (<) ys \<Longrightarrow> sorted_wrt (<) (sset_insert x ys)"
  by (induction ys) auto

lemma fold_sset_insert:
  "sorted_wrt (<) ys \<Longrightarrow> sorted_wrt (<) (fold sset_insert xs ys) \<and> set (fold sset_insert xs ys) = set xs \<union> set ys"
  by (induction xs arbitrary: ys) auto

lemma sset_of_props [container_simps, simp]:
  "sorted_wrt (<) (sset_of xs)" "set (sset_of xs) = set xs"
  using fold_sset_insert[of "[]" xs] by (simp_all add: sset_of_def)

lemma strict_sorted_unique:
  assumes "sorted_wrt (<) xs" "sorted_wrt (<) (ys :: 'a::linorder list)" "set xs = set ys"
  shows "xs = ys"
  using assms by (metis strict_sorted_iff sorted_distinct_set_unique)

lemma sset_of_sorted [container_simps, simp]: "sorted_wrt (<) xs \<Longrightarrow> sset_of xs = xs"
  by (rule strict_sorted_unique) simp_all

end
