(* ===== verification/Sequence_Numbers.thy ===== *)
theory Sequence_Numbers
  imports Dcsctp_Prelude
begin

text \<open>
  Wrapping sequence numbers: the modular differences and comparisons of
  \<open>rtc_base/numerics/{mod_ops.h, sequence_number_util.h}\<close>, the stateful unwrapper of
  \<open>rtc_base/numerics/sequence_number_unwrapper.h\<close>, and the unwrapped numbers of
  \<open>net/dcsctp/common/sequence_numbers.h\<close>.  The C++ templates over an unsigned type are
  definitions over an arbitrary word length; the unwrapped \<open>int64_t\<close> is \<open>int\<close>, since reaching
  its bounds takes more than \<open>2^31\<close> wraps of a 32-bit number.
\<close>

section \<open>Rounding (common/math.h)\<close>

unbundle bit_operations_syntax

definition RoundUpTo4 :: "'a::len word \<Rightarrow> 'a word" where
  "RoundUpTo4 val = (val + 3) AND NOT 3"

definition RoundDownTo4 :: "'a::len word \<Rightarrow> 'a word" where
  "RoundDownTo4 val = val AND NOT 3"

definition IsDivisibleBy4 :: "'a::len word \<Rightarrow> bool" where
  "IsDivisibleBy4 val = (val AND 3 = 0)"

section \<open>Modular differences and comparisons\<close>

definition ForwardDiff :: "'a::len word \<Rightarrow> 'a word \<Rightarrow> 'a word" where
  "ForwardDiff a b = b - a"

definition ReverseDiff :: "'a::len word \<Rightarrow> 'a word \<Rightarrow> 'a word" where
  "ReverseDiff a b = a - b"

definition MinDiff :: "'a::len word \<Rightarrow> 'a word \<Rightarrow> 'a word" where
  "MinDiff a b = min (ForwardDiff a b) (ReverseDiff a b)"

definition maxDist :: "'a::len word" where
  "maxDist = (- 1) div 2 + 1"

definition AheadOrAt :: "'a::len word \<Rightarrow> 'a word \<Rightarrow> bool" where
  "AheadOrAt a b = (if a - b = maxDist then b < a else ForwardDiff b a < maxDist)"

definition AheadOf :: "'a::len word \<Rightarrow> 'a word \<Rightarrow> bool" where
  "AheadOf a b = (a \<noteq> b \<and> AheadOrAt a b)"

text \<open>
  For a 16-bit type the subtraction \<open>a - b\<close> is carried out in \<open>int\<close> after integral promotion;
  this is the comparison as C++ evaluates it there.
\<close>

definition AheadOrAt_promoted :: "u16 \<Rightarrow> u16 \<Rightarrow> bool" where
  "AheadOrAt_promoted a b =
     (if uint a - uint b = uint (maxDist :: u16) then b < a else ForwardDiff b a < maxDist)"

section \<open>The unwrapper\<close>

record (overloaded) ('a::len) SeqNumUnwrapper =
  last_unwrapped :: int
  last_value :: "'a word option"

definition new_unwrapper :: "'a::len SeqNumUnwrapper" where
  "new_unwrapper = \<lparr>last_unwrapped = 0, last_value = None\<rparr>"

definition Delta :: "'a::len word \<Rightarrow> 'a word \<Rightarrow> int" where
  "Delta lst new =
     (let result = uint (ForwardDiff lst new)
      in if \<not> AheadOrAt new lst then result - 2 ^ LENGTH('a) else result)"

definition PeekUnwrap :: "'a::len SeqNumUnwrapper \<Rightarrow> 'a word \<Rightarrow> int" where
  "PeekUnwrap u value =
     (case last_value u of
        None \<Rightarrow> uint value
      | Some lv \<Rightarrow> last_unwrapped u + Delta lv value)"

definition Unwrap :: "'a::len SeqNumUnwrapper \<Rightarrow> 'a word \<Rightarrow> int \<times> 'a SeqNumUnwrapper" where
  "Unwrap u value =
     (let lu = (case last_value u of
                  None \<Rightarrow> uint value
                | Some lv \<Rightarrow> last_unwrapped u + Delta lv value)
      in (lu, \<lparr>last_unwrapped = lu, last_value = Some value\<rparr>))"

definition Reset_unwrapper :: "'a::len SeqNumUnwrapper \<Rightarrow> 'a SeqNumUnwrapper" where
  "Reset_unwrapper u = u\<lparr>last_unwrapped := 0, last_value := None\<rparr>"

section \<open>Unwrapped sequence numbers\<close>

definition Wrap :: "int \<Rightarrow> 'a::len word" where
  "Wrap v = word_of_int (v smod 2 ^ LENGTH('a))"

definition next_value :: "int \<Rightarrow> int" where
  "next_value v = v + 1"

definition AddTo :: "int \<Rightarrow> int \<Rightarrow> int" where
  "AddTo v delta = v + delta"

definition Difference :: "int \<Rightarrow> int \<Rightarrow> 'a::len word" where
  "Difference lhs rhs = word_of_int (if lhs > rhs then lhs - rhs else rhs - lhs)"

section \<open>Lemmas\<close>

lemma Wrap_word_of_int [simp]: "Wrap v = word_of_int v"
proof -
  have "v smod 2 ^ LENGTH('a) = v - (v sdiv 2 ^ LENGTH('a)) * 2 ^ LENGTH('a)"
    by (simp add: minus_sdiv_mult_eq_smod)
  then show ?thesis
    by (simp add: Wrap_def)
qed

lemma Wrap_eq [simp]: "Wrap = word_of_int"
  by (rule ext) simp

lemma uint_maxDist: "uint (maxDist :: 'a::len word) = 2 ^ (LENGTH('a) - 1)"
proof -
  obtain n where n: "LENGTH('a) = Suc n"
    by (metis len_not_eq_0 not0_implies_Suc)
  have half: "uint ((- 1) div 2 :: 'a word) = 2 ^ n - 1"
  proof (cases "n = 0")
    case True
    have "uint (2 :: 'a word) = 0"
      by (simp add: unsigned_numeral take_bit_eq_mod n True)
    then show ?thesis
      unfolding uint_div using True by simp
  next
    case False
    then have "uint (2 :: 'a word) = 2"
      by (simp add: n uint_word_ariths(1) unsigned_numeral take_bit_eq_mod)
    moreover have "(2 * 2 ^ n - 1 :: int) div 2 = 2 ^ n - 1"
      by simp
    moreover have "uint (- 1 :: 'a word) = 2 * 2 ^ n - 1"
      by (simp add: unsigned_minus_1_eq_mask mask_eq_exp_minus_1 n)
    ultimately show ?thesis
      unfolding uint_div by presburger
  qed
  have "uint (maxDist :: 'a word) = (uint ((- 1) div 2 :: 'a word) + 1) mod 2 ^ LENGTH('a)"
    by (simp add: maxDist_def uint_word_ariths)
  then show ?thesis
    unfolding half n by simp
qed

lemma Delta_word_of_int: "word_of_int (Delta a b) = b - (a :: 'a::len word)"
  by (simp add: Delta_def ForwardDiff_def Let_def)

lemma AheadOrAt_uint:
  "AheadOrAt a b \<longleftrightarrow>
     uint (a - b :: 'a::len word) < 2 ^ (LENGTH('a) - 1)
     \<or> uint (a - b) = 2 ^ (LENGTH('a) - 1) \<and> b < a"
proof -
  have "a - b = maxDist \<longleftrightarrow> uint (a - b) = 2 ^ (LENGTH('a) - 1)"
    by (simp add: word_uint_eq_iff uint_maxDist)
  then show ?thesis
    unfolding AheadOrAt_def ForwardDiff_def
    by (auto simp: word_less_def[of "a - b"] uint_maxDist)
qed

lemma AheadOrAt_promoted_eq: "AheadOrAt_promoted a b = AheadOrAt a b"
proof (cases "uint a - uint b = uint (maxDist :: u16)")
  case True
  then have "a - b = maxDist"
    by (metis word_of_int_uint wi_hom_sub)
  with True show ?thesis
    by (simp add: AheadOrAt_promoted_def AheadOrAt_def)
next
  case False
  show ?thesis
  proof (cases "a - b = maxDist")
    case True
    have "\<not> b < a"
    proof
      assume "b < a"
      then have "uint (a - b) = uint a - uint b"
        using uint_minus_simple_alt[of b a] by (simp only: order_less_imp_le)
      with True False show False by simp
    qed
    with True False show ?thesis
      by (auto simp: AheadOrAt_promoted_def AheadOrAt_def ForwardDiff_def)
  qed (use False in \<open>simp add: AheadOrAt_promoted_def AheadOrAt_def\<close>)
qed

text \<open>The signed distance is the representative of the modular difference of least magnitude.\<close>

lemma Delta_range:
  "- (2 ^ (LENGTH('a) - 1)) \<le> Delta a b \<and> Delta a (b :: 'a::len word) \<le> 2 ^ (LENGTH('a) - 1)"
proof -
  have two: "2 ^ LENGTH('a) = (2 * 2 ^ (LENGTH('a) - 1) :: int)"
    by (metis One_nat_def Suc_pred len_gt_0 power_Suc)
  define h :: int where "h = 2 ^ (LENGTH('a) - 1)"
  have "0 \<le> h" "2 ^ LENGTH('a) = 2 * h" "0 \<le> uint (b - a)" "uint (b - a) < 2 * h"
    using two uint_lt2p[of "b - a"] by (auto simp: h_def)
  then show ?thesis
    unfolding Delta_def ForwardDiff_def Let_def AheadOrAt_uint h_def[symmetric]
    by (simp only: split: if_splits) linarith
qed

definition unwrapper_ok :: "'a::len SeqNumUnwrapper \<Rightarrow> bool" where
  "unwrapper_ok u = (\<forall>v. last_value u = Some v \<longrightarrow> word_of_int (last_unwrapped u) = v)"

lemma unwrapper_ok_new [simp]: "unwrapper_ok new_unwrapper"
  by (simp add: unwrapper_ok_def new_unwrapper_def)

lemma unwrapper_ok_Reset [simp]: "unwrapper_ok (Reset_unwrapper u)"
  by (simp add: unwrapper_ok_def Reset_unwrapper_def)

lemma PeekUnwrap_wrap: "unwrapper_ok u \<Longrightarrow> word_of_int (PeekUnwrap u v) = v"
  by (auto simp: PeekUnwrap_def unwrapper_ok_def Delta_word_of_int split: option.splits)

lemma fst_Unwrap [simp]: "fst (Unwrap u v) = PeekUnwrap u v"
  by (simp add: Unwrap_def PeekUnwrap_def Let_def)

lemma unwrapper_ok_Unwrap: "unwrapper_ok u \<Longrightarrow> unwrapper_ok (snd (Unwrap u v))"
  using PeekUnwrap_wrap[of u v]
  by (simp add: Unwrap_def PeekUnwrap_def Let_def unwrapper_ok_def)

text \<open>
  An unwrapper recovers an unbounded counter from its low bits as long as consecutive values
  are less than half the range apart.
\<close>

lemma Delta_recover:
  assumes "\<bar>y - x\<bar> < 2 ^ (LENGTH('a) - 1)"
  shows "Delta (word_of_int x :: 'a::len word) (word_of_int y) = y - x"
proof -
  have two: "2 ^ LENGTH('a) = (2 * 2 ^ (LENGTH('a) - 1) :: int)"
    by (metis One_nat_def Suc_pred len_gt_0 power_Suc)
  have u: "uint (word_of_int y - word_of_int x :: 'a word) = (y - x) mod 2 ^ LENGTH('a)"
    by (simp add: uint_word_ariths uint_word_of_int mod_diff_eq)
  show ?thesis
  proof (cases "y \<ge> x")
    case True
    then have "(y - x) mod 2 ^ LENGTH('a) = y - x"
      using assms two by (intro mod_pos_pos_trivial) auto
    then show ?thesis
      using assms True by (simp add: Delta_def ForwardDiff_def AheadOrAt_uint Let_def u)
  next
    case False
    have "(y - x + 2 ^ LENGTH('a)) mod 2 ^ LENGTH('a) = y - x + 2 ^ LENGTH('a)"
      using assms two False by (intro mod_pos_pos_trivial) auto
    then have "(y - x) mod 2 ^ LENGTH('a) = y - x + 2 ^ LENGTH('a)"
      by simp
    then show ?thesis
      using assms False two by (simp add: Delta_def ForwardDiff_def AheadOrAt_uint Let_def u)
  qed
qed


lemma PeekUnwrap_recover:
  assumes "unwrapper_ok u" "last_value u = Some lv" "\<bar>y - last_unwrapped u\<bar> < 2 ^ (LENGTH('a) - 1)"
  shows "PeekUnwrap u (word_of_int y :: 'a::len word) = y"
proof -
  have "lv = word_of_int (last_unwrapped u)"
    using assms(1,2) by (simp add: unwrapper_ok_def)
  then show ?thesis
    using Delta_recover[OF assms(3)] assms(2) by (simp add: PeekUnwrap_def)
qed

lemma Unwrap_recover:
  assumes "unwrapper_ok u" "last_value u \<noteq> None" "\<bar>y - last_unwrapped u\<bar> < 2 ^ (LENGTH('a) - 1)"
  shows "Unwrap u (word_of_int y :: 'a::len word)
    = (y, \<lparr>last_unwrapped = y, last_value = Some (word_of_int y)\<rparr>)"
  using assms PeekUnwrap_recover[of u _ y] by (auto simp: Unwrap_def PeekUnwrap_def Let_def)

fun unwrap_all :: "'a::len SeqNumUnwrapper \<Rightarrow> 'a word list \<Rightarrow> int list" where
  "unwrap_all u [] = []"
| "unwrap_all u (v # vs) = (case Unwrap u v of (i, u') \<Rightarrow> i # unwrap_all u' vs)"

fun steps_below :: "int \<Rightarrow> int list \<Rightarrow> bool" where
  "steps_below h (x # y # ys) = (\<bar>y - x\<bar> < h \<and> steps_below h (y # ys))"
| "steps_below h _ = True"

lemma unwrap_all_recover_from:
  assumes "steps_below (2 ^ (LENGTH('a) - 1)) (last_unwrapped u # ys)"
    and "unwrapper_ok u" and "last_value u \<noteq> None"
  shows "unwrap_all u (map word_of_int ys :: 'a::len word list) = ys"
  using assms
proof (induction ys arbitrary: u)
  case (Cons y ys)
  then have "Unwrap u (word_of_int y) = (y, \<lparr>last_unwrapped = y, last_value = Some (word_of_int y)\<rparr>)"
    by (intro Unwrap_recover) simp_all
  then show ?case
    using Cons unwrapper_ok_Unwrap[of u "word_of_int y"] by auto
qed simp

end
