(* ===== verification/Bounded_Bytes.thy ===== *)
theory Bounded_Bytes
  imports Sequence_Numbers
begin

text \<open>
  Big-endian access to byte buffers: \<open>packet/bounded_byte_reader.h\<close> and
  \<open>packet/bounded_byte_writer.h\<close>.  A reader or writer is the byte list its view covers; a
  constructor or \<open>sub_reader\<close>/\<open>sub_writer\<close> whose \<open>RTC_CHECK\<close> fails is \<open>Abort\<close>.  The offsets of
  the fixed part are checked at compile time against the template argument \<open>FixedSize\<close>.
\<close>

section \<open>Raw loads and stores\<close>

definition LoadBigEndian8 :: "bytes \<Rightarrow> u8" where
  "LoadBigEndian8 data = data ! 0"

definition LoadBigEndian16 :: "bytes \<Rightarrow> u16" where
  "LoadBigEndian16 data = push_bit 8 (ucast (data ! 0)) OR ucast (data ! 1)"

definition LoadBigEndian32 :: "bytes \<Rightarrow> u32" where
  "LoadBigEndian32 data =
     push_bit 24 (ucast (data ! 0)) OR push_bit 16 (ucast (data ! 1))
     OR push_bit 8 (ucast (data ! 2)) OR ucast (data ! 3)"

text \<open>A store through \<open>&data_[offset]\<close> changes the buffer at \<open>offset\<close> and the following bytes.\<close>

definition StoreBigEndian8 :: "nat \<Rightarrow> u8 \<Rightarrow> bytes \<Rightarrow> bytes" where
  "StoreBigEndian8 i val data = data[i := val]"

definition StoreBigEndian16 :: "nat \<Rightarrow> u16 \<Rightarrow> bytes \<Rightarrow> bytes" where
  "StoreBigEndian16 i val data = data[i := ucast (drop_bit 8 val), i + 1 := ucast val]"

definition StoreBigEndian32 :: "nat \<Rightarrow> u32 \<Rightarrow> bytes \<Rightarrow> bytes" where
  "StoreBigEndian32 i val data =
     data[i := ucast (drop_bit 24 val), i + 1 := ucast (drop_bit 16 val),
          i + 2 := ucast (drop_bit 8 val), i + 3 := ucast val]"

section \<open>BoundedByteReader\<close>

definition BoundedByteReader :: "nat \<Rightarrow> bytes \<Rightarrow> bytes outcome" where
  "BoundedByteReader FixedSize data =
     bind_outcome (rtc_check (length data \<ge> FixedSize)) (\<lambda>_. Value data)"

definition Load8 :: "nat \<Rightarrow> bytes \<Rightarrow> u8" where
  "Load8 offset r = LoadBigEndian8 (drop offset r)"

definition Load16 :: "nat \<Rightarrow> bytes \<Rightarrow> u16" where
  "Load16 offset r = LoadBigEndian16 (drop offset r)"

definition Load32 :: "nat \<Rightarrow> bytes \<Rightarrow> u32" where
  "Load32 offset r = LoadBigEndian32 (drop offset r)"

definition sub_reader :: "nat \<Rightarrow> nat \<Rightarrow> nat \<Rightarrow> bytes \<Rightarrow> bytes outcome" where
  "sub_reader FixedSize SubSize variable_offset r =
     bind_outcome (rtc_check (FixedSize + variable_offset + SubSize \<le> length r)) (\<lambda>_.
       BoundedByteReader SubSize (take SubSize (drop (FixedSize + variable_offset) r)))"

definition variable_data_size :: "nat \<Rightarrow> bytes \<Rightarrow> nat" where
  "variable_data_size FixedSize r = length r - FixedSize"

definition variable_data :: "nat \<Rightarrow> bytes \<Rightarrow> bytes" where
  "variable_data FixedSize r = take (length r - FixedSize) (drop FixedSize r)"

text \<open>The loop \<open>for i in [0, count): x[i] = load(sub_reader<sz>(base + i * sz))\<close>.\<close>

fun read_array :: "nat \<Rightarrow> nat \<Rightarrow> (bytes \<Rightarrow> 'e) \<Rightarrow> nat \<Rightarrow> nat \<Rightarrow> bytes \<Rightarrow> 'e list outcome" where
  "read_array FixedSize SubSize load offset 0 r = Value []"
| "read_array FixedSize SubSize load offset (Suc count) r =
     bind_outcome (sub_reader FixedSize SubSize offset r) (\<lambda>sub.
     bind_outcome (read_array FixedSize SubSize load (offset + SubSize) count r) (\<lambda>es.
       Value (load sub # es)))"

section \<open>BoundedByteWriter\<close>

definition BoundedByteWriter :: "nat \<Rightarrow> bytes \<Rightarrow> bytes outcome" where
  "BoundedByteWriter FixedSize data =
     bind_outcome (rtc_check (length data \<ge> FixedSize)) (\<lambda>_. Value data)"

definition Store8 :: "nat \<Rightarrow> u8 \<Rightarrow> bytes \<Rightarrow> bytes" where
  "Store8 offset val w = StoreBigEndian8 offset val w"

definition Store16 :: "nat \<Rightarrow> u16 \<Rightarrow> bytes \<Rightarrow> bytes" where
  "Store16 offset val w = StoreBigEndian16 offset val w"

definition Store32 :: "nat \<Rightarrow> u32 \<Rightarrow> bytes \<Rightarrow> bytes" where
  "Store32 offset val w = StoreBigEndian32 offset val w"

text \<open>
  The view returned by \<open>sub_writer\<close> aliases the writer's own buffer, so a sub-writer is modelled
  together with the stores made through it: \<open>store\<close> maps the sub-view before to the one after.
\<close>

definition sub_writer :: "nat \<Rightarrow> nat \<Rightarrow> nat \<Rightarrow> (bytes \<Rightarrow> bytes) \<Rightarrow> bytes \<Rightarrow> bytes outcome" where
  "sub_writer FixedSize SubSize variable_offset store w =
     (let at = FixedSize + variable_offset
      in bind_outcome (rtc_check (at + SubSize \<le> length w)) (\<lambda>_.
         bind_outcome (BoundedByteWriter SubSize (take SubSize (drop at w))) (\<lambda>sub.
           Value (take at w @ store sub @ drop (at + SubSize) w))))"

fun write_array :: "nat \<Rightarrow> nat \<Rightarrow> ('e \<Rightarrow> bytes \<Rightarrow> bytes) \<Rightarrow> nat \<Rightarrow> 'e list \<Rightarrow> bytes \<Rightarrow> bytes outcome" where
  "write_array FixedSize SubSize store offset [] w = Value w"
| "write_array FixedSize SubSize store offset (e # es) w =
     bind_outcome (sub_writer FixedSize SubSize offset (store e) w) (\<lambda>w'.
       write_array FixedSize SubSize store (offset + SubSize) es w')"

definition CopyToVariableData :: "nat \<Rightarrow> bytes \<Rightarrow> bytes \<Rightarrow> bytes" where
  "CopyToVariableData FixedSize source w =
     (let copy_size = min (length source) (length w - FixedSize)
      in if copy_size = 0 then w
         else take FixedSize w @ take copy_size source @ drop (FixedSize + copy_size) w)"

section \<open>Lemmas\<close>

lemma length_Store [byte_simps, simp]:
  "length (Store8 i a w) = length w"
  "length (Store16 i b w) = length w"
  "length (Store32 i c w) = length w"
  by (simp_all add: Store8_def Store16_def Store32_def StoreBigEndian8_def
      StoreBigEndian16_def StoreBigEndian32_def)

lemma split16: "push_bit 8 (ucast (ucast (drop_bit 8 v) :: u8)) OR ucast (ucast v :: u8) = (v :: u16)"
  by (rule bit_word_eqI) (auto simp: bit_simps)

lemma split32:
  "push_bit 24 (ucast (ucast (drop_bit 24 v) :: u8)) OR push_bit 16 (ucast (ucast (drop_bit 16 v) :: u8))
   OR push_bit 8 (ucast (ucast (drop_bit 8 v) :: u8)) OR ucast (ucast v :: u8) = (v :: u32)"
  (is \<open>?lhs = v\<close>)
proof (rule bit_word_eqI)
  fix n assume "n < LENGTH(32)"
  then consider "n < 8" | "8 \<le> n" "n < 16" | "16 \<le> n" "n < 24" | "24 \<le> n" "n < 32"
    by force
  then show "bit ?lhs n = bit v n"
    by cases (auto simp: bit_simps)
qed

lemmas raw_access_defs =
  Load8_def Load16_def Load32_def LoadBigEndian8_def LoadBigEndian16_def LoadBigEndian32_def
  Store8_def Store16_def Store32_def StoreBigEndian8_def StoreBigEndian16_def StoreBigEndian32_def

lemma Load_Store_same [byte_simps]:
  "i < length w \<Longrightarrow> Load8 i (Store8 i a w) = a"
  "i + 1 < length w \<Longrightarrow> Load16 i (Store16 i b w) = b"
  "i + 3 < length w \<Longrightarrow> Load32 i (Store32 i c w) = c"
  using split16[of b] split32[of c] by (simp_all add: raw_access_defs)

lemma Load8_Store_other [byte_simps]:
  "\<lbrakk>i < length w; i \<noteq> j\<rbrakk> \<Longrightarrow> Load8 i (Store8 j a w) = Load8 i w"
  "\<lbrakk>i < length w; i + 1 \<le> j \<or> j + 2 \<le> i\<rbrakk> \<Longrightarrow> Load8 i (Store16 j b w) = Load8 i w"
  "\<lbrakk>i < length w; i + 1 \<le> j \<or> j + 4 \<le> i\<rbrakk> \<Longrightarrow> Load8 i (Store32 j c w) = Load8 i w"
  by (auto simp: raw_access_defs)

lemma Load16_Store_other [byte_simps]:
  "\<lbrakk>i + 1 < length w; i + 2 \<le> j \<or> j + 1 \<le> i\<rbrakk> \<Longrightarrow> Load16 i (Store8 j a w) = Load16 i w"
  "\<lbrakk>i + 1 < length w; i + 2 \<le> j \<or> j + 2 \<le> i\<rbrakk> \<Longrightarrow> Load16 i (Store16 j b w) = Load16 i w"
  "\<lbrakk>i + 1 < length w; i + 2 \<le> j \<or> j + 4 \<le> i\<rbrakk> \<Longrightarrow> Load16 i (Store32 j c w) = Load16 i w"
  by (auto simp: raw_access_defs)

lemma Load32_Store_other [byte_simps]:
  "\<lbrakk>i + 3 < length w; i + 4 \<le> j \<or> j + 1 \<le> i\<rbrakk> \<Longrightarrow> Load32 i (Store8 j a w) = Load32 i w"
  "\<lbrakk>i + 3 < length w; i + 4 \<le> j \<or> j + 2 \<le> i\<rbrakk> \<Longrightarrow> Load32 i (Store16 j b w) = Load32 i w"
  "\<lbrakk>i + 3 < length w; i + 4 \<le> j \<or> j + 4 \<le> i\<rbrakk> \<Longrightarrow> Load32 i (Store32 j c w) = Load32 i w"
  by (auto simp: raw_access_defs)

lemma drop_Store [byte_simps]:
  "i + 1 \<le> n \<Longrightarrow> drop n (Store8 i a w) = drop n w"
  "i + 2 \<le> n \<Longrightarrow> drop n (Store16 i b w) = drop n w"
  "i + 4 \<le> n \<Longrightarrow> drop n (Store32 i c w) = drop n w"
  by (auto simp: raw_access_defs)

text \<open>Loads inside a prefix only see the prefix.\<close>

lemma Load_append [byte_simps]:
  "i < length w \<Longrightarrow> Load8 i (w @ z) = Load8 i w"
  "i + 1 < length w \<Longrightarrow> Load16 i (w @ z) = Load16 i w"
  "i + 3 < length w \<Longrightarrow> Load32 i (w @ z) = Load32 i w"
  by (auto simp: raw_access_defs nth_append)

lemma Load_take [byte_simps]:
  "\<lbrakk>i < n; i < length w\<rbrakk> \<Longrightarrow> Load8 i (take n w) = Load8 i w"
  "\<lbrakk>i + 1 < n; i + 1 < length w\<rbrakk> \<Longrightarrow> Load16 i (take n w) = Load16 i w"
  "\<lbrakk>i + 3 < n; i + 3 < length w\<rbrakk> \<Longrightarrow> Load32 i (take n w) = Load32 i w"
  by (auto simp: raw_access_defs)

lemma Load8_first [byte_simps]:
  assumes "2 \<le> length w"
  shows "Load8 0 (Store8 0 a w) = a"
    and "j \<noteq> 0 \<Longrightarrow> Load8 0 (Store8 j a w) = Load8 0 w"
    and "j \<noteq> 0 \<Longrightarrow> Load8 0 (Store16 j b w) = Load8 0 w"
    and "j \<noteq> 0 \<Longrightarrow> Load8 0 (Store32 j c w) = Load8 0 w"
    and "Load8 0 (w @ z) = Load8 0 w"
    and "n \<noteq> 0 \<Longrightarrow> Load8 0 (take n w) = Load8 0 w"
proof -
  have "0 < length w" using assms by linarith
  then show "Load8 0 (Store8 0 a w) = a"
    and "j \<noteq> 0 \<Longrightarrow> Load8 0 (Store8 j a w) = Load8 0 w"
    and "j \<noteq> 0 \<Longrightarrow> Load8 0 (Store16 j b w) = Load8 0 w"
    and "j \<noteq> 0 \<Longrightarrow> Load8 0 (Store32 j c w) = Load8 0 w"
    and "Load8 0 (w @ z) = Load8 0 w"
    and "n \<noteq> 0 \<Longrightarrow> Load8 0 (take n w) = Load8 0 w"
    by (simp_all add: Load_Store_same Load8_Store_other Load_append Load_take del: length_greater_0_conv)
qed

lemma variable_data_drop [byte_simps]: "variable_data n r = drop n r"
  by (simp add: variable_data_def)

lemma CopyToVariableData_eq [byte_simps]:
  assumes "length w = n + length src"
  shows "CopyToVariableData n src w = take n w @ src"
  using assms by (auto simp: CopyToVariableData_def Let_def)

lemma BoundedByteReader_simps [simp]:
  "(BoundedByteReader n d = Abort) = (length d < n)"
  "BoundedByteReader n d \<noteq> Nullopt"
  "(BoundedByteReader n d = Value r) = (n \<le> length d \<and> r = d)"
  by (auto simp: BoundedByteReader_def rtc_check_def)

lemma BoundedByteReader_eq [simp]: "n \<le> length d \<Longrightarrow> BoundedByteReader n d = Value d"
  by simp

lemma sub_reader_eq [simp]:
  "n + off + sz \<le> length r \<Longrightarrow> sub_reader n sz off r = Value (take sz (drop (n + off) r))"
  by (simp add: sub_reader_def)

section \<open>Arrays of fixed-size elements\<close>

text \<open>
  An element codec: what a \<open>SubSize\<close>-byte sub-reader loads is what a sub-writer stored, for
  the element values the format can carry.  The client lemmas say that \<open>read_array\<close> inverts
  \<open>write_array\<close> and that neither trips an \<open>RTC_CHECK\<close> when the buffer holds the elements.
\<close>

locale element_codec =
  fixes sz :: nat and load :: "bytes \<Rightarrow> 'e" and store :: "'e \<Rightarrow> bytes \<Rightarrow> bytes" and ok :: "'e \<Rightarrow> bool"
  assumes store_length: "length b = sz \<Longrightarrow> length (store e b) = sz"
    and load_store: "length b = sz \<Longrightarrow> ok e \<Longrightarrow> load (store e b) = e"
begin

fun encode_elements :: "'e list \<Rightarrow> bytes \<Rightarrow> bytes" where
  "encode_elements [] w = w"
| "encode_elements (e # es) w = store e (take sz w) @ encode_elements es (drop sz w)"

lemma length_encode: "length es * sz \<le> length w \<Longrightarrow> length (encode_elements es w) = length w"
  by (induction es arbitrary: w) (auto simp: store_length min_def)

lemma write_array_encode:
  assumes "length p = n + off" "length z = length es * sz"
  shows "write_array n sz store off es (p @ z @ q) = Value (p @ encode_elements es z @ q)"
  using assms
proof (induction es arbitrary: off p z)
  case (Cons e es)
  define e' where "e' = store e (take sz z)"
  have e': "length e' = sz"
    using Cons.prems(2) by (auto simp: e'_def intro!: store_length)
  have z: "z = take sz z @ drop sz z" "length (drop sz z) = length es * sz"
    using Cons.prems(2) by simp_all
  have "sub_writer n sz off (store e) (p @ z @ q) = Value ((p @ e') @ drop sz z @ q)"
    using Cons.prems by (simp add: sub_writer_def e'_def BoundedByteWriter_def Let_def)
  moreover have "write_array n sz store (off + sz) es ((p @ e') @ drop sz z @ q) =
      Value ((p @ e') @ encode_elements es (drop sz z) @ q)"
    using Cons.prems(1) e' z(2) by (intro Cons.IH) simp_all
  ultimately show ?case
    by (simp add: e'_def)
qed simp

lemma read_array_encode:
  assumes "length p = n + off" "length z = length es * sz" "\<forall>e \<in> set es. ok e"
  shows "read_array n sz load off (length es) (p @ encode_elements es z @ q) = Value es"
  using assms
proof (induction es arbitrary: off p z)
  case (Cons e es)
  define e' where "e' = store e (take sz z)"
  have e': "length e' = sz" "load e' = e"
    using Cons.prems(2,3) by (auto simp: e'_def store_length load_store)
  have "read_array n sz load (off + sz) (length es)
      ((p @ e') @ encode_elements es (drop sz z) @ q) = Value es"
    using Cons.prems e' by (intro Cons.IH) simp_all
  with Cons.prems e' show ?case
    by (simp add: e'_def[symmetric])
qed simp

lemma read_array_after:
  "\<lbrakk>length p = n; length z = length es * sz; \<forall>e \<in> set es. ok e; c = length es\<rbrakk> \<Longrightarrow>
     read_array n sz load 0 c (p @ encode_elements es z) = Value es"
  using read_array_encode[of p n 0 z es "[]"] by simp

lemma write_array_after:
  assumes "length w = n + length es * sz"
  shows "write_array n sz store 0 es w = Value (take n w @ encode_elements es (drop n w))"
  using assms write_array_encode[of "take n w" n 0 "drop n w" es "[]"] by simp

lemmas array_simps = length_encode write_array_after read_array_after

end

lemma read_array_no_abort:
  "n + off + count * sz \<le> length r \<Longrightarrow>
     \<exists>es. read_array n sz load off count r = Value es \<and> length es = count"
proof (induction count arbitrary: off)
  case (Suc count)
  then have "\<exists>es. read_array n sz load (off + sz) count r = Value es \<and> length es = count"
    by (intro Suc.IH) simp
  with Suc.prems show ?case by auto
qed simp


lemma read_array_not_Abort [codec_intros]:
  "n + off + count * sz \<le> length r \<Longrightarrow> read_array n sz load off count r \<noteq> Abort"
  using read_array_no_abort[of n off count sz r load] by auto

end
