(* ===== verification/Tlv.thy ===== *)
theory Tlv
  imports Bounded_Bytes
begin

text \<open>
  Type-length-value blocks: \<open>packet/tlv_trait.h\<close>.  A class configures the trait with its type,
  the width of the type field, its header size and the alignment of its variable part; parsing
  checks a received block against that configuration and allocation writes the two header
  fields.  The interface \<open>tlv_codec\<close> states what the containers of such blocks (parameter lists
  and packets) rely on; every class of the wire format is an instance of it.
\<close>

section \<open>Configuration\<close>

record tlv_config =
  kType :: nat
  kTypeSizeInBytes :: nat
  kHeaderSize :: nat
  kVariableLengthAlignment :: nat

definition kTlvHeaderSize :: nat where
  "kTlvHeaderSize = 4"

text \<open>The \<open>static_assert\<close>s of the trait, and that the type fits its field.\<close>

definition config_ok :: "tlv_config \<Rightarrow> bool" where
  "config_ok cfg =
     ((kTypeSizeInBytes cfg = 1 \<or> kTypeSizeInBytes cfg = 2)
      \<and> kHeaderSize cfg \<ge> kTlvHeaderSize \<and> kHeaderSize cfg mod 4 = 0
      \<and> kVariableLengthAlignment cfg \<in> {0, 1, 2, 4, 8}
      \<and> kType cfg < 2 ^ (8 * kTypeSizeInBytes cfg))"

section \<open>Parsing and allocation\<close>

definition ValidateLengthAlignment :: "u16 \<Rightarrow> nat \<Rightarrow> bool" where
  "ValidateLengthAlignment len alignment = (if alignment = 0 then True else unat len mod alignment = 0)"

definition load_type :: "tlv_config \<Rightarrow> bytes \<Rightarrow> nat" where
  "load_type cfg tlv_header =
     (if kTypeSizeInBytes cfg = 1 then unat (Load8 0 tlv_header) else unat (Load16 0 tlv_header))"

definition ParseTLV :: "tlv_config \<Rightarrow> bytes \<Rightarrow> bytes outcome" where
  "ParseTLV cfg data =
     (if length data < kHeaderSize cfg then Nullopt
      else bind_outcome (BoundedByteReader kTlvHeaderSize data) (\<lambda>tlv_header.
        if load_type cfg tlv_header \<noteq> kType cfg then Nullopt
        else let len = Load16 2 tlv_header in
          if kVariableLengthAlignment cfg = 0 then
            if unat len \<noteq> kHeaderSize cfg \<or> length data \<noteq> kHeaderSize cfg then Nullopt
            else BoundedByteReader (kHeaderSize cfg) (take (unat len) data)
          else if unat len > length data \<or> unat len < kHeaderSize cfg then Nullopt
          else let padding = length data - unat len in
            if padding > 3 then Nullopt
            else if \<not> ValidateLengthAlignment len (kVariableLengthAlignment cfg) then Nullopt
            else BoundedByteReader (kHeaderSize cfg) (take (unat len) data)))"

text \<open>
  \<open>AllocateTLV\<close> appends a zeroed region to \<open>out\<close> and returns a writer on that region; the model
  returns the region and the callers append it to \<open>out\<close> when their stores are done.
\<close>

definition AllocateTLV :: "tlv_config \<Rightarrow> nat \<Rightarrow> bytes outcome" where
  "AllocateTLV cfg variable_size =
     (let size = kHeaderSize cfg + variable_size;
          region = replicate size 0;
          region = (if kTypeSizeInBytes cfg = 1 then Store8 0 (of_nat (kType cfg)) region
                    else Store16 0 (of_nat (kType cfg)) region);
          region = Store16 2 (of_nat size) region
      in BoundedByteWriter (kHeaderSize cfg) region)"

section \<open>Lemmas\<close>

definition tlv_region :: "tlv_config \<Rightarrow> nat \<Rightarrow> bytes" where
  "tlv_region cfg n =
     Store16 2 (of_nat (kHeaderSize cfg + n))
       ((if kTypeSizeInBytes cfg = 1 then Store8 0 (of_nat (kType cfg)) else Store16 0 (of_nat (kType cfg)))
         (replicate (kHeaderSize cfg + n) 0))"

lemma length_tlv_region [byte_simps, simp]: "length (tlv_region cfg n) = kHeaderSize cfg + n"
  by (simp add: tlv_region_def)

lemma AllocateTLV_eq [byte_simps, simp]: "AllocateTLV cfg n = Value (tlv_region cfg n)"
  by (auto simp: AllocateTLV_def tlv_region_def BoundedByteWriter_def Let_def)

lemma drop_tlv_region [byte_simps]:
  "kHeaderSize cfg \<ge> 4 \<Longrightarrow> drop (kHeaderSize cfg) (tlv_region cfg n) = replicate n 0"
  by (auto simp: tlv_region_def drop_Store)

lemma Load_tlv_region [byte_simps]:
  assumes "kHeaderSize cfg \<ge> 4"
  shows "Load16 2 (tlv_region cfg n) = of_nat (kHeaderSize cfg + n)"
    and "kTypeSizeInBytes cfg = 1 \<Longrightarrow> Load8 0 (tlv_region cfg n) = of_nat (kType cfg)"
    and "kTypeSizeInBytes cfg \<noteq> 1 \<Longrightarrow> Load16 0 (tlv_region cfg n) = of_nat (kType cfg)"
  using assms by (auto simp: tlv_region_def byte_simps)

text \<open>A complete, unpadded block of the given configuration.\<close>

definition tlv_ok :: "tlv_config \<Rightarrow> bytes \<Rightarrow> bool" where
  "tlv_ok cfg w =
     (kHeaderSize cfg \<le> length w \<and> length w < 2 ^ 16
      \<and> load_type cfg w = kType cfg \<and> Load16 2 w = of_nat (length w)
      \<and> (if kVariableLengthAlignment cfg = 0 then length w = kHeaderSize cfg
         else length w mod kVariableLengthAlignment cfg = 0))"

lemma unat_of_nat16 [simp]: "n < 65536 \<Longrightarrow> unat (of_nat n :: u16) = n"
  by (simp add: unat_of_nat)

lemma unat_of_nat8 [simp]: "n < 256 \<Longrightarrow> unat (of_nat n :: u8) = n"
  by (simp add: unat_of_nat)

lemma unat_of_nat32 [simp]: "n < 4294967296 \<Longrightarrow> unat (of_nat n :: u32) = n"
  by (simp add: unat_of_nat)

definition pad_ok :: "tlv_config \<Rightarrow> bytes \<Rightarrow> bool" where
  "pad_ok cfg pad = (length pad \<le> 3 \<and> (kVariableLengthAlignment cfg = 0 \<longrightarrow> pad = []))"

lemma pad_ok_Nil [simp]: "pad_ok cfg []"
  by (simp add: pad_ok_def)

lemma ParseTLV_block:
  assumes "config_ok cfg" "tlv_ok cfg w" "pad_ok cfg pad"
  shows "ParseTLV cfg (w @ pad) = Value w"
proof -
  have "length w \<ge> 4"
    using assms by (auto simp: config_ok_def tlv_ok_def kTlvHeaderSize_def)
  then have "Load16 2 (w @ pad) = of_nat (length w)" "load_type cfg (w @ pad) = kType cfg"
    using assms(2) by (auto simp: tlv_ok_def load_type_def byte_simps)
  then show ?thesis
    using assms \<open>length w \<ge> 4\<close>
    by (auto simp: ParseTLV_def tlv_ok_def pad_ok_def ValidateLengthAlignment_def Let_def
        kTlvHeaderSize_def split: if_splits)
qed

lemma ParseTLV_Value:
  assumes "config_ok cfg" "ParseTLV cfg d = Value w"
  shows "tlv_ok cfg w \<and> (\<exists>pad. d = w @ pad \<and> pad_ok cfg pad)"
proof -
  define len where "len = unat (Load16 2 d)"
  have w: "w = take len d" and len: "kHeaderSize cfg \<le> len" "len \<le> length d"
    using assms(2) by (auto simp: ParseTLV_def len_def Let_def split: if_splits)
  have four: "4 \<le> len"
    using assms(1) len by (simp add: config_ok_def kTlvHeaderSize_def)
  have "len < 2 ^ 16"
    unfolding len_def by (simp add: unat_bounds)
  moreover have "Load16 2 w = of_nat len" "load_type cfg w = load_type cfg d"
    using four len by (auto simp: w len_def load_type_def byte_simps)
  ultimately have "tlv_ok cfg w"
    using assms(2) len
    by (auto simp: tlv_ok_def w ParseTLV_def len_def ValidateLengthAlignment_def Let_def split: if_splits)
  moreover have "d = w @ drop len d" "pad_ok cfg (drop len d)"
    using assms(2) len by (auto simp: w pad_ok_def ParseTLV_def len_def Let_def split: if_splits)
  ultimately show ?thesis by blast
qed

lemma ParseTLV_no_abort [codec_intros, simp]:
  assumes "config_ok cfg"
  shows "ParseTLV cfg d \<noteq> Abort"
  using assms by (auto simp: ParseTLV_def config_ok_def Let_def)

lemma ParseTLV_length:
  "\<lbrakk>config_ok cfg; ParseTLV cfg d = Value w\<rbrakk> \<Longrightarrow> kHeaderSize cfg \<le> length w \<and> length w < 2 ^ 16"
  using ParseTLV_Value by (fastforce simp: tlv_ok_def)

section \<open>The interface of a block class\<close>

text \<open>
  What containers rely on: serialising a well-formed value appends one complete block whatever
  was written before, parsing that block with or without its padding gives the value back, and
  parsing never fails an \<open>RTC_CHECK\<close>, whatever the bytes.
\<close>

locale tlv_codec =
  fixes cfg :: tlv_config
    and Parse :: "bytes \<Rightarrow> 'p outcome"
    and SerializeTo :: "'p \<Rightarrow> bytes \<Rightarrow> bytes outcome"
    and valid :: "'p \<Rightarrow> bool"
  assumes config: "config_ok cfg"
    and serializes: "valid p \<Longrightarrow>
      \<exists>w. (\<forall>out. SerializeTo p out = Value (out @ w)) \<and> tlv_ok cfg w
        \<and> (\<forall>pad. pad_ok cfg pad \<longrightarrow> Parse (w @ pad) = Value p)"
    and never_aborts: "Parse d \<noteq> Abort"
begin

lemma round_trip: "valid p \<Longrightarrow> SerializeTo p [] = Value w \<Longrightarrow> pad_ok cfg pad \<Longrightarrow> Parse (w @ pad) = Value p"
  using serializes[of p] by auto

lemma block_of: "valid p \<Longrightarrow> SerializeTo p out = Value z \<Longrightarrow> \<exists>w. z = out @ w \<and> tlv_ok cfg w"
  using serializes[of p] by auto

lemma serialize_injective:
  assumes "valid p" "valid q" "SerializeTo p [] = SerializeTo q []"
  shows "p = q"
proof -
  obtain w where w: "SerializeTo p [] = Value w"
    using serializes[OF assms(1)] by auto
  have "Parse (w @ []) = Value p" "Parse (w @ []) = Value q"
    using round_trip[OF assms(1) w pad_ok_Nil] round_trip[OF assms(2) _ pad_ok_Nil, of w] w assms(3)
    by simp_all
  then show ?thesis by simp
qed

end


text \<open>
  All classes parse by \<open>ParseTLV\<close> followed by a decoder of the header and variable part, so an
  instance only has to look at that decoder on complete blocks.
\<close>

lemma tlv_codecI:
  assumes "config_ok cfg"
    and "\<And>d. Parse d = bind_outcome (ParseTLV cfg d) f"
    and "\<And>p. valid p \<Longrightarrow> \<exists>w. (\<forall>out. SerializeTo p out = Value (out @ w)) \<and> tlv_ok cfg w \<and> f w = Value p"
    and "\<And>w. tlv_ok cfg w \<Longrightarrow> f w \<noteq> Abort"
  shows "tlv_codec cfg Parse SerializeTo valid"
proof
  show "config_ok cfg" by fact
next
  fix p assume "valid p"
  then obtain w where "\<forall>out. SerializeTo p out = Value (out @ w)" "tlv_ok cfg w" "f w = Value p"
    using assms(3) by blast
  then show "\<exists>w. (\<forall>out. SerializeTo p out = Value (out @ w)) \<and> tlv_ok cfg w
        \<and> (\<forall>pad. pad_ok cfg pad \<longrightarrow> Parse (w @ pad) = Value p)"
    using ParseTLV_block[OF assms(1)] by (auto simp: assms(2))
next
  fix d show "Parse d \<noteq> Abort"
    unfolding assms(2) using assms(1,4) ParseTLV_Value by (intro bind_outcome_no_abort) auto
qed

lemma tlv_codec_parseI:
  assumes "config_ok cfg"
    and "\<And>d. Parse d = bind_outcome (ParseTLV cfg d) f"
    and "\<And>p. valid p \<Longrightarrow> \<exists>w. (\<forall>out. SerializeTo p out = Value (out @ w)) \<and> tlv_ok cfg w \<and> Parse w = Value p"
    and "\<And>w. tlv_ok cfg w \<Longrightarrow> f w \<noteq> Abort"
  shows "tlv_codec cfg Parse SerializeTo valid"
proof (rule tlv_codecI[OF assms(1,2) _ assms(4)])
  fix p assume "valid p"
  then obtain w where w: "\<forall>out. SerializeTo p out = Value (out @ w)" "tlv_ok cfg w" "Parse w = Value p"
    using assms(3) by blast
  have "f w = Value p"
    using ParseTLV_block[OF assms(1) w(2) pad_ok_Nil] w(3) by (simp add: assms(2))
  with w show "\<exists>w. (\<forall>out. SerializeTo p out = Value (out @ w)) \<and> tlv_ok cfg w \<and> f w = Value p"
    by blast
qed

lemma tlv_ok_length: "tlv_ok cfg w \<Longrightarrow> kHeaderSize cfg \<le> length w \<and> length w < 65536"
  by (simp add: tlv_ok_def)

end
