(* ===== verification/Parameter_Types.thy ===== *)
theory Parameter_Types
  imports Tlv
begin

text \<open>
  The parameters of \<open>packet/parameter/*.{h,cc}\<close>.  The class hierarchy below \<open>Parameter\<close> (which
  includes the error causes) is one datatype whose constructors are the classes; every class
  keeps its own configuration, \<open>Parse\<close> and \<open>SerializeTo\<close>.  Strong integer aliases are words of
  the underlying width, and a \<open>std::string\<close> is its bytes.
\<close>

section \<open>The classes\<close>

datatype reconfig_result =
    kSuccessNothingToDo | kSuccessPerformed | kDenied | kErrorWrongSSN
  | kErrorRequestAlreadyInProgress | kErrorBadSequenceNumber | kInProgress

datatype parameter =
    HeartbeatInfoParameter bytes
  | StateCookieParameter bytes
  | OutgoingSSNResetRequestParameter u32 u32 u32 "u16 list"
  | IncomingSSNResetRequestParameter u32 "u16 list"
  | SSNTSNResetRequestParameter u32
  | ReconfigurationResponseParameter u32 reconfig_result "u32 option" "u32 option"
  | AddOutgoingStreamsRequestParameter u32 u16
  | AddIncomingStreamsRequestParameter u32 u16
  | SupportedExtensionsParameter bytes
  | ForwardTsnSupportedParameter
  | ZeroChecksumAcceptableChunkParameter u32
  | InvalidStreamIdentifierCause u16
  | MissingMandatoryParameterCause "u16 list"
  | StaleCookieErrorCause u32
  | OutOfResourceErrorCause
  | UnresolvableAddressCause bytes
  | UnrecognizedChunkTypeCause bytes
  | InvalidMandatoryParameterCause
  | UnrecognizedParametersCause bytes
  | NoUserDataCause u32
  | CookieReceivedWhileShuttingDownCause
  | RestartOfAnAssociationWithNewAddressesCause bytes
  | UserInitiatedAbortCause bytes
  | ProtocolViolationCause bytes

definition ParameterConfig :: "nat \<Rightarrow> nat \<Rightarrow> nat \<Rightarrow> tlv_config" where
  "ParameterConfig ty header align =
     \<lparr>kType = ty, kTypeSizeInBytes = 2, kHeaderSize = header, kVariableLengthAlignment = align\<rparr>"

text \<open>Elements of the variable part that are one 16-bit number (stream ids, parameter types).\<close>

definition load_u16 :: "bytes \<Rightarrow> u16" where
  "load_u16 r = Load16 0 r"

definition store_u16 :: "u16 \<Rightarrow> bytes \<Rightarrow> bytes" where
  "store_u16 v w = Store16 0 v w"

subsection \<open>HeartbeatInfoParameter\<close>

definition HeartbeatInfo_config :: tlv_config where
  "HeartbeatInfo_config = ParameterConfig 1 4 1"

definition HeartbeatInfo_Parse :: "bytes \<Rightarrow> parameter outcome" where
  "HeartbeatInfo_Parse data =
     bind_outcome (ParseTLV HeartbeatInfo_config data) (\<lambda>reader.
       Value (HeartbeatInfoParameter (variable_data 4 reader)))"

definition HeartbeatInfo_SerializeTo :: "bytes \<Rightarrow> bytes \<Rightarrow> bytes outcome" where
  "HeartbeatInfo_SerializeTo v out =
     bind_outcome (AllocateTLV HeartbeatInfo_config (length v)) (\<lambda>writer.
       Value (out @ CopyToVariableData 4 v writer))"

subsection \<open>StateCookieParameter\<close>

definition StateCookie_config :: tlv_config where
  "StateCookie_config = ParameterConfig 7 4 1"

definition StateCookie_Parse :: "bytes \<Rightarrow> parameter outcome" where
  "StateCookie_Parse data =
     bind_outcome (ParseTLV StateCookie_config data) (\<lambda>reader.
       Value (StateCookieParameter (variable_data 4 reader)))"

definition StateCookie_SerializeTo :: "bytes \<Rightarrow> bytes \<Rightarrow> bytes outcome" where
  "StateCookie_SerializeTo v out =
     bind_outcome (AllocateTLV StateCookie_config (length v)) (\<lambda>writer.
       Value (out @ CopyToVariableData 4 v writer))"

subsection \<open>OutgoingSSNResetRequestParameter\<close>

definition OutgoingSSNReset_config :: tlv_config where
  "OutgoingSSNReset_config = ParameterConfig 13 16 2"

definition OutgoingSSNReset_Parse :: "bytes \<Rightarrow> parameter outcome" where
  "OutgoingSSNReset_Parse data =
     bind_outcome (ParseTLV OutgoingSSNReset_config data) (\<lambda>reader.
       let stream_count = variable_data_size 16 reader div 2 in
       bind_outcome (read_array 16 2 load_u16 0 stream_count reader) (\<lambda>stream_ids.
         Value (OutgoingSSNResetRequestParameter (Load32 4 reader) (Load32 8 reader)
                  (Load32 12 reader) stream_ids)))"

definition OutgoingSSNReset_SerializeTo :: "u32 \<Rightarrow> u32 \<Rightarrow> u32 \<Rightarrow> u16 list \<Rightarrow> bytes \<Rightarrow> bytes outcome" where
  "OutgoingSSNReset_SerializeTo request_sn response_sn last_tsn stream_ids out =
     bind_outcome (AllocateTLV OutgoingSSNReset_config (length stream_ids * 2)) (\<lambda>writer.
     bind_outcome (write_array 16 2 store_u16 0 stream_ids
        (Store32 12 last_tsn (Store32 8 response_sn (Store32 4 request_sn writer)))) (\<lambda>writer.
       Value (out @ writer)))"

subsection \<open>IncomingSSNResetRequestParameter\<close>

definition IncomingSSNReset_config :: tlv_config where
  "IncomingSSNReset_config = ParameterConfig 14 8 2"

definition IncomingSSNReset_Parse :: "bytes \<Rightarrow> parameter outcome" where
  "IncomingSSNReset_Parse data =
     bind_outcome (ParseTLV IncomingSSNReset_config data) (\<lambda>reader.
       let stream_count = variable_data_size 8 reader div 2 in
       bind_outcome (read_array 8 2 load_u16 0 stream_count reader) (\<lambda>stream_ids.
         Value (IncomingSSNResetRequestParameter (Load32 4 reader) stream_ids)))"

definition IncomingSSNReset_SerializeTo :: "u32 \<Rightarrow> u16 list \<Rightarrow> bytes \<Rightarrow> bytes outcome" where
  "IncomingSSNReset_SerializeTo request_sn stream_ids out =
     bind_outcome (AllocateTLV IncomingSSNReset_config (length stream_ids * 2)) (\<lambda>writer.
     bind_outcome (write_array 8 2 store_u16 0 stream_ids (Store32 4 request_sn writer)) (\<lambda>writer.
       Value (out @ writer)))"

subsection \<open>SSNTSNResetRequestParameter\<close>

definition SSNTSNReset_config :: tlv_config where
  "SSNTSNReset_config = ParameterConfig 15 8 0"

definition SSNTSNReset_Parse :: "bytes \<Rightarrow> parameter outcome" where
  "SSNTSNReset_Parse data =
     bind_outcome (ParseTLV SSNTSNReset_config data) (\<lambda>reader.
       Value (SSNTSNResetRequestParameter (Load32 4 reader)))"

definition SSNTSNReset_SerializeTo :: "u32 \<Rightarrow> bytes \<Rightarrow> bytes outcome" where
  "SSNTSNReset_SerializeTo request_sn out =
     bind_outcome (AllocateTLV SSNTSNReset_config 0) (\<lambda>writer.
       Value (out @ Store32 4 request_sn writer))"

subsection \<open>ReconfigurationResponseParameter\<close>

definition ReconfigurationResponse_config :: tlv_config where
  "ReconfigurationResponse_config = ParameterConfig 16 12 4"

definition decode_result :: "u32 \<Rightarrow> reconfig_result outcome" where
  "decode_result result_nbr =
     (if result_nbr = 0 then Value kSuccessNothingToDo
      else if result_nbr = 1 then Value kSuccessPerformed
      else if result_nbr = 2 then Value kDenied
      else if result_nbr = 3 then Value kErrorWrongSSN
      else if result_nbr = 4 then Value kErrorRequestAlreadyInProgress
      else if result_nbr = 5 then Value kErrorBadSequenceNumber
      else if result_nbr = 6 then Value kInProgress
      else Nullopt)"

primrec encode_result :: "reconfig_result \<Rightarrow> u32" where
  "encode_result kSuccessNothingToDo = 0"
| "encode_result kSuccessPerformed = 1"
| "encode_result kDenied = 2"
| "encode_result kErrorWrongSSN = 3"
| "encode_result kErrorRequestAlreadyInProgress = 4"
| "encode_result kErrorBadSequenceNumber = 5"
| "encode_result kInProgress = 6"

definition ReconfigurationResponse_Parse :: "bytes \<Rightarrow> parameter outcome" where
  "ReconfigurationResponse_Parse data =
     bind_outcome (ParseTLV ReconfigurationResponse_config data) (\<lambda>reader.
     bind_outcome (decode_result (Load32 8 reader)) (\<lambda>result.
       if variable_data 12 reader = []
       then Value (ReconfigurationResponseParameter (Load32 4 reader) result None None)
       else if variable_data_size 12 reader \<noteq> 8 then Nullopt
       else bind_outcome (sub_reader 12 8 0 reader) (\<lambda>sub.
         Value (ReconfigurationResponseParameter (Load32 4 reader) result
                  (Some (Load32 0 sub)) (Some (Load32 4 sub))))))"

definition ReconfigurationResponse_SerializeTo ::
  "u32 \<Rightarrow> reconfig_result \<Rightarrow> u32 option \<Rightarrow> u32 option \<Rightarrow> bytes \<Rightarrow> bytes outcome" where
  "ReconfigurationResponse_SerializeTo response_sn result sender_next receiver_next out =
     (let variable_size = (if sender_next \<noteq> None then 8 else 0) in
      bind_outcome (AllocateTLV ReconfigurationResponse_config variable_size) (\<lambda>writer.
      let writer = Store32 8 (encode_result result) (Store32 4 response_sn writer) in
      bind_outcome
        (if sender_next \<noteq> None
         then sub_writer 12 8 0 (\<lambda>sub.
                Store32 4 (case receiver_next of Some t \<Rightarrow> t | None \<Rightarrow> 0)
                  (Store32 0 (case sender_next of Some t \<Rightarrow> t | None \<Rightarrow> 0) sub)) writer
         else Value writer) (\<lambda>writer.
        Value (out @ writer))))"

subsection \<open>AddOutgoingStreamsRequestParameter\<close>

definition AddOutgoingStreams_config :: tlv_config where
  "AddOutgoingStreams_config = ParameterConfig 17 12 0"

definition AddOutgoingStreams_Parse :: "bytes \<Rightarrow> parameter outcome" where
  "AddOutgoingStreams_Parse data =
     bind_outcome (ParseTLV AddOutgoingStreams_config data) (\<lambda>reader.
       Value (AddOutgoingStreamsRequestParameter (Load32 4 reader) (Load16 8 reader)))"

definition AddOutgoingStreams_SerializeTo :: "u32 \<Rightarrow> u16 \<Rightarrow> bytes \<Rightarrow> bytes outcome" where
  "AddOutgoingStreams_SerializeTo request_sn nbr_of_new_streams out =
     bind_outcome (AllocateTLV AddOutgoingStreams_config 0) (\<lambda>writer.
       Value (out @ Store16 8 nbr_of_new_streams (Store32 4 request_sn writer)))"

subsection \<open>AddIncomingStreamsRequestParameter\<close>

definition AddIncomingStreams_config :: tlv_config where
  "AddIncomingStreams_config = ParameterConfig 18 12 0"

definition AddIncomingStreams_Parse :: "bytes \<Rightarrow> parameter outcome" where
  "AddIncomingStreams_Parse data =
     bind_outcome (ParseTLV AddIncomingStreams_config data) (\<lambda>reader.
       Value (AddIncomingStreamsRequestParameter (Load32 4 reader) (Load16 8 reader)))"

definition AddIncomingStreams_SerializeTo :: "u32 \<Rightarrow> u16 \<Rightarrow> bytes \<Rightarrow> bytes outcome" where
  "AddIncomingStreams_SerializeTo request_sn nbr_of_new_streams out =
     bind_outcome (AllocateTLV AddIncomingStreams_config 0) (\<lambda>writer.
       Value (out @ Store16 8 nbr_of_new_streams (Store32 4 request_sn writer)))"

subsection \<open>SupportedExtensionsParameter\<close>

definition SupportedExtensions_config :: tlv_config where
  "SupportedExtensions_config = ParameterConfig 0x8008 4 1"

definition SupportedExtensions_Parse :: "bytes \<Rightarrow> parameter outcome" where
  "SupportedExtensions_Parse data =
     bind_outcome (ParseTLV SupportedExtensions_config data) (\<lambda>reader.
       Value (SupportedExtensionsParameter (variable_data 4 reader)))"

definition SupportedExtensions_SerializeTo :: "bytes \<Rightarrow> bytes \<Rightarrow> bytes outcome" where
  "SupportedExtensions_SerializeTo v out =
     bind_outcome (AllocateTLV SupportedExtensions_config (length v)) (\<lambda>writer.
       Value (out @ CopyToVariableData 4 v writer))"

subsection \<open>ForwardTsnSupportedParameter\<close>

definition ForwardTsnSupported_config :: tlv_config where
  "ForwardTsnSupported_config = ParameterConfig 49152 4 0"

definition ForwardTsnSupported_Parse :: "bytes \<Rightarrow> parameter outcome" where
  "ForwardTsnSupported_Parse data = bind_outcome (ParseTLV ForwardTsnSupported_config data) (\<lambda>_. Value ForwardTsnSupportedParameter)"

definition ForwardTsnSupported_SerializeTo :: "bytes \<Rightarrow> bytes outcome" where
  "ForwardTsnSupported_SerializeTo out = bind_outcome (AllocateTLV ForwardTsnSupported_config 0) (\<lambda>writer. Value (out @ writer))"

subsection \<open>ZeroChecksumAcceptableChunkParameter\<close>

definition ZeroChecksum_config :: tlv_config where
  "ZeroChecksum_config = ParameterConfig 0x8001 8 0"

definition ZeroChecksum_Parse :: "bytes \<Rightarrow> parameter outcome" where
  "ZeroChecksum_Parse data =
     bind_outcome (ParseTLV ZeroChecksum_config data) (\<lambda>reader.
       let edmid = Load32 4 reader in
       if edmid = 0 then Nullopt else Value (ZeroChecksumAcceptableChunkParameter edmid))"

definition ZeroChecksum_SerializeTo :: "u32 \<Rightarrow> bytes \<Rightarrow> bytes outcome" where
  "ZeroChecksum_SerializeTo edmid out =
     bind_outcome (AllocateTLV ZeroChecksum_config 0) (\<lambda>writer.
       Value (out @ Store32 4 edmid writer))"

end
