(* ===== verification/Error_Causes.thy ===== *)
theory Error_Causes
  imports Parameter_Types
begin

text \<open>
  The error causes of \<open>packet/error_cause/*.{h,cc}\<close>, which are parameters carried by ABORT and
  ERROR chunks, the virtual \<open>Parameter::SerializeTo\<close> over all classes, and the proof that every
  class is an instance of \<open>tlv_codec\<close>.
\<close>

section \<open>Causes\<close>

subsection \<open>InvalidStreamIdentifierCause\<close>

definition InvalidStreamIdentifier_config :: tlv_config where
  "InvalidStreamIdentifier_config = ParameterConfig 1 8 0"

definition InvalidStreamIdentifier_Parse :: "bytes \<Rightarrow> parameter outcome" where
  "InvalidStreamIdentifier_Parse data =
     bind_outcome (ParseTLV InvalidStreamIdentifier_config data) (\<lambda>reader.
       Value (InvalidStreamIdentifierCause (Load16 4 reader)))"

definition InvalidStreamIdentifier_SerializeTo :: "u16 \<Rightarrow> bytes \<Rightarrow> bytes outcome" where
  "InvalidStreamIdentifier_SerializeTo stream_id out =
     bind_outcome (AllocateTLV InvalidStreamIdentifier_config 0) (\<lambda>writer.
       Value (out @ Store16 4 stream_id writer))"

subsection \<open>MissingMandatoryParameterCause\<close>

definition MissingMandatoryParameter_config :: tlv_config where
  "MissingMandatoryParameter_config = ParameterConfig 2 8 2"

definition MissingMandatoryParameter_Parse :: "bytes \<Rightarrow> parameter outcome" where
  "MissingMandatoryParameter_Parse data =
     bind_outcome (ParseTLV MissingMandatoryParameter_config data) (\<lambda>reader.
       let count = unat (Load32 4 reader) in
       if variable_data_size 8 reader div 2 \<noteq> count then Nullopt
       else bind_outcome (read_array 8 2 load_u16 0 count reader) (\<lambda>missing_parameter_types.
         Value (MissingMandatoryParameterCause missing_parameter_types)))"

definition MissingMandatoryParameter_SerializeTo :: "u16 list \<Rightarrow> bytes \<Rightarrow> bytes outcome" where
  "MissingMandatoryParameter_SerializeTo missing_parameter_types out =
     bind_outcome (AllocateTLV MissingMandatoryParameter_config (length missing_parameter_types * 2)) (\<lambda>writer.
     bind_outcome (write_array 8 2 store_u16 0 missing_parameter_types
        (Store32 4 (of_nat (length missing_parameter_types)) writer)) (\<lambda>writer.
       Value (out @ writer)))"

subsection \<open>StaleCookieErrorCause\<close>

definition StaleCookieError_config :: tlv_config where
  "StaleCookieError_config = ParameterConfig 3 8 0"

definition StaleCookieError_Parse :: "bytes \<Rightarrow> parameter outcome" where
  "StaleCookieError_Parse data =
     bind_outcome (ParseTLV StaleCookieError_config data) (\<lambda>reader.
       Value (StaleCookieErrorCause (Load32 4 reader)))"

definition StaleCookieError_SerializeTo :: "u32 \<Rightarrow> bytes \<Rightarrow> bytes outcome" where
  "StaleCookieError_SerializeTo staleness_us out =
     bind_outcome (AllocateTLV StaleCookieError_config 0) (\<lambda>writer.
       Value (out @ Store32 4 staleness_us writer))"

subsection \<open>OutOfResourceErrorCause\<close>

definition OutOfResourceError_config :: tlv_config where
  "OutOfResourceError_config = ParameterConfig 4 4 0"

definition OutOfResourceError_Parse :: "bytes \<Rightarrow> parameter outcome" where
  "OutOfResourceError_Parse data = bind_outcome (ParseTLV OutOfResourceError_config data) (\<lambda>_. Value OutOfResourceErrorCause)"

definition OutOfResourceError_SerializeTo :: "bytes \<Rightarrow> bytes outcome" where
  "OutOfResourceError_SerializeTo out = bind_outcome (AllocateTLV OutOfResourceError_config 0) (\<lambda>writer. Value (out @ writer))"

subsection \<open>UnresolvableAddressCause\<close>

definition UnresolvableAddress_config :: tlv_config where
  "UnresolvableAddress_config = ParameterConfig 5 4 1"

definition UnresolvableAddress_Parse :: "bytes \<Rightarrow> parameter outcome" where
  "UnresolvableAddress_Parse data =
     bind_outcome (ParseTLV UnresolvableAddress_config data) (\<lambda>reader.
       Value (UnresolvableAddressCause (variable_data 4 reader)))"

definition UnresolvableAddress_SerializeTo :: "bytes \<Rightarrow> bytes \<Rightarrow> bytes outcome" where
  "UnresolvableAddress_SerializeTo v out =
     bind_outcome (AllocateTLV UnresolvableAddress_config (length v)) (\<lambda>writer.
       Value (out @ CopyToVariableData 4 v writer))"

subsection \<open>UnrecognizedChunkTypeCause\<close>

definition UnrecognizedChunkType_config :: tlv_config where
  "UnrecognizedChunkType_config = ParameterConfig 6 4 1"

definition UnrecognizedChunkType_Parse :: "bytes \<Rightarrow> parameter outcome" where
  "UnrecognizedChunkType_Parse data =
     bind_outcome (ParseTLV UnrecognizedChunkType_config data) (\<lambda>reader.
       Value (UnrecognizedChunkTypeCause (variable_data 4 reader)))"

definition UnrecognizedChunkType_SerializeTo :: "bytes \<Rightarrow> bytes \<Rightarrow> bytes outcome" where
  "UnrecognizedChunkType_SerializeTo v out =
     bind_outcome (AllocateTLV UnrecognizedChunkType_config (length v)) (\<lambda>writer.
       Value (out @ CopyToVariableData 4 v writer))"

subsection \<open>InvalidMandatoryParameterCause\<close>

definition InvalidMandatoryParameter_config :: tlv_config where
  "InvalidMandatoryParameter_config = ParameterConfig 7 4 0"

definition InvalidMandatoryParameter_Parse :: "bytes \<Rightarrow> parameter outcome" where
  "InvalidMandatoryParameter_Parse data = bind_outcome (ParseTLV InvalidMandatoryParameter_config data) (\<lambda>_. Value InvalidMandatoryParameterCause)"

definition InvalidMandatoryParameter_SerializeTo :: "bytes \<Rightarrow> bytes outcome" where
  "InvalidMandatoryParameter_SerializeTo out = bind_outcome (AllocateTLV InvalidMandatoryParameter_config 0) (\<lambda>writer. Value (out @ writer))"

subsection \<open>UnrecognizedParametersCause\<close>

definition UnrecognizedParameters_config :: tlv_config where
  "UnrecognizedParameters_config = ParameterConfig 8 4 1"

definition UnrecognizedParameters_Parse :: "bytes \<Rightarrow> parameter outcome" where
  "UnrecognizedParameters_Parse data =
     bind_outcome (ParseTLV UnrecognizedParameters_config data) (\<lambda>reader.
       Value (UnrecognizedParametersCause (variable_data 4 reader)))"

definition UnrecognizedParameters_SerializeTo :: "bytes \<Rightarrow> bytes \<Rightarrow> bytes outcome" where
  "UnrecognizedParameters_SerializeTo v out =
     bind_outcome (AllocateTLV UnrecognizedParameters_config (length v)) (\<lambda>writer.
       Value (out @ CopyToVariableData 4 v writer))"

subsection \<open>NoUserDataCause\<close>

definition NoUserData_config :: tlv_config where
  "NoUserData_config = ParameterConfig 9 8 0"

definition NoUserData_Parse :: "bytes \<Rightarrow> parameter outcome" where
  "NoUserData_Parse data =
     bind_outcome (ParseTLV NoUserData_config data) (\<lambda>reader.
       Value (NoUserDataCause (Load32 4 reader)))"

definition NoUserData_SerializeTo :: "u32 \<Rightarrow> bytes \<Rightarrow> bytes outcome" where
  "NoUserData_SerializeTo tsn out =
     bind_outcome (AllocateTLV NoUserData_config 0) (\<lambda>writer.
       Value (out @ Store32 4 tsn writer))"

subsection \<open>CookieReceivedWhileShuttingDownCause\<close>

definition CookieReceivedWhileShuttingDown_config :: tlv_config where
  "CookieReceivedWhileShuttingDown_config = ParameterConfig 10 4 0"

definition CookieReceivedWhileShuttingDown_Parse :: "bytes \<Rightarrow> parameter outcome" where
  "CookieReceivedWhileShuttingDown_Parse data = bind_outcome (ParseTLV CookieReceivedWhileShuttingDown_config data) (\<lambda>_. Value CookieReceivedWhileShuttingDownCause)"

definition CookieReceivedWhileShuttingDown_SerializeTo :: "bytes \<Rightarrow> bytes outcome" where
  "CookieReceivedWhileShuttingDown_SerializeTo out = bind_outcome (AllocateTLV CookieReceivedWhileShuttingDown_config 0) (\<lambda>writer. Value (out @ writer))"

subsection \<open>RestartOfAnAssociationWithNewAddressesCause\<close>

definition RestartOfAnAssociation_config :: tlv_config where
  "RestartOfAnAssociation_config = ParameterConfig 11 4 1"

definition RestartOfAnAssociation_Parse :: "bytes \<Rightarrow> parameter outcome" where
  "RestartOfAnAssociation_Parse data =
     bind_outcome (ParseTLV RestartOfAnAssociation_config data) (\<lambda>reader.
       Value (RestartOfAnAssociationWithNewAddressesCause (variable_data 4 reader)))"

definition RestartOfAnAssociation_SerializeTo :: "bytes \<Rightarrow> bytes \<Rightarrow> bytes outcome" where
  "RestartOfAnAssociation_SerializeTo v out =
     bind_outcome (AllocateTLV RestartOfAnAssociation_config (length v)) (\<lambda>writer.
       Value (out @ CopyToVariableData 4 v writer))"

subsection \<open>UserInitiatedAbortCause\<close>

definition UserInitiatedAbort_config :: tlv_config where
  "UserInitiatedAbort_config = ParameterConfig 12 4 1"

definition UserInitiatedAbort_Parse :: "bytes \<Rightarrow> parameter outcome" where
  "UserInitiatedAbort_Parse data =
     bind_outcome (ParseTLV UserInitiatedAbort_config data) (\<lambda>reader.
       if variable_data 4 reader = [] then Value (UserInitiatedAbortCause [])
       else Value (UserInitiatedAbortCause (variable_data 4 reader)))"

definition UserInitiatedAbort_SerializeTo :: "bytes \<Rightarrow> bytes \<Rightarrow> bytes outcome" where
  "UserInitiatedAbort_SerializeTo v out =
     bind_outcome (AllocateTLV UserInitiatedAbort_config (length v)) (\<lambda>writer.
       Value (out @ CopyToVariableData 4 v writer))"

subsection \<open>ProtocolViolationCause\<close>

definition ProtocolViolation_config :: tlv_config where
  "ProtocolViolation_config = ParameterConfig 13 4 1"

definition ProtocolViolation_Parse :: "bytes \<Rightarrow> parameter outcome" where
  "ProtocolViolation_Parse data =
     bind_outcome (ParseTLV ProtocolViolation_config data) (\<lambda>reader.
       Value (ProtocolViolationCause (variable_data 4 reader)))"

definition ProtocolViolation_SerializeTo :: "bytes \<Rightarrow> bytes \<Rightarrow> bytes outcome" where
  "ProtocolViolation_SerializeTo v out =
     bind_outcome (AllocateTLV ProtocolViolation_config (length v)) (\<lambda>writer.
       Value (out @ CopyToVariableData 4 v writer))"

section \<open>Virtual dispatch\<close>

primrec Parameter_SerializeTo :: "parameter \<Rightarrow> bytes \<Rightarrow> bytes outcome" where
  "Parameter_SerializeTo (HeartbeatInfoParameter a) = HeartbeatInfo_SerializeTo a"
| "Parameter_SerializeTo (StateCookieParameter a) = StateCookie_SerializeTo a"
| "Parameter_SerializeTo (OutgoingSSNResetRequestParameter a b c d) = OutgoingSSNReset_SerializeTo a b c d"
| "Parameter_SerializeTo (IncomingSSNResetRequestParameter a b) = IncomingSSNReset_SerializeTo a b"
| "Parameter_SerializeTo (SSNTSNResetRequestParameter a) = SSNTSNReset_SerializeTo a"
| "Parameter_SerializeTo (ReconfigurationResponseParameter a b c d) = ReconfigurationResponse_SerializeTo a b c d"
| "Parameter_SerializeTo (AddOutgoingStreamsRequestParameter a b) = AddOutgoingStreams_SerializeTo a b"
| "Parameter_SerializeTo (AddIncomingStreamsRequestParameter a b) = AddIncomingStreams_SerializeTo a b"
| "Parameter_SerializeTo (SupportedExtensionsParameter a) = SupportedExtensions_SerializeTo a"
| "Parameter_SerializeTo ForwardTsnSupportedParameter = ForwardTsnSupported_SerializeTo"
| "Parameter_SerializeTo (ZeroChecksumAcceptableChunkParameter a) = ZeroChecksum_SerializeTo a"
| "Parameter_SerializeTo (InvalidStreamIdentifierCause a) = InvalidStreamIdentifier_SerializeTo a"
| "Parameter_SerializeTo (MissingMandatoryParameterCause a) = MissingMandatoryParameter_SerializeTo a"
| "Parameter_SerializeTo (StaleCookieErrorCause a) = StaleCookieError_SerializeTo a"
| "Parameter_SerializeTo OutOfResourceErrorCause = OutOfResourceError_SerializeTo"
| "Parameter_SerializeTo (UnresolvableAddressCause a) = UnresolvableAddress_SerializeTo a"
| "Parameter_SerializeTo (UnrecognizedChunkTypeCause a) = UnrecognizedChunkType_SerializeTo a"
| "Parameter_SerializeTo InvalidMandatoryParameterCause = InvalidMandatoryParameter_SerializeTo"
| "Parameter_SerializeTo (UnrecognizedParametersCause a) = UnrecognizedParameters_SerializeTo a"
| "Parameter_SerializeTo (NoUserDataCause a) = NoUserData_SerializeTo a"
| "Parameter_SerializeTo CookieReceivedWhileShuttingDownCause = CookieReceivedWhileShuttingDown_SerializeTo"
| "Parameter_SerializeTo (RestartOfAnAssociationWithNewAddressesCause a) = RestartOfAnAssociation_SerializeTo a"
| "Parameter_SerializeTo (UserInitiatedAbortCause a) = UserInitiatedAbort_SerializeTo a"
| "Parameter_SerializeTo (ProtocolViolationCause a) = ProtocolViolation_SerializeTo a"

text \<open>The configuration each class passes to the trait.\<close>

primrec config_of :: "parameter \<Rightarrow> tlv_config" where
  "config_of (HeartbeatInfoParameter a) = HeartbeatInfo_config"
| "config_of (StateCookieParameter a) = StateCookie_config"
| "config_of (OutgoingSSNResetRequestParameter a b c d) = OutgoingSSNReset_config"
| "config_of (IncomingSSNResetRequestParameter a b) = IncomingSSNReset_config"
| "config_of (SSNTSNResetRequestParameter a) = SSNTSNReset_config"
| "config_of (ReconfigurationResponseParameter a b c d) = ReconfigurationResponse_config"
| "config_of (AddOutgoingStreamsRequestParameter a b) = AddOutgoingStreams_config"
| "config_of (AddIncomingStreamsRequestParameter a b) = AddIncomingStreams_config"
| "config_of (SupportedExtensionsParameter a) = SupportedExtensions_config"
| "config_of ForwardTsnSupportedParameter = ForwardTsnSupported_config"
| "config_of (ZeroChecksumAcceptableChunkParameter a) = ZeroChecksum_config"
| "config_of (InvalidStreamIdentifierCause a) = InvalidStreamIdentifier_config"
| "config_of (MissingMandatoryParameterCause a) = MissingMandatoryParameter_config"
| "config_of (StaleCookieErrorCause a) = StaleCookieError_config"
| "config_of OutOfResourceErrorCause = OutOfResourceError_config"
| "config_of (UnresolvableAddressCause a) = UnresolvableAddress_config"
| "config_of (UnrecognizedChunkTypeCause a) = UnrecognizedChunkType_config"
| "config_of InvalidMandatoryParameterCause = InvalidMandatoryParameter_config"
| "config_of (UnrecognizedParametersCause a) = UnrecognizedParameters_config"
| "config_of (NoUserDataCause a) = NoUserData_config"
| "config_of CookieReceivedWhileShuttingDownCause = CookieReceivedWhileShuttingDown_config"
| "config_of (RestartOfAnAssociationWithNewAddressesCause a) = RestartOfAnAssociation_config"
| "config_of (UserInitiatedAbortCause a) = UserInitiatedAbort_config"
| "config_of (ProtocolViolationCause a) = ProtocolViolation_config"

text \<open>The static \<open>Parse\<close> of the class of a value.\<close>

primrec class_Parse :: "parameter \<Rightarrow> bytes \<Rightarrow> parameter outcome" where
  "class_Parse (HeartbeatInfoParameter a) = HeartbeatInfo_Parse"
| "class_Parse (StateCookieParameter a) = StateCookie_Parse"
| "class_Parse (OutgoingSSNResetRequestParameter a b c d) = OutgoingSSNReset_Parse"
| "class_Parse (IncomingSSNResetRequestParameter a b) = IncomingSSNReset_Parse"
| "class_Parse (SSNTSNResetRequestParameter a) = SSNTSNReset_Parse"
| "class_Parse (ReconfigurationResponseParameter a b c d) = ReconfigurationResponse_Parse"
| "class_Parse (AddOutgoingStreamsRequestParameter a b) = AddOutgoingStreams_Parse"
| "class_Parse (AddIncomingStreamsRequestParameter a b) = AddIncomingStreams_Parse"
| "class_Parse (SupportedExtensionsParameter a) = SupportedExtensions_Parse"
| "class_Parse ForwardTsnSupportedParameter = ForwardTsnSupported_Parse"
| "class_Parse (ZeroChecksumAcceptableChunkParameter a) = ZeroChecksum_Parse"
| "class_Parse (InvalidStreamIdentifierCause a) = InvalidStreamIdentifier_Parse"
| "class_Parse (MissingMandatoryParameterCause a) = MissingMandatoryParameter_Parse"
| "class_Parse (StaleCookieErrorCause a) = StaleCookieError_Parse"
| "class_Parse OutOfResourceErrorCause = OutOfResourceError_Parse"
| "class_Parse (UnresolvableAddressCause a) = UnresolvableAddress_Parse"
| "class_Parse (UnrecognizedChunkTypeCause a) = UnrecognizedChunkType_Parse"
| "class_Parse InvalidMandatoryParameterCause = InvalidMandatoryParameter_Parse"
| "class_Parse (UnrecognizedParametersCause a) = UnrecognizedParameters_Parse"
| "class_Parse (NoUserDataCause a) = NoUserData_Parse"
| "class_Parse CookieReceivedWhileShuttingDownCause = CookieReceivedWhileShuttingDown_Parse"
| "class_Parse (RestartOfAnAssociationWithNewAddressesCause a) = RestartOfAnAssociation_Parse"
| "class_Parse (UserInitiatedAbortCause a) = UserInitiatedAbort_Parse"
| "class_Parse (ProtocolViolationCause a) = ProtocolViolation_Parse"

text \<open>
  Values that fit a block: the length field has 16 bits, a response carries both optional TSNs
  or none, and the method \<open>None\<close> is not announced.
\<close>

fun wf_parameter :: "parameter \<Rightarrow> bool" where
  "wf_parameter (HeartbeatInfoParameter v) = (4 + length v < 65536)"
| "wf_parameter (StateCookieParameter v) = (4 + length v < 65536)"
| "wf_parameter (OutgoingSSNResetRequestParameter a b c ids) = (16 + 2 * length ids < 65536)"
| "wf_parameter (IncomingSSNResetRequestParameter a ids) = (8 + 2 * length ids < 65536)"
| "wf_parameter (ReconfigurationResponseParameter a r s t) = ((s = None) = (t = None))"
| "wf_parameter (SupportedExtensionsParameter v) = (4 + length v < 65536)"
| "wf_parameter (ZeroChecksumAcceptableChunkParameter m) = (m \<noteq> 0)"
| "wf_parameter (MissingMandatoryParameterCause ts) = (8 + 2 * length ts < 65536)"
| "wf_parameter (UnresolvableAddressCause v) = (4 + length v < 65536)"
| "wf_parameter (UnrecognizedChunkTypeCause v) = (4 + length v < 65536)"
| "wf_parameter (UnrecognizedParametersCause v) = (4 + length v < 65536)"
| "wf_parameter (RestartOfAnAssociationWithNewAddressesCause v) = (4 + length v < 65536)"
| "wf_parameter (UserInitiatedAbortCause v) = (4 + length v < 65536)"
| "wf_parameter (ProtocolViolationCause v) = (4 + length v < 65536)"
| "wf_parameter _ = True"

definition parameter_of :: "tlv_config \<Rightarrow> parameter \<Rightarrow> bool" where
  "parameter_of cfg p = (wf_parameter p \<and> config_of p = cfg)"

section \<open>Every class is a block codec\<close>

lemma ParameterConfig_simps [simp]:
  "kType (ParameterConfig t h a) = t" "kTypeSizeInBytes (ParameterConfig t h a) = 2"
  "kHeaderSize (ParameterConfig t h a) = h" "kVariableLengthAlignment (ParameterConfig t h a) = a"
  by (simp_all add: ParameterConfig_def)

interpretation u16_element: element_codec 2 load_u16 store_u16 "\<lambda>_. True"
  by unfold_locales (simp_all add: load_u16_def store_u16_def byte_simps)

lemmas parameter_config_defs =
  HeartbeatInfo_config_def StateCookie_config_def OutgoingSSNReset_config_def
  IncomingSSNReset_config_def SSNTSNReset_config_def ReconfigurationResponse_config_def
  AddOutgoingStreams_config_def AddIncomingStreams_config_def SupportedExtensions_config_def
  ForwardTsnSupported_config_def ZeroChecksum_config_def InvalidStreamIdentifier_config_def
  MissingMandatoryParameter_config_def StaleCookieError_config_def OutOfResourceError_config_def
  UnresolvableAddress_config_def UnrecognizedChunkType_config_def InvalidMandatoryParameter_config_def
  UnrecognizedParameters_config_def NoUserData_config_def CookieReceivedWhileShuttingDown_config_def
  RestartOfAnAssociation_config_def UserInitiatedAbort_config_def ProtocolViolation_config_def

lemmas parameter_serialize_defs =
  HeartbeatInfo_SerializeTo_def StateCookie_SerializeTo_def OutgoingSSNReset_SerializeTo_def
  IncomingSSNReset_SerializeTo_def SSNTSNReset_SerializeTo_def ReconfigurationResponse_SerializeTo_def
  AddOutgoingStreams_SerializeTo_def AddIncomingStreams_SerializeTo_def SupportedExtensions_SerializeTo_def
  ForwardTsnSupported_SerializeTo_def ZeroChecksum_SerializeTo_def InvalidStreamIdentifier_SerializeTo_def
  MissingMandatoryParameter_SerializeTo_def StaleCookieError_SerializeTo_def OutOfResourceError_SerializeTo_def
  UnresolvableAddress_SerializeTo_def UnrecognizedChunkType_SerializeTo_def InvalidMandatoryParameter_SerializeTo_def
  UnrecognizedParameters_SerializeTo_def NoUserData_SerializeTo_def CookieReceivedWhileShuttingDown_SerializeTo_def
  RestartOfAnAssociation_SerializeTo_def UserInitiatedAbort_SerializeTo_def ProtocolViolation_SerializeTo_def

lemma ParameterConfig_inject [simp]:
  "(ParameterConfig t h a = ParameterConfig t' h' a') = (t = t' \<and> h = h' \<and> a = a')"
  by (simp add: ParameterConfig_def)

lemma config_of_ok: "config_ok (config_of p)"
  by (cases p) (simp_all add: config_ok_def kTlvHeaderSize_def parameter_config_defs)

lemma decode_encode_result [simp]: "decode_result (encode_result r) = Value r"
  by (cases r) (simp_all add: decode_result_def)

lemma decode_result_no_abort [simp]: "decode_result n \<noteq> Abort"
  by (simp add: decode_result_def)

lemma read_array_decoded [simp]:
  assumes "n \<le> length r" "(length r - n) div sz = count"
  shows "read_array n sz load 0 count r \<noteq> Abort"
proof -
  have "count * sz \<le> length r - n"
    unfolding assms(2)[symmetric] by (rule div_times_less_eq_dividend)
  with assms(1) show ?thesis by (intro read_array_not_Abort) simp
qed

lemmas codec_simps =
  variable_data_size_def tlv_ok_def load_type_def byte_simps u16_element.array_simps parameter_config_defs
  config_ok_def kTlvHeaderSize_def

interpretation HeartbeatInfo: tlv_codec HeartbeatInfo_config HeartbeatInfo_Parse Parameter_SerializeTo "parameter_of HeartbeatInfo_config"
proof (rule tlv_codecI[OF _ HeartbeatInfo_Parse_def], goal_cases)
  case (2 p)
  then show ?case
    by (cases p) (simp_all add: parameter_of_def codec_simps HeartbeatInfo_SerializeTo_def Let_def)
qed (simp_all add: codec_simps Let_def)

interpretation StateCookie: tlv_codec StateCookie_config StateCookie_Parse Parameter_SerializeTo "parameter_of StateCookie_config"
proof (rule tlv_codecI[OF _ StateCookie_Parse_def], goal_cases)
  case (2 p)
  then show ?case
    by (cases p) (simp_all add: parameter_of_def codec_simps StateCookie_SerializeTo_def Let_def)
qed (simp_all add: codec_simps Let_def)

interpretation OutgoingSSNReset: tlv_codec OutgoingSSNReset_config OutgoingSSNReset_Parse Parameter_SerializeTo "parameter_of OutgoingSSNReset_config"
proof (rule tlv_codecI[OF _ OutgoingSSNReset_Parse_def], goal_cases)
  case (2 p)
  then show ?case
    by (cases p) (simp_all add: parameter_of_def codec_simps OutgoingSSNReset_SerializeTo_def Let_def)
qed (simp_all add: codec_simps Let_def)

interpretation IncomingSSNReset: tlv_codec IncomingSSNReset_config IncomingSSNReset_Parse Parameter_SerializeTo "parameter_of IncomingSSNReset_config"
proof (rule tlv_codecI[OF _ IncomingSSNReset_Parse_def], goal_cases)
  case (2 p)
  then show ?case
    by (cases p) (simp_all add: parameter_of_def codec_simps IncomingSSNReset_SerializeTo_def Let_def)
qed (simp_all add: codec_simps Let_def)

interpretation SSNTSNReset: tlv_codec SSNTSNReset_config SSNTSNReset_Parse Parameter_SerializeTo "parameter_of SSNTSNReset_config"
proof (rule tlv_codecI[OF _ SSNTSNReset_Parse_def], goal_cases)
  case (2 p)
  then show ?case
    by (cases p) (simp_all add: parameter_of_def codec_simps SSNTSNReset_SerializeTo_def Let_def)
qed (simp_all add: codec_simps Let_def)

interpretation ReconfigurationResponse: tlv_codec ReconfigurationResponse_config ReconfigurationResponse_Parse Parameter_SerializeTo "parameter_of ReconfigurationResponse_config"
proof (rule tlv_codecI[OF _ ReconfigurationResponse_Parse_def], goal_cases)
  case (2 p)
  then show ?case
    by (cases p) (auto simp: parameter_of_def codec_simps ReconfigurationResponse_SerializeTo_def Let_def
        sub_writer_def BoundedByteWriter_def split: option.splits)
qed (simp_all add: codec_simps Let_def)

interpretation AddOutgoingStreams: tlv_codec AddOutgoingStreams_config AddOutgoingStreams_Parse Parameter_SerializeTo "parameter_of AddOutgoingStreams_config"
proof (rule tlv_codecI[OF _ AddOutgoingStreams_Parse_def], goal_cases)
  case (2 p)
  then show ?case
    by (cases p) (simp_all add: parameter_of_def codec_simps AddOutgoingStreams_SerializeTo_def Let_def)
qed (simp_all add: codec_simps Let_def)

interpretation AddIncomingStreams: tlv_codec AddIncomingStreams_config AddIncomingStreams_Parse Parameter_SerializeTo "parameter_of AddIncomingStreams_config"
proof (rule tlv_codecI[OF _ AddIncomingStreams_Parse_def], goal_cases)
  case (2 p)
  then show ?case
    by (cases p) (simp_all add: parameter_of_def codec_simps AddIncomingStreams_SerializeTo_def Let_def)
qed (simp_all add: codec_simps Let_def)

interpretation SupportedExtensions: tlv_codec SupportedExtensions_config SupportedExtensions_Parse Parameter_SerializeTo "parameter_of SupportedExtensions_config"
proof (rule tlv_codecI[OF _ SupportedExtensions_Parse_def], goal_cases)
  case (2 p)
  then show ?case
    by (cases p) (simp_all add: parameter_of_def codec_simps SupportedExtensions_SerializeTo_def Let_def)
qed (simp_all add: codec_simps Let_def)

interpretation ForwardTsnSupported: tlv_codec ForwardTsnSupported_config ForwardTsnSupported_Parse Parameter_SerializeTo "parameter_of ForwardTsnSupported_config"
proof (rule tlv_codecI[OF _ ForwardTsnSupported_Parse_def], goal_cases)
  case (2 p)
  then show ?case
    by (cases p) (simp_all add: parameter_of_def codec_simps ForwardTsnSupported_SerializeTo_def Let_def)
qed (simp_all add: codec_simps Let_def)

interpretation ZeroChecksum: tlv_codec ZeroChecksum_config ZeroChecksum_Parse Parameter_SerializeTo "parameter_of ZeroChecksum_config"
proof (rule tlv_codecI[OF _ ZeroChecksum_Parse_def], goal_cases)
  case (2 p)
  then show ?case
    by (cases p) (simp_all add: parameter_of_def codec_simps ZeroChecksum_SerializeTo_def Let_def)
qed (simp_all add: codec_simps Let_def)

interpretation InvalidStreamIdentifier: tlv_codec InvalidStreamIdentifier_config InvalidStreamIdentifier_Parse Parameter_SerializeTo "parameter_of InvalidStreamIdentifier_config"
proof (rule tlv_codecI[OF _ InvalidStreamIdentifier_Parse_def], goal_cases)
  case (2 p)
  then show ?case
    by (cases p) (simp_all add: parameter_of_def codec_simps InvalidStreamIdentifier_SerializeTo_def Let_def)
qed (simp_all add: codec_simps Let_def)

interpretation MissingMandatoryParameter: tlv_codec MissingMandatoryParameter_config MissingMandatoryParameter_Parse Parameter_SerializeTo "parameter_of MissingMandatoryParameter_config"
proof (rule tlv_codecI[OF _ MissingMandatoryParameter_Parse_def], goal_cases)
  case (2 p)
  then show ?case
    by (cases p) (simp_all add: parameter_of_def codec_simps MissingMandatoryParameter_SerializeTo_def Let_def)
qed (simp_all add: codec_simps Let_def)

interpretation StaleCookieError: tlv_codec StaleCookieError_config StaleCookieError_Parse Parameter_SerializeTo "parameter_of StaleCookieError_config"
proof (rule tlv_codecI[OF _ StaleCookieError_Parse_def], goal_cases)
  case (2 p)
  then show ?case
    by (cases p) (simp_all add: parameter_of_def codec_simps StaleCookieError_SerializeTo_def Let_def)
qed (simp_all add: codec_simps Let_def)

interpretation OutOfResourceError: tlv_codec OutOfResourceError_config OutOfResourceError_Parse Parameter_SerializeTo "parameter_of OutOfResourceError_config"
proof (rule tlv_codecI[OF _ OutOfResourceError_Parse_def], goal_cases)
  case (2 p)
  then show ?case
    by (cases p) (simp_all add: parameter_of_def codec_simps OutOfResourceError_SerializeTo_def Let_def)
qed (simp_all add: codec_simps Let_def)

interpretation UnresolvableAddress: tlv_codec UnresolvableAddress_config UnresolvableAddress_Parse Parameter_SerializeTo "parameter_of UnresolvableAddress_config"
proof (rule tlv_codecI[OF _ UnresolvableAddress_Parse_def], goal_cases)
  case (2 p)
  then show ?case
    by (cases p) (simp_all add: parameter_of_def codec_simps UnresolvableAddress_SerializeTo_def Let_def)
qed (simp_all add: codec_simps Let_def)

interpretation UnrecognizedChunkType: tlv_codec UnrecognizedChunkType_config UnrecognizedChunkType_Parse Parameter_SerializeTo "parameter_of UnrecognizedChunkType_config"
proof (rule tlv_codecI[OF _ UnrecognizedChunkType_Parse_def], goal_cases)
  case (2 p)
  then show ?case
    by (cases p) (simp_all add: parameter_of_def codec_simps UnrecognizedChunkType_SerializeTo_def Let_def)
qed (simp_all add: codec_simps Let_def)

interpretation InvalidMandatoryParameter: tlv_codec InvalidMandatoryParameter_config InvalidMandatoryParameter_Parse Parameter_SerializeTo "parameter_of InvalidMandatoryParameter_config"
proof (rule tlv_codecI[OF _ InvalidMandatoryParameter_Parse_def], goal_cases)
  case (2 p)
  then show ?case
    by (cases p) (simp_all add: parameter_of_def codec_simps InvalidMandatoryParameter_SerializeTo_def Let_def)
qed (simp_all add: codec_simps Let_def)

interpretation UnrecognizedParameters: tlv_codec UnrecognizedParameters_config UnrecognizedParameters_Parse Parameter_SerializeTo "parameter_of UnrecognizedParameters_config"
proof (rule tlv_codecI[OF _ UnrecognizedParameters_Parse_def], goal_cases)
  case (2 p)
  then show ?case
    by (cases p) (simp_all add: parameter_of_def codec_simps UnrecognizedParameters_SerializeTo_def Let_def)
qed (simp_all add: codec_simps Let_def)

interpretation NoUserData: tlv_codec NoUserData_config NoUserData_Parse Parameter_SerializeTo "parameter_of NoUserData_config"
proof (rule tlv_codecI[OF _ NoUserData_Parse_def], goal_cases)
  case (2 p)
  then show ?case
    by (cases p) (simp_all add: parameter_of_def codec_simps NoUserData_SerializeTo_def Let_def)
qed (simp_all add: codec_simps Let_def)

interpretation CookieReceivedWhileShuttingDown: tlv_codec CookieReceivedWhileShuttingDown_config CookieReceivedWhileShuttingDown_Parse Parameter_SerializeTo "parameter_of CookieReceivedWhileShuttingDown_config"
proof (rule tlv_codecI[OF _ CookieReceivedWhileShuttingDown_Parse_def], goal_cases)
  case (2 p)
  then show ?case
    by (cases p) (simp_all add: parameter_of_def codec_simps CookieReceivedWhileShuttingDown_SerializeTo_def Let_def)
qed (simp_all add: codec_simps Let_def)

interpretation RestartOfAnAssociation: tlv_codec RestartOfAnAssociation_config RestartOfAnAssociation_Parse Parameter_SerializeTo "parameter_of RestartOfAnAssociation_config"
proof (rule tlv_codecI[OF _ RestartOfAnAssociation_Parse_def], goal_cases)
  case (2 p)
  then show ?case
    by (cases p) (simp_all add: parameter_of_def codec_simps RestartOfAnAssociation_SerializeTo_def Let_def)
qed (simp_all add: codec_simps Let_def)

interpretation UserInitiatedAbort: tlv_codec UserInitiatedAbort_config UserInitiatedAbort_Parse Parameter_SerializeTo "parameter_of UserInitiatedAbort_config"
proof (rule tlv_codecI[OF _ UserInitiatedAbort_Parse_def], goal_cases)
  case (2 p)
  then show ?case
    by (cases p) (simp_all add: parameter_of_def codec_simps UserInitiatedAbort_SerializeTo_def Let_def)
qed (simp_all add: codec_simps Let_def)

interpretation ProtocolViolation: tlv_codec ProtocolViolation_config ProtocolViolation_Parse Parameter_SerializeTo "parameter_of ProtocolViolation_config"
proof (rule tlv_codecI[OF _ ProtocolViolation_Parse_def], goal_cases)
  case (2 p)
  then show ?case
    by (cases p) (simp_all add: parameter_of_def codec_simps ProtocolViolation_SerializeTo_def Let_def)
qed (simp_all add: codec_simps Let_def)

lemmas parameter_class_serializes =
  HeartbeatInfo.serializes StateCookie.serializes OutgoingSSNReset.serializes
  IncomingSSNReset.serializes SSNTSNReset.serializes ReconfigurationResponse.serializes
  AddOutgoingStreams.serializes AddIncomingStreams.serializes SupportedExtensions.serializes
  ForwardTsnSupported.serializes ZeroChecksum.serializes InvalidStreamIdentifier.serializes
  MissingMandatoryParameter.serializes StaleCookieError.serializes OutOfResourceError.serializes
  UnresolvableAddress.serializes UnrecognizedChunkType.serializes InvalidMandatoryParameter.serializes
  UnrecognizedParameters.serializes NoUserData.serializes CookieReceivedWhileShuttingDown.serializes
  RestartOfAnAssociation.serializes UserInitiatedAbort.serializes ProtocolViolation.serializes

lemma parameter_serializes:
  assumes "wf_parameter p"
  shows "\<exists>w. (\<forall>out. Parameter_SerializeTo p out = Value (out @ w)) \<and> tlv_ok (config_of p) w
    \<and> class_Parse p w = Value p"
proof -
  have "parameter_of (config_of p) p"
    using assms by (simp add: parameter_of_def)
  then show ?thesis
    by (cases p) (simp_all only: config_of.simps class_Parse.simps,
        (drule parameter_class_serializes, metis pad_ok_Nil append_Nil2)+)
qed

end
