(* ===== verification/Parameters.thy ===== *)
theory Parameters
  imports Error_Causes
begin

text \<open>
  Lists of parameters: \<open>Parameters\<close> and \<open>Parameters::Builder\<close> of \<open>packet/parameter/parameter.{h,cc}\<close>.
  The two loops over the raw bytes advance by a 16-bit length rounded up in 16 bits, so they are
  partial functions: \<open>None\<close> means that the loop does not end.
\<close>

section \<open>Definitions\<close>

definition kParameterHeaderSize :: nat where
  "kParameterHeaderSize = 4"

record ParameterDescriptor =
  pd_type :: u16
  pd_data :: bytes

definition resize :: "nat \<Rightarrow> bytes \<Rightarrow> bytes" where
  "resize n data = take n data @ replicate (n - length data) 0"

definition Builder_Add :: "bytes \<Rightarrow> parameter \<Rightarrow> bytes outcome" where
  "Builder_Add data p =
     (let data = (if length data mod 4 \<noteq> 0
                  then resize (unat (RoundUpTo4 (of_nat (length data) :: u64))) data else data)
      in Parameter_SerializeTo p data)"

text \<open>A chain of \<open>Add\<close> calls on a builder, ended by \<open>Build\<close>.\<close>

fun Builder_Add_all :: "bytes \<Rightarrow> parameter list \<Rightarrow> bytes outcome" where
  "Builder_Add_all data [] = Value data"
| "Builder_Add_all data (p # ps) =
     bind_outcome (Builder_Add data p) (\<lambda>data. Builder_Add_all data ps)"

partial_function (option) descriptors_loop ::
  "bytes \<Rightarrow> ParameterDescriptor list \<Rightarrow> ParameterDescriptor list outcome option" where
  "descriptors_loop span result =
     (if span = [] then Some (Value result)
      else case BoundedByteReader kParameterHeaderSize span of
        Abort \<Rightarrow> Some Abort
      | Nullopt \<Rightarrow> Some Nullopt
      | Value header \<Rightarrow>
          let len = Load16 2 header;
              result = result @ [\<lparr>pd_type = Load16 0 header, pd_data = take (unat len) span\<rparr>];
              length_with_padding = unat (RoundUpTo4 len)
          in if length_with_padding > length span then Some (Value result)
             else descriptors_loop (drop length_with_padding span) result)"

definition descriptors :: "bytes \<Rightarrow> ParameterDescriptor list outcome option" where
  "descriptors data = descriptors_loop data []"

partial_function (option) Parse_loop :: "bytes \<Rightarrow> unit outcome option" where
  "Parse_loop span =
     (if span = [] then Some (Value ())
      else if length span < kParameterHeaderSize then Some Nullopt
      else case BoundedByteReader kParameterHeaderSize span of
        Abort \<Rightarrow> Some Abort
      | Nullopt \<Rightarrow> Some Nullopt
      | Value header \<Rightarrow>
          let len = Load16 2 header
          in if unat len < kParameterHeaderSize \<or> unat len > length span then Some Nullopt
             else let length_with_padding = unat (RoundUpTo4 len)
               in if length_with_padding > length span then Some (Value ())
                  else Parse_loop (drop length_with_padding span))"

definition Parameters_Parse :: "bytes \<Rightarrow> bytes outcome option" where
  "Parameters_Parse data = map_option (\<lambda>r. bind_outcome r (\<lambda>_. Value data)) (Parse_loop data)"

text \<open>\<open>get<P>()\<close>: the first descriptor of the class's type decides.\<close>

definition Parameters_get ::
  "tlv_config \<Rightarrow> (bytes \<Rightarrow> parameter outcome) \<Rightarrow> bytes \<Rightarrow> parameter outcome option" where
  "Parameters_get cfg Parse data =
     map_option (\<lambda>r. bind_outcome r (\<lambda>ds.
       case find (\<lambda>d. unat (pd_type d) = kType cfg) ds of
         Some d \<Rightarrow> Parse (pd_data d)
       | None \<Rightarrow> Nullopt)) (descriptors data)"

section \<open>Rounding\<close>

lemma and_not_3: "(x :: 'a::len word) AND NOT 3 = push_bit 2 (drop_bit 2 x)"
proof -
  have three: "(3 :: 'a word) = mask 2"
    by (simp add: mask_eq_exp_minus_1)
  have shift: "Suc (Suc (n - 2)) = n" if "2 \<le> n" for n :: nat
    using that by simp
  show ?thesis
    unfolding three by (rule bit_word_eqI) (auto simp: bit_simps shift not_less)
qed

lemma unat_and_not_3: "unat ((x :: 'a::len word) AND NOT 3) = unat x div 4 * 4"
proof -
  have "unat (push_bit 2 (drop_bit 2 x)) = take_bit LENGTH('a) (push_bit 2 (drop_bit 2 (unat x)))"
    by (simp only: unsigned_push_bit_eq unsigned_drop_bit_eq take_bit_nat_eq_self[OF unsigned_less])
  moreover have "push_bit 2 (drop_bit 2 (unat x)) = unat x div 4 * 4"
    by (simp add: push_bit_eq_mult drop_bit_eq_div)
  moreover have "unat x div 4 * 4 < 2 ^ LENGTH('a)"
    using unsigned_less[of x] div_times_less_eq_dividend[of "unat x" 4] by (metis le_less_trans)
  ultimately show ?thesis
    unfolding and_not_3 by (simp only: take_bit_nat_eq_self)
qed

definition round4 :: "nat \<Rightarrow> nat" where
  "round4 n = (n + 3) div 4 * 4"

lemma round4_bounds: "n \<le> round4 n" "round4 n \<le> n + 3" "round4 n mod 4 = 0"
  unfolding round4_def by presburger+

lemma round4_same [simp]: "n mod 4 = 0 \<Longrightarrow> round4 n = n"
  unfolding round4_def by presburger

lemma unat_RoundUpTo4:
  assumes "unat (x :: 'a::len word) + 3 < 2 ^ LENGTH('a)" "2 < LENGTH('a)"
  shows "unat (RoundUpTo4 x) = round4 (unat x)"
proof -
  have "(2 :: nat) ^ 3 \<le> 2 ^ LENGTH('a)"
    using assms(2) by (intro power_increasing) auto
  then have "unat (3 :: 'a word) = 3"
    by (simp add: unsigned_numeral take_bit_eq_mod)
  then have "unat (x + 3) = unat x + 3"
    using assms(1) by (simp add: unat_word_ariths)
  then show ?thesis
    unfolding RoundUpTo4_def unat_and_not_3 round4_def by simp
qed

lemma RoundUpTo4_u16: "unat (x :: u16) < 65533 \<Longrightarrow> unat (RoundUpTo4 x) = round4 (unat x)"
  by (rule unat_RoundUpTo4) simp_all

lemma RoundUpTo4_u16_wraps: "unat (x :: u16) \<ge> 65533 \<Longrightarrow> unat (RoundUpTo4 x) = 0"
proof -
  assume "unat x \<ge> 65533"
  then have "unat (x + 3) = unat x + 3 - 65536"
    using unat_bounds(2)[of x] by (simp add: unat_word_ariths le_mod_geq)
  then have "unat (x + 3) div 4 = 0"
    using unat_bounds(2)[of x] by simp
  then show ?thesis
    unfolding RoundUpTo4_def unat_and_not_3 by simp
qed

lemma RoundUpTo4_u64: "n + 3 < 2 ^ 64 \<Longrightarrow> unat (RoundUpTo4 (of_nat n :: u64)) = round4 n"
  using unat_RoundUpTo4[of "of_nat n :: u64"] by (simp add: unat_of_nat)

section \<open>Termination and safety of the loops\<close>

lemma Parse_loop_returns: "length span < 65533 \<Longrightarrow> \<exists>r. Parse_loop span = Some r \<and> r \<noteq> Abort"
proof (induction span rule: length_induct)
  case (1 span)
  define len where "len = Load16 2 span"
  have rec: "\<exists>r. Parse_loop (drop (unat (RoundUpTo4 len)) span) = Some r \<and> r \<noteq> Abort"
    if "span \<noteq> []" "4 \<le> unat len" "unat len \<le> length span"
    using 1 that RoundUpTo4_u16[of len] round4_bounds(1)[of "unat len"] by simp
  show ?case
    using rec
    by (subst Parse_loop.simps)
      (auto simp: kParameterHeaderSize_def len_def[symmetric] Let_def)
qed

text \<open>What a successful run of the validation loop says about the bytes.\<close>

inductive params_ok :: "bytes \<Rightarrow> bool" where
  empty: "params_ok []"
| last_one: "\<lbrakk>4 \<le> length span; 4 \<le> unat (Load16 2 span); unat (Load16 2 span) \<le> length span;
      length span < unat (RoundUpTo4 (Load16 2 span))\<rbrakk> \<Longrightarrow> params_ok span"
| more: "\<lbrakk>4 \<le> length span; 4 \<le> unat (Load16 2 span); unat (Load16 2 span) \<le> length span;
      unat (RoundUpTo4 (Load16 2 span)) \<le> length span;
      params_ok (drop (unat (RoundUpTo4 (Load16 2 span))) span)\<rbrakk> \<Longrightarrow> params_ok span"

lemma Parse_loop_params_ok: "Parse_loop span = Some r \<Longrightarrow> r = Value u \<longrightarrow> params_ok span"
  by (erule Parse_loop.raw_induct[rotated])
    (auto simp: kParameterHeaderSize_def Let_def BoundedByteReader_def
      intro: params_ok.intros split: if_splits)

lemma params_ok_descriptors:
  "params_ok span \<Longrightarrow> \<exists>ds. descriptors_loop span acc = Some (Value (acc @ ds))"
proof (induction arbitrary: acc rule: params_ok.induct)
  case (more span)
  let ?d = "\<lparr>pd_type = Load16 0 span, pd_data = take (unat (Load16 2 span)) span\<rparr>"
  obtain ds where "descriptors_loop (drop (unat (RoundUpTo4 (Load16 2 span))) span) (acc @ [?d])
      = Some (Value ((acc @ [?d]) @ ds))"
    using more.IH by blast
  with more.hyps show ?case
    by (subst descriptors_loop.simps) (auto simp: kParameterHeaderSize_def Let_def)
qed (subst descriptors_loop.simps, auto simp: kParameterHeaderSize_def Let_def)+


text \<open>
  A length field of 65533 or more rounds up to 0, the loop then looks at the same bytes again.
\<close>

lemma Parse_loop_diverges:
  assumes "65533 \<le> unat (Load16 2 span)" "unat (Load16 2 span) \<le> length span"
  shows "Parse_loop span = None"
proof -
  have "Parse_loop s = Some r \<Longrightarrow>
      \<not> (65533 \<le> unat (Load16 2 s) \<and> unat (Load16 2 s) \<le> length s)" for s r
    by (erule Parse_loop.raw_induct[rotated])
      (auto simp: kParameterHeaderSize_def Let_def BoundedByteReader_def
        RoundUpTo4_u16_wraps not_less split: if_splits)
  with assms show ?thesis by (cases "Parse_loop span") auto
qed

section \<open>Builder and parser\<close>

definition pad4 :: "bytes \<Rightarrow> bytes" where
  "pad4 d = d @ replicate (round4 (length d) - length d) 0"

fun layout :: "bytes list \<Rightarrow> bytes" where
  "layout [] = []"
| "layout [w] = w"
| "layout (w # ws) = pad4 w @ layout ws"

lemma length_pad4 [simp]: "length (pad4 d) = round4 (length d)"
  using round4_bounds[of "length d"] by (simp add: pad4_def)

lemma round4_add: "m mod 4 = 0 \<Longrightarrow> round4 (m + n) = m + round4 n"
  unfolding round4_def by presburger

lemma pad4_append: "length d mod 4 = 0 \<Longrightarrow> pad4 (d @ e) = d @ pad4 e"
  by (simp add: pad4_def round4_add)

lemma pad4_id [simp]: "length d mod 4 = 0 \<Longrightarrow> pad4 d = d"
  by (simp add: pad4_def)

lemma layout_snoc: "layout (ws @ [w]) = pad4 (layout ws) @ w"
proof (induction ws rule: layout.induct)
  case (3 v u us)
  then show ?case
    using round4_bounds(3)[of "length v"] by (simp add: pad4_append)
qed (simp_all add: pad4_def round4_def)

lemma layout_Cons: "ws \<noteq> [] \<Longrightarrow> layout (w # ws) = pad4 w @ layout ws"
  by (cases ws) auto

definition block :: "parameter \<Rightarrow> bytes" where
  "block p = (case Parameter_SerializeTo p [] of Value w \<Rightarrow> w | _ \<Rightarrow> [])"

lemma resize_pad4:
  assumes "length d + 3 < 2 ^ 64"
  shows "(if length d mod 4 \<noteq> 0 then resize (unat (RoundUpTo4 (of_nat (length d) :: u64))) d else d)
    = pad4 d"
  using RoundUpTo4_u64[OF assms] round4_bounds(1)[of "length d"]
  by (auto simp: resize_def pad4_def)

lemma Builder_Add_pad4:
  assumes "length d + 3 < 2 ^ 64" "\<And>out. Parameter_SerializeTo p out = Value (out @ block p)"
  shows "Builder_Add d p = Value (pad4 d @ block p)"
  unfolding Builder_Add_def resize_pad4[OF assms(1)] Let_def by (rule assms(2))

lemma block_props:
  assumes "wf_parameter p"
  shows "Parameter_SerializeTo p out = Value (out @ block p)" "tlv_ok (config_of p) (block p)"
    "class_Parse p (block p) = Value p"
  using parameter_serializes[OF assms] by (auto simp: block_def)

lemma layout_mono: "length (layout us) \<le> length (layout (us @ vs))"
proof (induction vs rule: rev_induct)
  case (snoc v vs)
  then show ?case
    using layout_snoc[of "us @ vs" v] round4_bounds(1)[of "length (layout (us @ vs))"] by simp
qed simp

lemma Builder_Add_all_layout:
  assumes "\<forall>p \<in> set ps. wf_parameter p" "length (layout (ws @ map block ps)) + 3 < 2 ^ 64"
  shows "Builder_Add_all (layout ws) ps = Value (layout (ws @ map block ps))"
  using assms
proof (induction ps arbitrary: ws)
  case (Cons p ps)
  have "length (layout ws) + 3 < 2 ^ 64"
    using Cons.prems(2) layout_mono[of ws "map block (p # ps)"] by linarith
  then have "Builder_Add (layout ws) p = Value (layout (ws @ [block p]))"
    using Cons.prems(1) by (simp add: Builder_Add_pad4 block_props layout_snoc)
  with Cons.IH[of "ws @ [block p]"] Cons.prems show ?case by simp
qed simp

definition descriptor :: "parameter \<Rightarrow> ParameterDescriptor" where
  "descriptor p = \<lparr>pd_type = of_nat (kType (config_of p)), pd_data = block p\<rparr>"

lemma block_fields:
  assumes "wf_parameter p"
  shows "4 \<le> length (block p)" "Load16 2 (block p) = of_nat (length (block p))"
    "length (block p) < 65536" "Load16 0 (block p) = of_nat (kType (config_of p))"
proof -
  have t: "tlv_ok (config_of p) (block p)" "config_ok (config_of p)"
    using block_props(2)[OF assms] config_of_ok by auto
  then show "4 \<le> length (block p)" "Load16 2 (block p) = of_nat (length (block p))"
    "length (block p) < 65536"
    by (auto simp: tlv_ok_def config_ok_def kTlvHeaderSize_def)
  have "kTypeSizeInBytes (config_of p) = 2"
    by (cases p) (simp_all add: parameter_config_defs)
  with t(1) show "Load16 0 (block p) = of_nat (kType (config_of p))"
    by (auto simp: tlv_ok_def load_type_def dest: sym)
qed

lemma loops_on_layout:
  assumes "\<forall>p \<in> set ps. wf_parameter p" "length (layout (map block ps)) < 65533"
  shows "descriptors_loop (layout (map block ps)) acc = Some (Value (acc @ map descriptor ps))
       \<and> Parse_loop (layout (map block ps)) = Some (Value ())"
  using assms
proof (induction ps arbitrary: acc)
  case Nil
  show ?case
    by (simp add: Parse_loop.simps descriptors_loop.simps)
next
  case (Cons p ps)
  define span where "span = layout (map block (p # ps))"
  define w where "w = block p"
  have w: "4 \<le> length w" "Load16 2 w = of_nat (length w)" "length w < 65536"
      "Load16 0 w = of_nat (kType (config_of p))"
    using block_fields[of p] Cons.prems(1) by (simp_all add: w_def)
  obtain z where span: "span = w @ z"
    by (cases ps) (auto simp: span_def w_def pad4_def)
  have small: "length span < 65533"
    using Cons.prems(2) by (simp add: span_def)
  have len: "unat (Load16 2 span) = length w" "Load16 0 span = Load16 0 w"
    using w small by (simp_all add: span byte_simps)
  have rounded: "unat (RoundUpTo4 (Load16 2 span)) = round4 (length w)"
    using RoundUpTo4_u16[of "Load16 2 span"] len small by (simp add: span)
  have rest: "round4 (length w) > length span \<and> ps = []
      \<or> round4 (length w) \<le> length span \<and> drop (round4 (length w)) span = layout (map block ps)"
    using round4_bounds(1)[of "length w"]
    by (cases "ps = []") (auto simp: span_def w_def layout_Cons)
  have "length (layout (map block ps)) < 65533"
    using Cons.prems(2) layout_Cons[of "map block ps" "block p"] by (cases ps) auto
  then have IH: "descriptors_loop (layout (map block ps)) (acc @ [descriptor p])
        = Some (Value (acc @ map descriptor (p # ps)))"
      "Parse_loop (layout (map block ps)) = Some (Value ())"
    using Cons.IH[of "acc @ [descriptor p]"] Cons.prems(1) by simp_all
  have span_facts: "span \<noteq> []" "4 \<le> length span" "length w \<le> length span" "take (length w) span = w"
    using w(1) by (auto simp: span)
  have d: "\<lparr>pd_type = Load16 0 span, pd_data = take (unat (Load16 2 span)) span\<rparr> = descriptor p"
    using w(4) span_facts(4) by (simp add: len descriptor_def w_def)
  have "descriptors_loop span acc = Some (Value (acc @ map descriptor (p # ps)))"
    using rest IH(1) span_facts
    by (subst descriptors_loop.simps) (auto simp: kParameterHeaderSize_def Let_def d rounded)
  moreover have "Parse_loop span = Some (Value ())"
    using rest IH(2) span_facts w(1)
    by (subst Parse_loop.simps) (auto simp: kParameterHeaderSize_def Let_def rounded len)
  ultimately show ?case
    by (simp add: span_def)
qed

lemma find_descriptor:
  assumes "\<forall>p \<in> set ps. wf_parameter p"
  shows "find (\<lambda>d. unat (pd_type d) = ty) (map descriptor ps) =
         map_option descriptor (find (\<lambda>p. kType (config_of p) = ty) ps)"
proof -
  have "kType (config_of p) < 65536" for p
    by (cases p) (simp_all add: parameter_config_defs)
  then show ?thesis
    by (induction ps) (auto simp: descriptor_def)
qed


lemma layout_bound: "length (layout ws) \<le> (\<Sum>w\<leftarrow>ws. round4 (length w))"
  using round4_bounds(1) by (induction ws rule: layout.induct) auto

section \<open>Properties\<close>





text \<open>
  C22.  The bound of the previous property is needed: a parameter whose length field is 65533 or
  more, in a buffer that holds it, makes the validation loop run forever, because the padded
  length is computed in 16 bits and wraps to 0.
\<close>

theorem parameters_parse_diverges:
  assumes "65533 \<le> unat (Load16 2 data)" "unat (Load16 2 data) \<le> length data"
  shows "Parameters_Parse data = None"
  using Parse_loop_diverges[OF assms] by (simp add: Parameters_Parse_def)

theorem parameters_parse_diverges_witness:
  "Parameters_Parse ([0, 1, 255, 253] @ replicate 65529 0) = None"
  by (rule parameters_parse_diverges) (simp_all add: raw_access_defs)

end
