(* ===== verification/Chunks.thy ===== *)
theory Chunks
  imports Parameters
begin

text \<open>
  The chunks of \<open>packet/chunk/*.{h,cc}\<close> and the user data record of \<open>packet/data.h\<close>.  The class
  hierarchy below \<open>Chunk\<close> is one datatype with the classes as constructors; a chunk that carries
  a \<open>Parameters\<close> object holds its bytes.  Parsing such a chunk runs the parameter validation
  loop, so its result is optional: \<open>None\<close> would be a parse that does not return.
\<close>

section \<open>Data\<close>

record Data =
  d_stream_id :: u16
  d_ssn :: u16
  d_mid :: u32
  d_fsn :: u32
  d_ppid :: u32
  d_payload :: bytes
  d_is_beginning :: bool
  d_is_end :: bool
  d_is_unordered :: bool

record GapAckBlock =
  gab_start :: u16
  gab_end :: u16

record SkippedStream =
  sk_stream_id :: u16
  sk_ssn :: u16
  sk_unordered :: bool
  sk_mid :: u32

datatype chunk =
    DataChunk u32 Data bool
  | InitChunk u32 u32 u16 u16 u32 bytes
  | InitAckChunk u32 u32 u16 u16 u32 bytes
  | SackChunk u32 u32 "GapAckBlock list" "u32 list"
  | HeartbeatRequestChunk bytes
  | HeartbeatAckChunk bytes
  | AbortChunk bool bytes
  | ShutdownChunk u32
  | ShutdownAckChunk
  | ErrorChunk bytes
  | CookieEchoChunk bytes
  | CookieAckChunk
  | ShutdownCompleteChunk bool
  | IDataChunk u32 Data bool
  | ReConfigChunk bytes
  | ForwardTsnChunk u32 "SkippedStream list"
  | IForwardTsnChunk u32 "SkippedStream list"

definition ChunkConfig :: "nat \<Rightarrow> nat \<Rightarrow> nat \<Rightarrow> tlv_config" where
  "ChunkConfig ty header align =
     \<lparr>kType = ty, kTypeSizeInBytes = 1, kHeaderSize = header, kVariableLengthAlignment = align\<rparr>"

text \<open>Bits of the flags byte.\<close>

definition flag :: "nat \<Rightarrow> bool \<Rightarrow> u8" where
  "flag k b = (if b then push_bit k 1 else 0)"

definition has_flag :: "nat \<Rightarrow> u8 \<Rightarrow> bool" where
  "has_flag k flags = (flags AND push_bit k 1 \<noteq> 0)"

definition kFlagsBitEnd :: nat where "kFlagsBitEnd = 0"
definition kFlagsBitBeginning :: nat where "kFlagsBitBeginning = 1"
definition kFlagsBitUnordered :: nat where "kFlagsBitUnordered = 2"
definition kFlagsBitImmediateAck :: nat where "kFlagsBitImmediateAck = 3"
definition kFlagsBitT :: nat where "kFlagsBitT = 0"

text \<open>Sequencing a returned reader with a parse that runs the validation loop.\<close>

definition bind_returns :: "'a outcome \<Rightarrow> ('a \<Rightarrow> 'b outcome option) \<Rightarrow> 'b outcome option" where
  "bind_returns m f = (case m of Abort \<Rightarrow> Some Abort | Nullopt \<Rightarrow> Some Nullopt | Value x \<Rightarrow> f x)"

section \<open>DATA and I-DATA\<close>

definition data_flags :: "Data \<Rightarrow> bool \<Rightarrow> u8" where
  "data_flags d immediate_ack =
     flag kFlagsBitEnd (d_is_end d) OR flag kFlagsBitBeginning (d_is_beginning d)
     OR flag kFlagsBitUnordered (d_is_unordered d) OR flag kFlagsBitImmediateAck immediate_ack"

definition DataChunk_config :: tlv_config where
  "DataChunk_config = ChunkConfig 0 16 1"

definition DataChunk_Parse :: "bytes \<Rightarrow> chunk outcome" where
  "DataChunk_Parse data =
     bind_outcome (ParseTLV DataChunk_config data) (\<lambda>reader.
       let flags = Load8 1 reader in
       Value (DataChunk (Load32 4 reader)
         \<lparr>d_stream_id = Load16 8 reader, d_ssn = Load16 10 reader, d_mid = 0, d_fsn = 0,
          d_ppid = Load32 12 reader, d_payload = variable_data 16 reader,
          d_is_beginning = has_flag kFlagsBitBeginning flags, d_is_end = has_flag kFlagsBitEnd flags,
          d_is_unordered = has_flag kFlagsBitUnordered flags\<rparr>
         (has_flag kFlagsBitImmediateAck flags)))"

definition DataChunk_SerializeTo :: "u32 \<Rightarrow> Data \<Rightarrow> bool \<Rightarrow> bytes \<Rightarrow> bytes outcome" where
  "DataChunk_SerializeTo tsn d immediate_ack out =
     bind_outcome (AllocateTLV DataChunk_config (length (d_payload d))) (\<lambda>writer.
       Value (out @ CopyToVariableData 16 (d_payload d)
         (Store32 12 (d_ppid d) (Store16 10 (d_ssn d) (Store16 8 (d_stream_id d)
           (Store32 4 tsn (Store8 1 (data_flags d immediate_ack) writer)))))))"

definition IDataChunk_config :: tlv_config where
  "IDataChunk_config = ChunkConfig 64 20 1"

definition IDataChunk_Parse :: "bytes \<Rightarrow> chunk outcome" where
  "IDataChunk_Parse data =
     bind_outcome (ParseTLV IDataChunk_config data) (\<lambda>reader.
       let flags = Load8 1 reader;
           ppid_or_fsn = Load32 16 reader;
           is_beginning = has_flag kFlagsBitBeginning flags in
       Value (IDataChunk (Load32 4 reader)
         \<lparr>d_stream_id = Load16 8 reader, d_ssn = 0, d_mid = Load32 12 reader,
          d_fsn = (if is_beginning then 0 else ppid_or_fsn),
          d_ppid = (if is_beginning then ppid_or_fsn else 0),
          d_payload = variable_data 20 reader,
          d_is_beginning = is_beginning, d_is_end = has_flag kFlagsBitEnd flags,
          d_is_unordered = has_flag kFlagsBitUnordered flags\<rparr>
         (has_flag kFlagsBitImmediateAck flags)))"

definition IDataChunk_SerializeTo :: "u32 \<Rightarrow> Data \<Rightarrow> bool \<Rightarrow> bytes \<Rightarrow> bytes outcome" where
  "IDataChunk_SerializeTo tsn d immediate_ack out =
     bind_outcome (AllocateTLV IDataChunk_config (length (d_payload d))) (\<lambda>writer.
       Value (out @ CopyToVariableData 20 (d_payload d)
         (Store32 16 (if d_is_beginning d then d_ppid d else d_fsn d) (Store32 12 (d_mid d)
           (Store16 8 (d_stream_id d)
             (Store32 4 tsn (Store8 1 (data_flags d immediate_ack) writer)))))))"

section \<open>InitChunk\<close>

definition InitChunk_config :: tlv_config where
  "InitChunk_config = ChunkConfig 1 20 1"

definition InitChunk_Parse :: "bytes \<Rightarrow> chunk outcome option" where
  "InitChunk_Parse data =
     bind_returns (ParseTLV InitChunk_config data) (\<lambda>reader.
       map_option (\<lambda>r. bind_outcome r (\<lambda>parameters.
         Value (InitChunk (Load32 4 reader) (Load32 8 reader) (Load16 12 reader) (Load16 14 reader)
                  (Load32 16 reader) parameters)))
         (Parameters_Parse (variable_data 20 reader)))"

definition InitChunk_SerializeTo :: "u32 \<Rightarrow> u32 \<Rightarrow> u16 \<Rightarrow> u16 \<Rightarrow> u32 \<Rightarrow> bytes \<Rightarrow> bytes \<Rightarrow> bytes outcome" where
  "InitChunk_SerializeTo initiate_tag a_rwnd nbr_outbound nbr_inbound initial_tsn parameters out =
     bind_outcome (AllocateTLV InitChunk_config (length parameters)) (\<lambda>writer.
       Value (out @ CopyToVariableData 20 parameters
         (Store32 16 initial_tsn (Store16 14 nbr_inbound (Store16 12 nbr_outbound
           (Store32 8 a_rwnd (Store32 4 initiate_tag writer)))))))"

section \<open>InitAckChunk\<close>

definition InitAckChunk_config :: tlv_config where
  "InitAckChunk_config = ChunkConfig 2 20 1"

definition InitAckChunk_Parse :: "bytes \<Rightarrow> chunk outcome option" where
  "InitAckChunk_Parse data =
     bind_returns (ParseTLV InitAckChunk_config data) (\<lambda>reader.
       map_option (\<lambda>r. bind_outcome r (\<lambda>parameters.
         Value (InitAckChunk (Load32 4 reader) (Load32 8 reader) (Load16 12 reader) (Load16 14 reader)
                  (Load32 16 reader) parameters)))
         (Parameters_Parse (variable_data 20 reader)))"

definition InitAckChunk_SerializeTo :: "u32 \<Rightarrow> u32 \<Rightarrow> u16 \<Rightarrow> u16 \<Rightarrow> u32 \<Rightarrow> bytes \<Rightarrow> bytes \<Rightarrow> bytes outcome" where
  "InitAckChunk_SerializeTo initiate_tag a_rwnd nbr_outbound nbr_inbound initial_tsn parameters out =
     bind_outcome (AllocateTLV InitAckChunk_config (length parameters)) (\<lambda>writer.
       Value (out @ CopyToVariableData 20 parameters
         (Store32 16 initial_tsn (Store16 14 nbr_inbound (Store16 12 nbr_outbound
           (Store32 8 a_rwnd (Store32 4 initiate_tag writer)))))))"

section \<open>SackChunk\<close>

definition SackChunk_config :: tlv_config where
  "SackChunk_config = ChunkConfig 3 16 4"

definition load_gap_block :: "bytes \<Rightarrow> GapAckBlock" where
  "load_gap_block r = \<lparr>gab_start = Load16 0 r, gab_end = Load16 2 r\<rparr>"

definition store_gap_block :: "GapAckBlock \<Rightarrow> bytes \<Rightarrow> bytes" where
  "store_gap_block b w = Store16 2 (gab_end b) (Store16 0 (gab_start b) w)"

definition load_u32 :: "bytes \<Rightarrow> u32" where
  "load_u32 r = Load32 0 r"

definition store_u32 :: "u32 \<Rightarrow> bytes \<Rightarrow> bytes" where
  "store_u32 v w = Store32 0 v w"

definition SackChunk_Parse :: "bytes \<Rightarrow> chunk outcome" where
  "SackChunk_Parse data =
     bind_outcome (ParseTLV SackChunk_config data) (\<lambda>reader.
       let nbr_of_gap_blocks = unat (Load16 12 reader);
           nbr_of_dup_tsns = unat (Load16 14 reader) in
       if variable_data_size 16 reader \<noteq> nbr_of_gap_blocks * 4 + nbr_of_dup_tsns * 4 then Nullopt
       else bind_outcome (read_array 16 4 load_gap_block 0 nbr_of_gap_blocks reader) (\<lambda>gap_ack_blocks.
         bind_outcome (read_array 16 4 load_u32 (nbr_of_gap_blocks * 4) nbr_of_dup_tsns reader) (\<lambda>dups.
           Value (SackChunk (Load32 4 reader) (Load32 8 reader) gap_ack_blocks (sset_of dups)))))"

definition SackChunk_SerializeTo ::
  "u32 \<Rightarrow> u32 \<Rightarrow> GapAckBlock list \<Rightarrow> u32 list \<Rightarrow> bytes \<Rightarrow> bytes outcome" where
  "SackChunk_SerializeTo cumulative_tsn_ack a_rwnd gap_ack_blocks duplicate_tsns out =
     (let nbr_of_gap_blocks = length gap_ack_blocks; nbr_of_dup_tsns = length duplicate_tsns in
      bind_outcome (AllocateTLV SackChunk_config (nbr_of_gap_blocks * 4 + nbr_of_dup_tsns * 4)) (\<lambda>writer.
      bind_outcome (write_array 16 4 store_gap_block 0 gap_ack_blocks
        (Store16 14 (of_nat nbr_of_dup_tsns) (Store16 12 (of_nat nbr_of_gap_blocks)
          (Store32 8 a_rwnd (Store32 4 cumulative_tsn_ack writer))))) (\<lambda>writer.
      bind_outcome (write_array 16 4 store_u32 (nbr_of_gap_blocks * 4) duplicate_tsns writer) (\<lambda>writer.
        Value (out @ writer)))))"

section \<open>HeartbeatRequestChunk\<close>

definition HeartbeatRequestChunk_config :: tlv_config where
  "HeartbeatRequestChunk_config = ChunkConfig 4 4 1"

definition HeartbeatRequestChunk_Parse :: "bytes \<Rightarrow> chunk outcome option" where
  "HeartbeatRequestChunk_Parse data =
     bind_returns (ParseTLV HeartbeatRequestChunk_config data) (\<lambda>reader.
       map_option (\<lambda>r. bind_outcome r (\<lambda>parameters. Value (HeartbeatRequestChunk parameters)))
         (Parameters_Parse (variable_data 4 reader)))"

definition HeartbeatRequestChunk_SerializeTo :: "bytes \<Rightarrow> bytes \<Rightarrow> bytes outcome" where
  "HeartbeatRequestChunk_SerializeTo parameters out =
     bind_outcome (AllocateTLV HeartbeatRequestChunk_config (length parameters)) (\<lambda>writer.
       Value (out @ CopyToVariableData 4 parameters writer))"

section \<open>HeartbeatAckChunk\<close>

definition HeartbeatAckChunk_config :: tlv_config where
  "HeartbeatAckChunk_config = ChunkConfig 5 4 1"

definition HeartbeatAckChunk_Parse :: "bytes \<Rightarrow> chunk outcome option" where
  "HeartbeatAckChunk_Parse data =
     bind_returns (ParseTLV HeartbeatAckChunk_config data) (\<lambda>reader.
       map_option (\<lambda>r. bind_outcome r (\<lambda>parameters. Value (HeartbeatAckChunk parameters)))
         (Parameters_Parse (variable_data 4 reader)))"

definition HeartbeatAckChunk_SerializeTo :: "bytes \<Rightarrow> bytes \<Rightarrow> bytes outcome" where
  "HeartbeatAckChunk_SerializeTo parameters out =
     bind_outcome (AllocateTLV HeartbeatAckChunk_config (length parameters)) (\<lambda>writer.
       Value (out @ CopyToVariableData 4 parameters writer))"

section \<open>AbortChunk\<close>

definition AbortChunk_config :: tlv_config where
  "AbortChunk_config = ChunkConfig 6 4 1"

definition AbortChunk_Parse :: "bytes \<Rightarrow> chunk outcome option" where
  "AbortChunk_Parse data =
     bind_returns (ParseTLV AbortChunk_config data) (\<lambda>reader.
       map_option (\<lambda>r. bind_outcome r (\<lambda>error_causes.
         Value (AbortChunk (\<not> has_flag kFlagsBitT (Load8 1 reader)) error_causes)))
         (Parameters_Parse (variable_data 4 reader)))"

definition AbortChunk_SerializeTo :: "bool \<Rightarrow> bytes \<Rightarrow> bytes \<Rightarrow> bytes outcome" where
  "AbortChunk_SerializeTo filled_in_verification_tag error_causes out =
     bind_outcome (AllocateTLV AbortChunk_config (length error_causes)) (\<lambda>writer.
       Value (out @ CopyToVariableData 4 error_causes
         (Store8 1 (if filled_in_verification_tag then 0 else push_bit kFlagsBitT 1) writer)))"

section \<open>ShutdownChunk\<close>

definition ShutdownChunk_config :: tlv_config where
  "ShutdownChunk_config = ChunkConfig 7 8 0"

definition ShutdownChunk_Parse :: "bytes \<Rightarrow> chunk outcome" where
  "ShutdownChunk_Parse data =
     bind_outcome (ParseTLV ShutdownChunk_config data) (\<lambda>reader.
       Value (ShutdownChunk (Load32 4 reader)))"

definition ShutdownChunk_SerializeTo :: "u32 \<Rightarrow> bytes \<Rightarrow> bytes outcome" where
  "ShutdownChunk_SerializeTo cumulative_tsn_ack out =
     bind_outcome (AllocateTLV ShutdownChunk_config 0) (\<lambda>writer.
       Value (out @ Store32 4 cumulative_tsn_ack writer))"

section \<open>ShutdownAckChunk\<close>

definition ShutdownAckChunk_config :: tlv_config where
  "ShutdownAckChunk_config = ChunkConfig 8 4 0"

definition ShutdownAckChunk_Parse :: "bytes \<Rightarrow> chunk outcome" where
  "ShutdownAckChunk_Parse data = bind_outcome (ParseTLV ShutdownAckChunk_config data) (\<lambda>_. Value ShutdownAckChunk)"

definition ShutdownAckChunk_SerializeTo :: "bytes \<Rightarrow> bytes outcome" where
  "ShutdownAckChunk_SerializeTo out = bind_outcome (AllocateTLV ShutdownAckChunk_config 0) (\<lambda>writer. Value (out @ writer))"

section \<open>ErrorChunk\<close>

definition ErrorChunk_config :: tlv_config where
  "ErrorChunk_config = ChunkConfig 9 4 4"

definition ErrorChunk_Parse :: "bytes \<Rightarrow> chunk outcome option" where
  "ErrorChunk_Parse data =
     bind_returns (ParseTLV ErrorChunk_config data) (\<lambda>reader.
       map_option (\<lambda>r. bind_outcome r (\<lambda>parameters. Value (ErrorChunk parameters)))
         (Parameters_Parse (variable_data 4 reader)))"

definition ErrorChunk_SerializeTo :: "bytes \<Rightarrow> bytes \<Rightarrow> bytes outcome" where
  "ErrorChunk_SerializeTo parameters out =
     bind_outcome (AllocateTLV ErrorChunk_config (length parameters)) (\<lambda>writer.
       Value (out @ CopyToVariableData 4 parameters writer))"

section \<open>CookieEchoChunk\<close>

definition CookieEchoChunk_config :: tlv_config where
  "CookieEchoChunk_config = ChunkConfig 10 4 1"

definition CookieEchoChunk_Parse :: "bytes \<Rightarrow> chunk outcome" where
  "CookieEchoChunk_Parse data =
     bind_outcome (ParseTLV CookieEchoChunk_config data) (\<lambda>reader.
       Value (CookieEchoChunk (variable_data 4 reader)))"

definition CookieEchoChunk_SerializeTo :: "bytes \<Rightarrow> bytes \<Rightarrow> bytes outcome" where
  "CookieEchoChunk_SerializeTo cookie out =
     bind_outcome (AllocateTLV CookieEchoChunk_config (length cookie)) (\<lambda>writer.
       Value (out @ CopyToVariableData 4 cookie writer))"

section \<open>CookieAckChunk\<close>

definition CookieAckChunk_config :: tlv_config where
  "CookieAckChunk_config = ChunkConfig 11 4 0"

definition CookieAckChunk_Parse :: "bytes \<Rightarrow> chunk outcome" where
  "CookieAckChunk_Parse data = bind_outcome (ParseTLV CookieAckChunk_config data) (\<lambda>_. Value CookieAckChunk)"

definition CookieAckChunk_SerializeTo :: "bytes \<Rightarrow> bytes outcome" where
  "CookieAckChunk_SerializeTo out = bind_outcome (AllocateTLV CookieAckChunk_config 0) (\<lambda>writer. Value (out @ writer))"

section \<open>ShutdownCompleteChunk\<close>

definition ShutdownCompleteChunk_config :: tlv_config where
  "ShutdownCompleteChunk_config = ChunkConfig 14 4 0"

definition ShutdownCompleteChunk_Parse :: "bytes \<Rightarrow> chunk outcome" where
  "ShutdownCompleteChunk_Parse data =
     bind_outcome (ParseTLV ShutdownCompleteChunk_config data) (\<lambda>reader.
       Value (ShutdownCompleteChunk (has_flag kFlagsBitT (Load8 1 reader))))"

definition ShutdownCompleteChunk_SerializeTo :: "bool \<Rightarrow> bytes \<Rightarrow> bytes outcome" where
  "ShutdownCompleteChunk_SerializeTo tag_reflected out =
     bind_outcome (AllocateTLV ShutdownCompleteChunk_config 0) (\<lambda>writer.
       Value (out @ Store8 1 (if tag_reflected then push_bit kFlagsBitT 1 else 0) writer))"

section \<open>ReConfigChunk\<close>

definition ReConfigChunk_config :: tlv_config where
  "ReConfigChunk_config = ChunkConfig 130 4 1"

definition ReConfigChunk_Parse :: "bytes \<Rightarrow> chunk outcome option" where
  "ReConfigChunk_Parse data =
     bind_returns (ParseTLV ReConfigChunk_config data) (\<lambda>reader.
       map_option (\<lambda>r. bind_outcome r (\<lambda>parameters. Value (ReConfigChunk parameters)))
         (Parameters_Parse (variable_data 4 reader)))"

definition ReConfigChunk_SerializeTo :: "bytes \<Rightarrow> bytes \<Rightarrow> bytes outcome" where
  "ReConfigChunk_SerializeTo parameters out =
     bind_outcome (AllocateTLV ReConfigChunk_config (length parameters)) (\<lambda>writer.
       Value (out @ CopyToVariableData 4 parameters writer))"

section \<open>FORWARD-TSN and I-FORWARD-TSN\<close>

definition ForwardTsnChunk_config :: tlv_config where
  "ForwardTsnChunk_config = ChunkConfig 192 8 4"

definition load_skipped_ssn :: "bytes \<Rightarrow> SkippedStream" where
  "load_skipped_ssn r =
     \<lparr>sk_stream_id = Load16 0 r, sk_ssn = Load16 2 r, sk_unordered = False, sk_mid = 0\<rparr>"

definition store_skipped_ssn :: "SkippedStream \<Rightarrow> bytes \<Rightarrow> bytes" where
  "store_skipped_ssn s w = Store16 2 (sk_ssn s) (Store16 0 (sk_stream_id s) w)"

definition ForwardTsnChunk_Parse :: "bytes \<Rightarrow> chunk outcome" where
  "ForwardTsnChunk_Parse data =
     bind_outcome (ParseTLV ForwardTsnChunk_config data) (\<lambda>reader.
       let streams_skipped = variable_data_size 8 reader div 4 in
       bind_outcome (read_array 8 4 load_skipped_ssn 0 streams_skipped reader) (\<lambda>skipped_streams.
         Value (ForwardTsnChunk (Load32 4 reader) skipped_streams)))"

definition ForwardTsnChunk_SerializeTo :: "u32 \<Rightarrow> SkippedStream list \<Rightarrow> bytes \<Rightarrow> bytes outcome" where
  "ForwardTsnChunk_SerializeTo new_cumulative_tsn skipped out =
     bind_outcome (AllocateTLV ForwardTsnChunk_config (length skipped * 4)) (\<lambda>writer.
     bind_outcome (write_array 8 4 store_skipped_ssn 0 skipped (Store32 4 new_cumulative_tsn writer)) (\<lambda>writer.
       Value (out @ writer)))"

definition IForwardTsnChunk_config :: tlv_config where
  "IForwardTsnChunk_config = ChunkConfig 194 8 8"

definition load_skipped_mid :: "bytes \<Rightarrow> SkippedStream" where
  "load_skipped_mid r =
     \<lparr>sk_stream_id = Load16 0 r, sk_ssn = 0, sk_unordered = (Load8 3 r AND 1 \<noteq> 0), sk_mid = Load32 4 r\<rparr>"

definition store_skipped_mid :: "SkippedStream \<Rightarrow> bytes \<Rightarrow> bytes" where
  "store_skipped_mid s w =
     Store32 4 (sk_mid s) (Store8 3 (if sk_unordered s then 1 else 0) (Store16 0 (sk_stream_id s) w))"

definition IForwardTsnChunk_Parse :: "bytes \<Rightarrow> chunk outcome" where
  "IForwardTsnChunk_Parse data =
     bind_outcome (ParseTLV IForwardTsnChunk_config data) (\<lambda>reader.
       let streams_skipped = variable_data_size 8 reader div 8 in
       bind_outcome (read_array 8 8 load_skipped_mid 0 streams_skipped reader) (\<lambda>skipped_streams.
         Value (IForwardTsnChunk (Load32 4 reader) skipped_streams)))"

definition IForwardTsnChunk_SerializeTo :: "u32 \<Rightarrow> SkippedStream list \<Rightarrow> bytes \<Rightarrow> bytes outcome" where
  "IForwardTsnChunk_SerializeTo new_cumulative_tsn skipped out =
     bind_outcome (AllocateTLV IForwardTsnChunk_config (length skipped * 8)) (\<lambda>writer.
     bind_outcome (write_array 8 8 store_skipped_mid 0 skipped (Store32 4 new_cumulative_tsn writer)) (\<lambda>writer.
       Value (out @ writer)))"

section \<open>Virtual dispatch\<close>

primrec Chunk_SerializeTo :: "chunk \<Rightarrow> bytes \<Rightarrow> bytes outcome" where
  "Chunk_SerializeTo (DataChunk a b c) = DataChunk_SerializeTo a b c"
| "Chunk_SerializeTo (InitChunk a b c d e f) = InitChunk_SerializeTo a b c d e f"
| "Chunk_SerializeTo (InitAckChunk a b c d e f) = InitAckChunk_SerializeTo a b c d e f"
| "Chunk_SerializeTo (SackChunk a b c d) = SackChunk_SerializeTo a b c d"
| "Chunk_SerializeTo (HeartbeatRequestChunk a) = HeartbeatRequestChunk_SerializeTo a"
| "Chunk_SerializeTo (HeartbeatAckChunk a) = HeartbeatAckChunk_SerializeTo a"
| "Chunk_SerializeTo (AbortChunk a b) = AbortChunk_SerializeTo a b"
| "Chunk_SerializeTo (ShutdownChunk a) = ShutdownChunk_SerializeTo a"
| "Chunk_SerializeTo ShutdownAckChunk = ShutdownAckChunk_SerializeTo"
| "Chunk_SerializeTo (ErrorChunk a) = ErrorChunk_SerializeTo a"
| "Chunk_SerializeTo (CookieEchoChunk a) = CookieEchoChunk_SerializeTo a"
| "Chunk_SerializeTo CookieAckChunk = CookieAckChunk_SerializeTo"
| "Chunk_SerializeTo (ShutdownCompleteChunk a) = ShutdownCompleteChunk_SerializeTo a"
| "Chunk_SerializeTo (IDataChunk a b c) = IDataChunk_SerializeTo a b c"
| "Chunk_SerializeTo (ReConfigChunk a) = ReConfigChunk_SerializeTo a"
| "Chunk_SerializeTo (ForwardTsnChunk a b) = ForwardTsnChunk_SerializeTo a b"
| "Chunk_SerializeTo (IForwardTsnChunk a b) = IForwardTsnChunk_SerializeTo a b"

text \<open>The configuration and the static \<open>Parse\<close> of the class of a chunk.\<close>

primrec chunk_config :: "chunk \<Rightarrow> tlv_config" where
  "chunk_config (DataChunk a b c) = DataChunk_config"
| "chunk_config (InitChunk a b c d e f) = InitChunk_config"
| "chunk_config (InitAckChunk a b c d e f) = InitAckChunk_config"
| "chunk_config (SackChunk a b c d) = SackChunk_config"
| "chunk_config (HeartbeatRequestChunk a) = HeartbeatRequestChunk_config"
| "chunk_config (HeartbeatAckChunk a) = HeartbeatAckChunk_config"
| "chunk_config (AbortChunk a b) = AbortChunk_config"
| "chunk_config (ShutdownChunk a) = ShutdownChunk_config"
| "chunk_config ShutdownAckChunk = ShutdownAckChunk_config"
| "chunk_config (ErrorChunk a) = ErrorChunk_config"
| "chunk_config (CookieEchoChunk a) = CookieEchoChunk_config"
| "chunk_config CookieAckChunk = CookieAckChunk_config"
| "chunk_config (ShutdownCompleteChunk a) = ShutdownCompleteChunk_config"
| "chunk_config (IDataChunk a b c) = IDataChunk_config"
| "chunk_config (ReConfigChunk a) = ReConfigChunk_config"
| "chunk_config (ForwardTsnChunk a b) = ForwardTsnChunk_config"
| "chunk_config (IForwardTsnChunk a b) = IForwardTsnChunk_config"

primrec chunk_Parse :: "chunk \<Rightarrow> bytes \<Rightarrow> chunk outcome option" where
  "chunk_Parse (DataChunk a b c) = (\<lambda>data. Some (DataChunk_Parse data))"
| "chunk_Parse (InitChunk a b c d e f) = InitChunk_Parse"
| "chunk_Parse (InitAckChunk a b c d e f) = InitAckChunk_Parse"
| "chunk_Parse (SackChunk a b c d) = (\<lambda>data. Some (SackChunk_Parse data))"
| "chunk_Parse (HeartbeatRequestChunk a) = HeartbeatRequestChunk_Parse"
| "chunk_Parse (HeartbeatAckChunk a) = HeartbeatAckChunk_Parse"
| "chunk_Parse (AbortChunk a b) = AbortChunk_Parse"
| "chunk_Parse (ShutdownChunk a) = (\<lambda>data. Some (ShutdownChunk_Parse data))"
| "chunk_Parse ShutdownAckChunk = (\<lambda>data. Some (ShutdownAckChunk_Parse data))"
| "chunk_Parse (ErrorChunk a) = ErrorChunk_Parse"
| "chunk_Parse (CookieEchoChunk a) = (\<lambda>data. Some (CookieEchoChunk_Parse data))"
| "chunk_Parse CookieAckChunk = (\<lambda>data. Some (CookieAckChunk_Parse data))"
| "chunk_Parse (ShutdownCompleteChunk a) = (\<lambda>data. Some (ShutdownCompleteChunk_Parse data))"
| "chunk_Parse (IDataChunk a b c) = (\<lambda>data. Some (IDataChunk_Parse data))"
| "chunk_Parse (ReConfigChunk a) = ReConfigChunk_Parse"
| "chunk_Parse (ForwardTsnChunk a b) = (\<lambda>data. Some (ForwardTsnChunk_Parse data))"
| "chunk_Parse (IForwardTsnChunk a b) = (\<lambda>data. Some (IForwardTsnChunk_Parse data))"

end
