(* ===== verification/Chunk_Codecs.thy ===== *)
theory Chunk_Codecs
  imports Chunks
begin

text \<open>
  Every chunk class is an instance of \<open>tlv_codec\<close>: encoding followed by decoding is the identity
  on the values the wire format can carry, and decoding arbitrary bytes always returns and never
  fails an \<open>RTC_CHECK\<close>.
\<close>

section \<open>Values the format can carry\<close>

definition params_carried :: "bytes \<Rightarrow> bool" where
  "params_carried ps = (Parameters_Parse ps = Some (Value ps))"

text \<open>
  DATA has no message id and fragment number, I-DATA has no stream sequence number and shares one
  field between the payload protocol (first fragment) and the fragment number (the others);
  FORWARD-TSN and I-FORWARD-TSN carry the stream sequence number or the message id.
\<close>

fun wf_chunk :: "chunk \<Rightarrow> bool" where
  "wf_chunk (DataChunk tsn d ia) = (16 + length (d_payload d) < 65536 \<and> d_mid d = 0 \<and> d_fsn d = 0)"
| "wf_chunk (IDataChunk tsn d ia) =
     (20 + length (d_payload d) < 65536 \<and> d_ssn d = 0
      \<and> (if d_is_beginning d then d_fsn d = 0 else d_ppid d = 0))"
| "wf_chunk (InitChunk a b c d e ps) = (20 + length ps < 65536 \<and> params_carried ps)"
| "wf_chunk (InitAckChunk a b c d e ps) = (20 + length ps < 65536 \<and> params_carried ps)"
| "wf_chunk (SackChunk a b gaps dups) =
     (16 + length gaps * 4 + length dups * 4 < 65536 \<and> sorted_wrt (<) dups)"
| "wf_chunk (HeartbeatRequestChunk ps) = (4 + length ps < 65536 \<and> params_carried ps)"
| "wf_chunk (HeartbeatAckChunk ps) = (4 + length ps < 65536 \<and> params_carried ps)"
| "wf_chunk (AbortChunk b ps) = (4 + length ps < 65536 \<and> params_carried ps)"
| "wf_chunk (ErrorChunk ps) = (4 + length ps < 65536 \<and> params_carried ps \<and> length ps mod 4 = 0)"
| "wf_chunk (CookieEchoChunk v) = (4 + length v < 65536)"
| "wf_chunk (ReConfigChunk ps) = (4 + length ps < 65536 \<and> params_carried ps)"
| "wf_chunk (ForwardTsnChunk t sk) =
     (8 + length sk * 4 < 65536 \<and> (\<forall>s \<in> set sk. \<not> sk_unordered s \<and> sk_mid s = 0))"
| "wf_chunk (IForwardTsnChunk t sk) = (8 + length sk * 8 < 65536 \<and> (\<forall>s \<in> set sk. sk_ssn s = 0))"
| "wf_chunk _ = True"

definition chunk_of :: "tlv_config \<Rightarrow> chunk \<Rightarrow> bool" where
  "chunk_of cfg c = (wf_chunk c \<and> chunk_config c = cfg)"

text \<open>Not returning counts as a failure.\<close>

definition returned :: "'a outcome option \<Rightarrow> 'a outcome" where
  "returned r = (case r of None \<Rightarrow> Abort | Some x \<Rightarrow> x)"

section \<open>Instances\<close>

lemma ChunkConfig_simps [simp]:
  "kType (ChunkConfig t h a) = t" "kTypeSizeInBytes (ChunkConfig t h a) = 1"
  "kHeaderSize (ChunkConfig t h a) = h" "kVariableLengthAlignment (ChunkConfig t h a) = a"
  "(ChunkConfig t h a = ChunkConfig t' h' a') = (t = t' \<and> h = h' \<and> a = a')"
  by (auto simp: ChunkConfig_def)

lemma returned_Some [simp]: "returned (Some r) = r"
  by (simp add: returned_def)

lemma returned_Parameters_Parse [simp]:
  "length ps < 65533 \<Longrightarrow> returned (Parameters_Parse ps) \<noteq> Abort"
  using Parse_loop_returns[of ps] by (auto simp: Parameters_Parse_def)

lemma returned_params_carried [simp]: "params_carried ps \<Longrightarrow> returned (Parameters_Parse ps) = Value ps"
  by (simp add: params_carried_def)

lemma returned_bind [simp]:
  "returned (bind_returns m f) = bind_outcome m (\<lambda>x. returned (f x))"
  by (cases m) (auto simp: bind_returns_def)

lemma returned_map [simp]:
  "returned (map_option (\<lambda>r. bind_outcome r g) x) = bind_outcome (returned x) g"
  by (cases x) (auto simp: returned_def)

interpretation gap_element: element_codec 4 load_gap_block store_gap_block "\<lambda>_. True"
  by unfold_locales (simp_all add: load_gap_block_def store_gap_block_def byte_simps)

interpretation tsn_element: element_codec 4 load_u32 store_u32 "\<lambda>_. True"
  by unfold_locales (simp_all add: load_u32_def store_u32_def byte_simps)

interpretation skipped_ssn_element: element_codec 4 load_skipped_ssn store_skipped_ssn
  "\<lambda>s. \<not> sk_unordered s \<and> sk_mid s = 0"
  by unfold_locales (simp_all add: load_skipped_ssn_def store_skipped_ssn_def byte_simps)

interpretation skipped_mid_element: element_codec 8 load_skipped_mid store_skipped_mid
  "\<lambda>s. sk_ssn s = 0"
  by unfold_locales (simp_all add: load_skipped_mid_def store_skipped_mid_def byte_simps)

lemmas flag_defs =
  data_flags_def flag_def has_flag_def kFlagsBitEnd_def kFlagsBitBeginning_def kFlagsBitUnordered_def
  kFlagsBitImmediateAck_def kFlagsBitT_def

lemma has_flag_data_flags [simp]:
  "has_flag kFlagsBitEnd (data_flags d i) = d_is_end d"
  "has_flag kFlagsBitBeginning (data_flags d i) = d_is_beginning d"
  "has_flag kFlagsBitUnordered (data_flags d i) = d_is_unordered d"
  "has_flag kFlagsBitImmediateAck (data_flags d i) = i"
  by (simp_all add: flag_defs)

lemma has_flag_T [simp]: "has_flag kFlagsBitT (2 ^ kFlagsBitT)" "\<not> has_flag kFlagsBitT 0"
  by (simp_all add: flag_defs)

lemmas chunk_config_defs =
  DataChunk_config_def InitChunk_config_def InitAckChunk_config_def
  SackChunk_config_def HeartbeatRequestChunk_config_def HeartbeatAckChunk_config_def
  AbortChunk_config_def ShutdownChunk_config_def ShutdownAckChunk_config_def
  ErrorChunk_config_def CookieEchoChunk_config_def CookieAckChunk_config_def
  ShutdownCompleteChunk_config_def IDataChunk_config_def ReConfigChunk_config_def
  ForwardTsnChunk_config_def IForwardTsnChunk_config_def

lemmas chunk_codec_simps =
  variable_data_size_def tlv_ok_def load_type_def byte_simps chunk_config_defs
  config_ok_def kTlvHeaderSize_def gap_element.array_simps tsn_element.array_simps
  skipped_ssn_element.array_simps skipped_mid_element.array_simps

text \<open>The classes whose variable part is a parameter list.\<close>

lemma param_chunk_codecI:
  assumes "config_ok cfg"
    and Parse: "\<And>d. Parse d = bind_returns (ParseTLV cfg d) (\<lambda>r.
        map_option (\<lambda>x. bind_outcome x (g r)) (Parameters_Parse (variable_data h r)))"
    and "\<And>c. valid c \<Longrightarrow> \<exists>w. (\<forall>out. SerializeTo c out = Value (out @ w)) \<and> tlv_ok cfg w
        \<and> bind_outcome (returned (Parameters_Parse (variable_data h w))) (g w) = Value c"
    and "4 \<le> h" and "\<And>w ps. g w ps \<noteq> Abort"
  shows "tlv_codec cfg (\<lambda>d. returned (Parse d)) SerializeTo valid"
proof (rule tlv_codecI[where f = "\<lambda>r. bind_outcome (returned (Parameters_Parse (variable_data h r))) (g r)"])
  show "returned (Parse d) = bind_outcome (ParseTLV cfg d)
      (\<lambda>r. bind_outcome (returned (Parameters_Parse (variable_data h r))) (g r))" for d
    by (simp add: Parse)
  show "bind_outcome (returned (Parameters_Parse (variable_data h w))) (g w) \<noteq> Abort"
    if "tlv_ok cfg w" for w
    using tlv_ok_length[OF that] assms(4,5) by (auto simp: byte_simps)
qed (use assms in auto)

lemma chunk_config_ok: "config_ok (chunk_config c)"
  by (cases c) (simp_all add: chunk_config_defs config_ok_def kTlvHeaderSize_def)

interpretation DataChunk: tlv_codec DataChunk_config DataChunk_Parse Chunk_SerializeTo "chunk_of DataChunk_config"
proof (rule tlv_codecI[OF _ DataChunk_Parse_def], goal_cases)
  case (2 c)
  then show ?case
    by (cases c) (simp_all add: chunk_of_def chunk_codec_simps DataChunk_SerializeTo_def Let_def)
qed (simp_all add: chunk_codec_simps Let_def)

interpretation InitChunk: tlv_codec InitChunk_config "\<lambda>d. returned (InitChunk_Parse d)" Chunk_SerializeTo "chunk_of InitChunk_config"
proof (rule param_chunk_codecI[OF _ InitChunk_Parse_def], goal_cases)
  case (2 c)
  then show ?case
    by (cases c) (simp_all add: chunk_of_def chunk_codec_simps InitChunk_SerializeTo_def)
qed (simp_all add: chunk_codec_simps)

interpretation InitAckChunk: tlv_codec InitAckChunk_config "\<lambda>d. returned (InitAckChunk_Parse d)" Chunk_SerializeTo "chunk_of InitAckChunk_config"
proof (rule param_chunk_codecI[OF _ InitAckChunk_Parse_def], goal_cases)
  case (2 c)
  then show ?case
    by (cases c) (simp_all add: chunk_of_def chunk_codec_simps InitAckChunk_SerializeTo_def)
qed (simp_all add: chunk_codec_simps)

lemma sack_block:
  fixes z :: bytes
  assumes "16 + length gaps * 4 + length dups * 4 < 65536" "length p = 16"
    and "length z = length gaps * 4 + length dups * 4"
  defines "w \<equiv> p @ gap_element.encode_elements gaps (take (length gaps * 4) z)
               @ tsn_element.encode_elements dups (drop (length gaps * 4) z)"
  shows "bind_outcome (write_array 16 4 store_gap_block 0 gaps (p @ z))
           (write_array 16 4 store_u32 (length gaps * 4) dups) = Value w"
    and "read_array 16 4 load_gap_block 0 (length gaps) w = Value gaps"
    and "read_array 16 4 load_u32 (length gaps * 4) (length dups) w = Value dups"
    and "length w = 16 + length gaps * 4 + length dups * 4"
proof -
  define z1 z2 where "z1 = take (length gaps * 4) z" and "z2 = drop (length gaps * 4) z"
  have z: "z = z1 @ z2" "length z1 = length gaps * 4" "length z2 = length dups * 4"
    using assms(3) by (auto simp: z1_def z2_def)
  have g: "length (gap_element.encode_elements gaps z1) = length gaps * 4"
    using z by (simp add: gap_element.length_encode)
  have w: "w = p @ gap_element.encode_elements gaps z1 @ tsn_element.encode_elements dups z2"
    by (simp add: w_def z1_def z2_def)
  show "read_array 16 4 load_gap_block 0 (length gaps) w = Value gaps"
    unfolding w using assms(2) z by (intro gap_element.read_array_encode) auto
  show "read_array 16 4 load_u32 (length gaps * 4) (length dups) w = Value dups"
    using tsn_element.read_array_encode[of "p @ gap_element.encode_elements gaps z1" 16
        "length gaps * 4" z2 dups "[]"] assms(2) z g by (simp add: w)
  show "length w = 16 + length gaps * 4 + length dups * 4"
    using assms(2) z g by (simp add: w tsn_element.length_encode)
  have "write_array 16 4 store_gap_block 0 gaps (p @ z)
      = Value (p @ gap_element.encode_elements gaps z1 @ z2)"
    using gap_element.write_array_encode[of p 16 0 z1 gaps z2] assms(2) z by simp
  moreover have "write_array 16 4 store_u32 (length gaps * 4) dups
      (p @ gap_element.encode_elements gaps z1 @ z2) = Value w"
    using tsn_element.write_array_encode[of "p @ gap_element.encode_elements gaps z1" 16
        "length gaps * 4" z2 dups "[]"] assms(2) z g by (simp add: w)
  ultimately show "bind_outcome (write_array 16 4 store_gap_block 0 gaps (p @ z))
           (write_array 16 4 store_u32 (length gaps * 4) dups) = Value w"
    by simp
qed

lemma SackChunk_serializes:
  assumes "chunk_of SackChunk_config c"
  shows "\<exists>w. (\<forall>out. Chunk_SerializeTo c out = Value (out @ w)) \<and> tlv_ok SackChunk_config w
    \<and> SackChunk_Parse w = Value c"
proof -
  obtain a b gaps dups where c: "c = SackChunk a b gaps dups"
    and fits: "16 + length gaps * 4 + length dups * 4 < 65536" and sorted: "sorted_wrt (<) dups"
    using assms by (cases c) (simp_all add: chunk_of_def chunk_config_defs)
  define region where "region = Store16 14 (of_nat (length dups)) (Store16 12 (of_nat (length gaps))
      (Store32 8 b (Store32 4 a (tlv_region SackChunk_config (length gaps * 4 + length dups * 4)))))"
  define p z where "p = take 16 region" and "z = drop 16 region"
  have reg: "region = p @ z" "length p = 16" "length z = length gaps * 4 + length dups * 4"
    by (simp_all add: p_def z_def region_def chunk_config_defs)
  define w where "w = p @ gap_element.encode_elements gaps (take (length gaps * 4) z)
               @ tsn_element.encode_elements dups (drop (length gaps * 4) z)"
  note blk = sack_block[OF fits reg(2,3), folded w_def]
  have loads: "Load32 4 w = a" "Load32 8 w = b" "Load16 12 w = of_nat (length gaps)"
     "Load16 14 w = of_nat (length dups)" "Load8 0 w = 3"
     "Load16 2 w = of_nat (16 + length gaps * 4 + length dups * 4)"
    using reg(2) unfolding w_def
    by (simp_all add: byte_simps p_def region_def chunk_config_defs)
  have "tlv_ok SackChunk_config w"
    using blk(4) fits by (simp add: tlv_ok_def chunk_config_defs load_type_def loads)
  moreover have "Chunk_SerializeTo c out = Value (out @ w)" for out
    using blk(1) reg(1) by (simp add: c SackChunk_SerializeTo_def Let_def region_def[symmetric])
  moreover have "ParseTLV SackChunk_config w = Value w"
    using ParseTLV_block[of SackChunk_config w "[]"] \<open>tlv_ok SackChunk_config w\<close>
    by (simp add: chunk_codec_simps(1) config_ok_def chunk_config_defs kTlvHeaderSize_def)
  then have "SackChunk_Parse w = Value c"
    using blk fits sorted
    by (simp add: SackChunk_Parse_def Let_def loads c variable_data_size_def)
  ultimately show ?thesis by blast
qed

interpretation SackChunk: tlv_codec SackChunk_config SackChunk_Parse Chunk_SerializeTo "chunk_of SackChunk_config"
proof (rule tlv_codec_parseI[OF _ SackChunk_Parse_def SackChunk_serializes], goal_cases)
  case (3 w)
  then have "16 \<le> length w"
    by (simp add: tlv_ok_def chunk_config_defs)
  then show ?case
    by (auto simp: Let_def variable_data_size_def split: if_splits
        dest!: read_array_not_Abort[THEN notE, rotated])
qed (simp_all add: chunk_codec_simps)

interpretation HeartbeatRequestChunk: tlv_codec HeartbeatRequestChunk_config "\<lambda>d. returned (HeartbeatRequestChunk_Parse d)" Chunk_SerializeTo "chunk_of HeartbeatRequestChunk_config"
proof (rule param_chunk_codecI[OF _ HeartbeatRequestChunk_Parse_def], goal_cases)
  case (2 c)
  then show ?case
    by (cases c) (simp_all add: chunk_of_def chunk_codec_simps HeartbeatRequestChunk_SerializeTo_def)
qed (simp_all add: chunk_codec_simps)

interpretation HeartbeatAckChunk: tlv_codec HeartbeatAckChunk_config "\<lambda>d. returned (HeartbeatAckChunk_Parse d)" Chunk_SerializeTo "chunk_of HeartbeatAckChunk_config"
proof (rule param_chunk_codecI[OF _ HeartbeatAckChunk_Parse_def], goal_cases)
  case (2 c)
  then show ?case
    by (cases c) (simp_all add: chunk_of_def chunk_codec_simps HeartbeatAckChunk_SerializeTo_def)
qed (simp_all add: chunk_codec_simps)

interpretation AbortChunk: tlv_codec AbortChunk_config "\<lambda>d. returned (AbortChunk_Parse d)" Chunk_SerializeTo "chunk_of AbortChunk_config"
proof (rule param_chunk_codecI[OF _ AbortChunk_Parse_def], goal_cases)
  case (2 c)
  then show ?case
    by (cases c) (simp_all add: chunk_of_def chunk_codec_simps AbortChunk_SerializeTo_def)
qed (simp_all add: chunk_codec_simps)

interpretation ShutdownChunk: tlv_codec ShutdownChunk_config ShutdownChunk_Parse Chunk_SerializeTo "chunk_of ShutdownChunk_config"
proof (rule tlv_codecI[OF _ ShutdownChunk_Parse_def], goal_cases)
  case (2 c)
  then show ?case
    by (cases c) (simp_all add: chunk_of_def chunk_codec_simps ShutdownChunk_SerializeTo_def Let_def)
qed (simp_all add: chunk_codec_simps Let_def)

interpretation ShutdownAckChunk: tlv_codec ShutdownAckChunk_config ShutdownAckChunk_Parse Chunk_SerializeTo "chunk_of ShutdownAckChunk_config"
proof (rule tlv_codecI[OF _ ShutdownAckChunk_Parse_def], goal_cases)
  case (2 c)
  then show ?case
    by (cases c) (simp_all add: chunk_of_def chunk_codec_simps ShutdownAckChunk_SerializeTo_def Let_def)
qed (simp_all add: chunk_codec_simps Let_def)

interpretation ErrorChunk: tlv_codec ErrorChunk_config "\<lambda>d. returned (ErrorChunk_Parse d)" Chunk_SerializeTo "chunk_of ErrorChunk_config"
proof (rule param_chunk_codecI[OF _ ErrorChunk_Parse_def], goal_cases)
  case (2 c)
  then show ?case
    by (cases c) (simp_all add: chunk_of_def chunk_codec_simps ErrorChunk_SerializeTo_def)
qed (simp_all add: chunk_codec_simps)

interpretation CookieEchoChunk: tlv_codec CookieEchoChunk_config CookieEchoChunk_Parse Chunk_SerializeTo "chunk_of CookieEchoChunk_config"
proof (rule tlv_codecI[OF _ CookieEchoChunk_Parse_def], goal_cases)
  case (2 c)
  then show ?case
    by (cases c) (simp_all add: chunk_of_def chunk_codec_simps CookieEchoChunk_SerializeTo_def Let_def)
qed (simp_all add: chunk_codec_simps Let_def)

interpretation CookieAckChunk: tlv_codec CookieAckChunk_config CookieAckChunk_Parse Chunk_SerializeTo "chunk_of CookieAckChunk_config"
proof (rule tlv_codecI[OF _ CookieAckChunk_Parse_def], goal_cases)
  case (2 c)
  then show ?case
    by (cases c) (simp_all add: chunk_of_def chunk_codec_simps CookieAckChunk_SerializeTo_def Let_def)
qed (simp_all add: chunk_codec_simps Let_def)

interpretation ShutdownCompleteChunk: tlv_codec ShutdownCompleteChunk_config ShutdownCompleteChunk_Parse Chunk_SerializeTo "chunk_of ShutdownCompleteChunk_config"
proof (rule tlv_codecI[OF _ ShutdownCompleteChunk_Parse_def], goal_cases)
  case (2 c)
  then show ?case
    by (cases c) (simp_all add: chunk_of_def chunk_codec_simps ShutdownCompleteChunk_SerializeTo_def Let_def)
qed (simp_all add: chunk_codec_simps Let_def)

interpretation IDataChunk: tlv_codec IDataChunk_config IDataChunk_Parse Chunk_SerializeTo "chunk_of IDataChunk_config"
proof (rule tlv_codecI[OF _ IDataChunk_Parse_def], goal_cases)
  case (2 c)
  then show ?case
    by (cases c) (simp_all add: chunk_of_def chunk_codec_simps IDataChunk_SerializeTo_def Let_def)
qed (simp_all add: chunk_codec_simps Let_def)

interpretation ReConfigChunk: tlv_codec ReConfigChunk_config "\<lambda>d. returned (ReConfigChunk_Parse d)" Chunk_SerializeTo "chunk_of ReConfigChunk_config"
proof (rule param_chunk_codecI[OF _ ReConfigChunk_Parse_def], goal_cases)
  case (2 c)
  then show ?case
    by (cases c) (simp_all add: chunk_of_def chunk_codec_simps ReConfigChunk_SerializeTo_def)
qed (simp_all add: chunk_codec_simps)

interpretation ForwardTsnChunk: tlv_codec ForwardTsnChunk_config ForwardTsnChunk_Parse Chunk_SerializeTo "chunk_of ForwardTsnChunk_config"
proof (rule tlv_codecI[OF _ ForwardTsnChunk_Parse_def], goal_cases)
  case (2 c)
  then show ?case
    by (cases c) (simp_all add: chunk_of_def chunk_codec_simps ForwardTsnChunk_SerializeTo_def Let_def)
qed (simp_all add: chunk_codec_simps Let_def)

interpretation IForwardTsnChunk: tlv_codec IForwardTsnChunk_config IForwardTsnChunk_Parse Chunk_SerializeTo "chunk_of IForwardTsnChunk_config"
proof (rule tlv_codecI[OF _ IForwardTsnChunk_Parse_def], goal_cases)
  case (2 c)
  then show ?case
    by (cases c) (simp_all add: chunk_of_def chunk_codec_simps IForwardTsnChunk_SerializeTo_def Let_def)
qed (simp_all add: chunk_codec_simps Let_def)

lemmas chunk_class_serializes =
  DataChunk.serializes InitChunk.serializes InitAckChunk.serializes
  SackChunk.serializes HeartbeatRequestChunk.serializes HeartbeatAckChunk.serializes
  AbortChunk.serializes ShutdownChunk.serializes ShutdownAckChunk.serializes
  ErrorChunk.serializes CookieEchoChunk.serializes CookieAckChunk.serializes
  ShutdownCompleteChunk.serializes IDataChunk.serializes ReConfigChunk.serializes
  ForwardTsnChunk.serializes IForwardTsnChunk.serializes

lemmas chunk_class_never_aborts =
  DataChunk.never_aborts InitChunk.never_aborts
  InitAckChunk.never_aborts SackChunk.never_aborts
  HeartbeatRequestChunk.never_aborts HeartbeatAckChunk.never_aborts
  AbortChunk.never_aborts ShutdownChunk.never_aborts
  ShutdownAckChunk.never_aborts ErrorChunk.never_aborts
  CookieEchoChunk.never_aborts CookieAckChunk.never_aborts
  ShutdownCompleteChunk.never_aborts IDataChunk.never_aborts
  ReConfigChunk.never_aborts ForwardTsnChunk.never_aborts
  IForwardTsnChunk.never_aborts

lemma chunk_serializes:
  assumes "wf_chunk c"
  shows "\<exists>w. (\<forall>out. Chunk_SerializeTo c out = Value (out @ w)) \<and> tlv_ok (chunk_config c) w
    \<and> (\<forall>pad. pad_ok (chunk_config c) pad \<longrightarrow> returned (chunk_Parse c (w @ pad)) = Value c)"
proof -
  have "chunk_of (chunk_config c) c"
    using assms by (simp add: chunk_of_def)
  then show ?thesis
    by (cases c) (simp_all only: chunk_config.simps chunk_Parse.simps returned_Some,
        (drule chunk_class_serializes, assumption)+)
qed

lemma chunk_Parse_returns: "\<exists>r. chunk_Parse c d = Some r \<and> r \<noteq> Abort"
proof -
  have "returned (chunk_Parse c d) \<noteq> Abort"
    by (cases c) (simp_all only: chunk_Parse.simps returned_Some chunk_class_never_aborts not_False_eq_True)
  then show ?thesis
    by (cases "chunk_Parse c d") (auto simp: returned_def)
qed

section \<open>Properties\<close>

text \<open>
  C10.  Chunks round-trip.  A well-formed chunk of any of the seventeen classes is serialised, after
  whatever has been written before, to one block with its type and length in the header, and its
  class parses that block, with or without padding where the class has a variable part, back to
  the same chunk.
\<close>

theorem chunk_round_trip:
  assumes "wf_chunk c"
  shows "\<exists>w. (\<forall>out. Chunk_SerializeTo c out = Value (out @ w))
    \<and> unat (Load8 0 w) = kType (chunk_config c) \<and> unat (Load16 2 w) = length w
    \<and> (\<forall>pad. pad_ok (chunk_config c) pad \<longrightarrow> chunk_Parse c (w @ pad) = Some (Value c))"
proof -
  obtain w where w: "\<forall>out. Chunk_SerializeTo c out = Value (out @ w)" "tlv_ok (chunk_config c) w"
    "\<forall>pad. pad_ok (chunk_config c) pad \<longrightarrow> returned (chunk_Parse c (w @ pad)) = Value c"
    using chunk_serializes[OF assms] by blast
  have "chunk_Parse c (w @ pad) = Some (Value c)" if "pad_ok (chunk_config c) pad" for pad
    using w(3) that chunk_Parse_returns[of c "w @ pad"] by auto
  moreover have "kTypeSizeInBytes (chunk_config c) = 1"
    by (cases c) (simp_all add: chunk_config_defs)
  ultimately show ?thesis
    using w(1,2) by (intro exI[of _ w]) (simp add: tlv_ok_def load_type_def)
qed

theorem chunk_round_trip_witness:
  "\<exists>w. Chunk_SerializeTo (SackChunk 7 1000 [\<lparr>gab_start = 2, gab_end = 3\<rparr>] [5, 9]) [] = Value w
     \<and> SackChunk_Parse w = Value (SackChunk 7 1000 [\<lparr>gab_start = 2, gab_end = 3\<rparr>] [5, 9])"
proof -
  let ?c = "SackChunk 7 1000 [\<lparr>gab_start = 2, gab_end = 3\<rparr>] [5, 9]"
  have "wf_chunk ?c" by simp
  from chunk_round_trip[OF this] obtain w where "Chunk_SerializeTo ?c [] = Value w"
    "\<forall>pad. pad_ok (chunk_config ?c) pad \<longrightarrow> chunk_Parse ?c (w @ pad) = Some (Value ?c)"
    by (metis append_Nil)
  then show ?thesis
    by (metis append_Nil2 chunk_Parse.simps(4) option.inject pad_ok_Nil)
qed


text \<open>
  C23.  An ERROR chunk whose causes do not fill a multiple of four bytes is not readable: the chunk
  serialises with its exact length, and the parser, which demands a length divisible by four,
  rejects the result with and without padding.
\<close>

theorem error_chunk_unaligned_rejected:
  assumes "length causes mod 4 \<noteq> 0" "4 + length causes < 65536" "length pad \<le> 3"
  shows "\<exists>w. Chunk_SerializeTo (ErrorChunk causes) [] = Value w
    \<and> ErrorChunk_Parse (w @ pad) = Some Nullopt"
proof -
  define w where "w = take 4 (tlv_region ErrorChunk_config (length causes)) @ causes"
  have len: "length w = 4 + length causes"
    by (simp add: w_def chunk_config_defs)
  have "Load16 2 (w @ pad) = of_nat (4 + length causes)"
    by (simp add: w_def chunk_config_defs byte_simps)
  then have u: "unat (Load16 2 (w @ pad)) = 4 + length causes"
    using unat_of_nat16[of "4 + length causes"] assms(2) by simp
  have "(4 + length causes) mod 4 \<noteq> 0"
    using assms(1) by simp
  then have "ParseTLV ErrorChunk_config (w @ pad) = Nullopt"
    using assms(3) len
    by (simp add: ParseTLV_def Let_def chunk_config_defs kTlvHeaderSize_def ValidateLengthAlignment_def u)
  then show ?thesis
    by (simp add: ErrorChunk_SerializeTo_def ErrorChunk_Parse_def bind_returns_def w_def
        chunk_config_defs byte_simps)
qed

theorem error_chunk_unaligned_rejected_witness:
  "\<exists>w. Chunk_SerializeTo (ErrorChunk [0, 13, 0, 5, 65]) [] = Value w
     \<and> ErrorChunk_Parse (w @ [0, 0, 0]) = Some Nullopt"
  by (rule error_chunk_unaligned_rejected) simp_all

end
