(* ===== verification/Options.thy ===== *)
theory Options
  imports Dcsctp_Prelude
begin

text \<open>
  The socket's configuration, \<open>public/dcsctp_options.h\<close>: ports and sizes as numbers, durations in
  milliseconds.
\<close>

record DcSctpOptions =
  opt_local_port :: int
  opt_remote_port :: int
  opt_announced_maximum_incoming_streams :: u16
  opt_announced_maximum_outgoing_streams :: u16
  opt_mtu :: nat
  opt_max_message_size :: nat
  opt_default_stream_priority :: u16
  opt_max_receiver_window_buffer_size :: nat
  opt_max_send_buffer_size :: nat
  opt_total_buffered_amount_low_threshold :: nat
  opt_rtt_max :: int
  opt_rto_initial :: int
  opt_rto_max :: int
  opt_rto_min :: int
  opt_t1_init_timeout :: int
  opt_t1_cookie_timeout :: int
  opt_t2_shutdown_timeout :: int
  opt_max_timer_backoff_duration :: "int option"
  opt_heartbeat_interval :: int
  opt_delayed_ack_max_timeout :: int
  opt_min_rtt_variance :: int
  opt_cwnd_mtus_initial :: nat
  opt_cwnd_mtus_min :: nat
  opt_avoid_fragmentation_cwnd_mtus :: nat
  opt_max_burst :: int
  opt_max_retransmissions :: "int option"
  opt_max_init_retransmits :: "int option"
  opt_enable_partial_reliability :: bool
  opt_enable_message_interleaving :: bool
  opt_heartbeat_interval_include_rtt :: bool
  opt_disable_checksum_verification :: bool
  opt_zero_checksum_alternate_error_detection_method :: u32

definition kMaxSafeMTUSize :: nat where
  "kMaxSafeMTUSize = 1191"

definition default_options :: DcSctpOptions where
  "default_options =
     \<lparr>opt_local_port = 5000,
      opt_remote_port = 5000,
      opt_announced_maximum_incoming_streams = 65535,
      opt_announced_maximum_outgoing_streams = 65535,
      opt_mtu = kMaxSafeMTUSize,
      opt_max_message_size = 256 * 1024,
      opt_default_stream_priority = 256,
      opt_max_receiver_window_buffer_size = 5 * 1024 * 1024,
      opt_max_send_buffer_size = 2000000,
      opt_total_buffered_amount_low_threshold = 1800000,
      opt_rtt_max = 60000,
      opt_rto_initial = 500,
      opt_rto_max = 60000,
      opt_rto_min = 400,
      opt_t1_init_timeout = 1000,
      opt_t1_cookie_timeout = 1000,
      opt_t2_shutdown_timeout = 1000,
      opt_max_timer_backoff_duration = None,
      opt_heartbeat_interval = 30000,
      opt_delayed_ack_max_timeout = 200,
      opt_min_rtt_variance = 220,
      opt_cwnd_mtus_initial = 10,
      opt_cwnd_mtus_min = 4,
      opt_avoid_fragmentation_cwnd_mtus = 6,
      opt_max_burst = 4,
      opt_max_retransmissions = Some 10,
      opt_max_init_retransmits = Some 8,
      opt_enable_partial_reliability = True,
      opt_enable_message_interleaving = False,
      opt_heartbeat_interval_include_rtt = True,
      opt_disable_checksum_verification = False,
      opt_zero_checksum_alternate_error_detection_method = 0\<rparr>"

end
