(* ===== verification/Sctp_Packet.thy ===== *)
theory Sctp_Packet
  imports Chunk_Codecs Options
begin

text \<open>
  Packets: \<open>packet/sctp_packet.{h,cc}\<close> and \<open>packet/crc32c.cc\<close>.  The checksum function
  \<open>crc32c_value\<close> belongs to an external library and is the parameter \<open>crc\<close> of the definitions; no
  theorem constrains it.
\<close>

section \<open>Definitions\<close>

definition GenerateCrc32C :: "(bytes \<Rightarrow> u32) \<Rightarrow> bytes \<Rightarrow> u32" where
  "GenerateCrc32C crc data =
     (let crc32c = crc data;
          byte0 = ucast crc32c :: u8;
          byte1 = ucast (drop_bit 8 crc32c) :: u8;
          byte2 = ucast (drop_bit 16 crc32c) :: u8;
          byte3 = ucast (drop_bit 24 crc32c) :: u8
      in push_bit 24 (ucast byte0) OR push_bit 16 (ucast byte1) OR push_bit 8 (ucast byte2) OR ucast byte3)"

definition kMaxUdpPacketSize :: nat where "kMaxUdpPacketSize = 65535"
definition kChunkTlvHeaderSize :: nat where "kChunkTlvHeaderSize = 4"
definition kPacketHeaderSize :: nat where "kPacketHeaderSize = 12"

record CommonHeader =
  ch_source_port :: u16
  ch_destination_port :: u16
  ch_verification_tag :: u32
  ch_checksum :: u32

record ChunkDescriptor =
  cd_type :: u8
  cd_flags :: u8
  cd_data :: bytes

record SctpPacket =
  sp_common_header :: CommonHeader
  sp_data :: bytes
  sp_descriptors :: "ChunkDescriptor list"

subsection \<open>Builder\<close>

record PacketBuilder =
  pb_verification_tag :: u32
  pb_source_port :: u16
  pb_dest_port :: u16
  pb_max_packet_size :: u64
  pb_out :: bytes

definition new_packet_builder :: "u32 \<Rightarrow> DcSctpOptions \<Rightarrow> PacketBuilder" where
  "new_packet_builder verification_tag options =
     \<lparr>pb_verification_tag = verification_tag,
      pb_source_port = word_of_int (opt_local_port options),
      pb_dest_port = word_of_int (opt_remote_port options),
      pb_max_packet_size = RoundDownTo4 (of_nat (opt_mtu options)),
      pb_out = []\<rparr>"

definition PacketBuilder_Add :: "PacketBuilder \<Rightarrow> chunk \<Rightarrow> PacketBuilder outcome" where
  "PacketBuilder_Add b chunk =
     bind_outcome
       (if pb_out b = [] then
          bind_outcome (BoundedByteWriter kPacketHeaderSize (resize kPacketHeaderSize (pb_out b))) (\<lambda>buffer.
            Value (Store32 4 (pb_verification_tag b)
                    (Store16 2 (pb_dest_port b) (Store16 0 (pb_source_port b) buffer))))
        else Value (pb_out b)) (\<lambda>out.
     bind_outcome (Chunk_SerializeTo chunk out) (\<lambda>out.
       Value (b\<lparr>pb_out :=
         (if length out mod 4 \<noteq> 0
          then resize (unat (RoundUpTo4 (of_nat (length out) :: u64))) out else out)\<rparr>)))"

fun PacketBuilder_Add_all :: "PacketBuilder \<Rightarrow> chunk list \<Rightarrow> PacketBuilder outcome" where
  "PacketBuilder_Add_all b [] = Value b"
| "PacketBuilder_Add_all b (c # cs) =
     bind_outcome (PacketBuilder_Add b c) (\<lambda>b. PacketBuilder_Add_all b cs)"

definition PacketBuilder_bytes_remaining :: "PacketBuilder \<Rightarrow> u64" where
  "PacketBuilder_bytes_remaining b =
     (if pb_out b = [] then pb_max_packet_size b - of_nat kPacketHeaderSize
      else if of_nat (length (pb_out b)) > pb_max_packet_size b then 0
      else pb_max_packet_size b - of_nat (length (pb_out b)))"

definition PacketBuilder_Build ::
  "(bytes \<Rightarrow> u32) \<Rightarrow> PacketBuilder \<Rightarrow> bool \<Rightarrow> (bytes \<times> PacketBuilder) outcome" where
  "PacketBuilder_Build crc b write_checksum =
     (let out = pb_out b; b = b\<lparr>pb_out := []\<rparr> in
      if out \<noteq> [] \<and> write_checksum then
        let c = GenerateCrc32C crc out in
        bind_outcome (BoundedByteWriter kPacketHeaderSize out) (\<lambda>w. Value (Store32 8 c w, b))
      else Value (out, b))"

subsection \<open>Parsing\<close>

function parse_descriptors :: "bytes \<Rightarrow> ChunkDescriptor list outcome" where
  "parse_descriptors descriptor_data =
     (if descriptor_data = [] then Value []
      else if length descriptor_data < kChunkTlvHeaderSize then Nullopt
      else bind_outcome (BoundedByteReader kChunkTlvHeaderSize descriptor_data) (\<lambda>chunk_header.
        let len = Load16 2 chunk_header;
            padded_length = unat (RoundUpTo4 len)
        in if padded_length > length descriptor_data then Nullopt
           else if padded_length < kChunkTlvHeaderSize then Nullopt
           else bind_outcome (parse_descriptors (drop padded_length descriptor_data)) (\<lambda>rest.
             Value (\<lparr>cd_type = Load8 0 chunk_header, cd_flags = Load8 1 chunk_header,
                     cd_data = take padded_length descriptor_data\<rparr> # rest))))"
  by auto
termination
  by (relation "measure length") (auto simp: kChunkTlvHeaderSize_def)

definition SctpPacket_Parse ::
  "(bytes \<Rightarrow> u32) \<Rightarrow> bytes \<Rightarrow> DcSctpOptions \<Rightarrow> SctpPacket outcome" where
  "SctpPacket_Parse crc data options =
     (if length data < kPacketHeaderSize + kChunkTlvHeaderSize \<or> length data > kMaxUdpPacketSize
      then Nullopt
      else bind_outcome (BoundedByteReader kPacketHeaderSize data) (\<lambda>reader.
        let common_header = \<lparr>ch_source_port = Load16 0 reader, ch_destination_port = Load16 2 reader,
                             ch_verification_tag = Load32 4 reader, ch_checksum = Load32 8 reader\<rparr> in
        bind_outcome
          (if opt_disable_checksum_verification options
              \<or> (opt_zero_checksum_alternate_error_detection_method options \<noteq> 0
                 \<and> ch_checksum common_header = 0)
           then Value data
           else bind_outcome (BoundedByteWriter kPacketHeaderSize data) (\<lambda>w.
             let data_copy = Store32 8 0 w in
             if GenerateCrc32C crc data_copy \<noteq> ch_checksum common_header then Nullopt
             else bind_outcome (BoundedByteWriter kPacketHeaderSize data_copy) (\<lambda>w.
               Value (Store32 8 (ch_checksum common_header) w)))) (\<lambda>data_copy.
        bind_outcome (parse_descriptors (drop kPacketHeaderSize data_copy)) (\<lambda>descriptors.
          Value \<lparr>sp_common_header = common_header, sp_data = data_copy, sp_descriptors = descriptors\<rparr>))))"

section \<open>Lemmas\<close>

declare parse_descriptors.simps [simp del]

lemma nth_update_at: "j < length xs \<Longrightarrow> xs[i := x] ! j = (if i = j then x else xs ! j)"
  by (cases "i < length xs") (auto simp: nth_list_update)

lemma Store32_overwrite: "Store32 i a (Store32 i b w) = Store32 i a w"
  by (rule nth_equalityI) (auto simp: raw_access_defs nth_update_at)

lemma join32:
  "ucast (drop_bit 24 (push_bit 24 (ucast a) OR push_bit 16 (ucast b) OR push_bit 8 (ucast c) OR ucast d :: u32)) = (a :: u8)"
  "ucast (drop_bit 16 (push_bit 24 (ucast a) OR push_bit 16 (ucast b) OR push_bit 8 (ucast c) OR ucast d :: u32)) = (b :: u8)"
  "ucast (drop_bit 8 (push_bit 24 (ucast a) OR push_bit 16 (ucast b) OR push_bit 8 (ucast c) OR ucast d :: u32)) = (c :: u8)"
  "ucast (push_bit 24 (ucast a) OR push_bit 16 (ucast b) OR push_bit 8 (ucast c) OR ucast d :: u32) = (d :: u8)"
  by (rule bit_word_eqI, auto simp: bit_simps dest: bit_imp_le_length)+

lemma Store32_Load32: "i + 3 < length w \<Longrightarrow> Store32 i (Load32 i w) w = w"
  by (rule nth_equalityI)
    (auto simp: raw_access_defs nth_update_at join32 simp del: push_bit_or drop_bit_or)

lemma BoundedByteWriter_eq [simp]: "n \<le> length d \<Longrightarrow> BoundedByteWriter n d = Value d"
  by (simp add: BoundedByteWriter_def)

lemma parse_descriptors_no_abort: "parse_descriptors d \<noteq> Abort"
  by (induction d rule: parse_descriptors.induct)
    (subst parse_descriptors.simps, auto simp: Let_def)


lemma RoundUpTo4_mod4: "unat (RoundUpTo4 x) mod 4 = 0"
  unfolding RoundUpTo4_def unat_and_not_3 by simp

definition descriptor_ok :: "ChunkDescriptor \<Rightarrow> bool" where
  "descriptor_ok d = (4 \<le> length (cd_data d) \<and> length (cd_data d) mod 4 = 0
     \<and> cd_type d = Load8 0 (cd_data d) \<and> cd_flags d = Load8 1 (cd_data d))"

lemma parse_descriptors_sound:
  "parse_descriptors d = Value ds \<Longrightarrow> concat (map cd_data ds) = d \<and> (\<forall>x \<in> set ds. descriptor_ok x)"
proof (induction d arbitrary: ds rule: parse_descriptors.induct)
  case (1 d)
  define n where "n = unat (RoundUpTo4 (Load16 2 d))"
  show ?case
  proof (cases "d = []")
    case True
    with 1(2) show ?thesis by (simp add: parse_descriptors.simps)
  next
    case False
    with 1(2) obtain rest where d: "4 \<le> n" "n \<le> length d" "parse_descriptors (drop n d) = Value rest"
      "ds = \<lparr>cd_type = Load8 0 d, cd_flags = Load8 1 d, cd_data = take n d\<rparr> # rest"
      by (subst (asm) parse_descriptors.simps)
        (auto simp: Let_def n_def kChunkTlvHeaderSize_def split: if_splits)
    have "concat (map cd_data rest) = drop n d \<and> (\<forall>x \<in> set rest. descriptor_ok x)"
      using 1(1)[OF False _ refl[of "Load16 2 d"] refl] d by (simp add: n_def kChunkTlvHeaderSize_def)
    moreover have "descriptor_ok \<lparr>cd_type = Load8 0 d, cd_flags = Load8 1 d, cd_data = take n d\<rparr>"
      using d(1,2) RoundUpTo4_mod4[of "Load16 2 d"] by (simp add: descriptor_ok_def n_def byte_simps)
    ultimately show ?thesis
      using d(4) by simp
  qed
qed

definition cblock :: "chunk \<Rightarrow> bytes" where
  "cblock c = (case Chunk_SerializeTo c [] of Value w \<Rightarrow> w | _ \<Rightarrow> [])"

definition padded :: "chunk \<Rightarrow> bytes" where
  "padded c = pad4 (cblock c)"

definition chunk_descriptor :: "chunk \<Rightarrow> ChunkDescriptor" where
  "chunk_descriptor c =
     \<lparr>cd_type = of_nat (kType (chunk_config c)), cd_flags = Load8 1 (cblock c), cd_data = pad4 (cblock c)\<rparr>"

definition packet_header :: "PacketBuilder \<Rightarrow> bytes" where
  "packet_header b = Store32 4 (pb_verification_tag b)
     (Store16 2 (pb_dest_port b) (Store16 0 (pb_source_port b) (replicate 12 0)))"

lemma cblock_props:
  assumes "wf_chunk c"
  shows "Chunk_SerializeTo c out = Value (out @ cblock c)" "tlv_ok (chunk_config c) (cblock c)"
    and "pad_ok (chunk_config c) pad \<Longrightarrow> chunk_Parse c (cblock c @ pad) = Some (Value c)"
proof -
  obtain w where w: "\<forall>out. Chunk_SerializeTo c out = Value (out @ w)" "tlv_ok (chunk_config c) w"
    "\<forall>pad. pad_ok (chunk_config c) pad \<longrightarrow> returned (chunk_Parse c (w @ pad)) = Value c"
    using chunk_serializes[OF assms] by blast
  have "cblock c = w"
    using w(1) by (simp add: cblock_def)
  with w chunk_Parse_returns[of c "w @ pad"]
  show "Chunk_SerializeTo c out = Value (out @ cblock c)" "tlv_ok (chunk_config c) (cblock c)"
    "pad_ok (chunk_config c) pad \<Longrightarrow> chunk_Parse c (cblock c @ pad) = Some (Value c)"
    by auto
qed

lemma cblock_fields:
  assumes "wf_chunk c"
  shows "4 \<le> length (cblock c)" "Load16 2 (cblock c) = of_nat (length (cblock c))"
    "length (cblock c) < 65536" "Load8 0 (cblock c) = of_nat (kType (chunk_config c))"
proof -
  have t: "tlv_ok (chunk_config c) (cblock c)" "config_ok (chunk_config c)"
    using cblock_props(2)[OF assms] chunk_config_ok by auto
  then show "4 \<le> length (cblock c)" "Load16 2 (cblock c) = of_nat (length (cblock c))"
    "length (cblock c) < 65536"
    by (auto simp: tlv_ok_def config_ok_def kTlvHeaderSize_def)
  have "kTypeSizeInBytes (chunk_config c) = 1"
    by (cases c) (simp_all add: chunk_config_defs)
  with t(1) show "Load8 0 (cblock c) = of_nat (kType (chunk_config c))"
    by (auto simp: tlv_ok_def load_type_def dest: sym)
qed

lemma descriptor_parses:
  assumes "wf_chunk c"
  shows "chunk_Parse c (cd_data (chunk_descriptor c)) = Some (Value c)"
proof -
  define pad :: bytes where "pad = replicate (round4 (length (cblock c)) - length (cblock c)) 0"
  have "kHeaderSize (chunk_config c) mod 4 = 0"
    using chunk_config_ok[of c] by (simp add: config_ok_def)
  then have "pad_ok (chunk_config c) pad"
    using cblock_props(2)[OF assms] round4_bounds(2)[of "length (cblock c)"]
    by (auto simp: pad_ok_def pad_def tlv_ok_def)
  then show ?thesis
    using cblock_props(3)[OF assms, of pad] by (simp add: chunk_descriptor_def pad4_def pad_def)
qed

lemma parse_descriptors_concat:
  assumes "\<forall>c \<in> set cs. wf_chunk c" "\<forall>c \<in> set cs. length (cblock c) < 65533"
  shows "parse_descriptors (concat (map padded cs)) = Value (map chunk_descriptor cs)"
  using assms
proof (induction cs)
  case Nil
  then show ?case by (simp add: parse_descriptors.simps)
next
  case (Cons c cs)
  define w rest where "w = cblock c" and "rest = concat (map padded cs)"
  have w: "4 \<le> length w" "Load16 2 w = of_nat (length w)" "Load8 0 w = of_nat (kType (chunk_config c))"
      "length w < 65533"
    using cblock_fields[of c] Cons.prems by (simp_all add: w_def)
  obtain z where z: "pad4 w @ rest = w @ z"
    by (simp add: pad4_def)
  have loads: "Load16 2 (pad4 w @ rest) = of_nat (length w)" "Load8 0 (pad4 w @ rest) = Load8 0 w"
      "Load8 (Suc 0) (pad4 w @ rest) = Load8 (Suc 0) w"
    using w(1,2) by (simp_all add: z byte_simps)
  have r: "unat (RoundUpTo4 (of_nat (length w) :: u16)) = round4 (length w)"
    using RoundUpTo4_u16[of "of_nat (length w)"] w(4) by simp
  have "parse_descriptors rest = Value (map chunk_descriptor cs)"
    using Cons unfolding rest_def by simp
  moreover have "4 \<le> length (pad4 w @ rest)" "pad4 w @ rest \<noteq> []"
    using w(1) round4_bounds(1)[of "length w"] by (auto simp: z)
  moreover have "4 \<le> round4 (length w)"
    using w(1) round4_bounds(1)[of "length w"] by linarith
  ultimately have "parse_descriptors (pad4 w @ rest) = Value (map chunk_descriptor (c # cs))"
    using w
    by (subst parse_descriptors.simps)
      (simp add: kChunkTlvHeaderSize_def Let_def r loads chunk_descriptor_def w_def[symmetric])
  then show ?case
    by (simp add: w_def rest_def padded_def[of c])
qed

lemma length_packet_header [simp]: "length (packet_header b) = 12" "packet_header b \<noteq> []"
proof -
  show "length (packet_header b) = 12"
    by (simp add: packet_header_def)
  then show "packet_header b \<noteq> []"
    by force
qed

lemma PacketBuilder_Add_eq:
  assumes "wf_chunk c" "length (pb_out b) < 2 ^ 32"
  defines "base \<equiv> (if pb_out b = [] then packet_header b else pb_out b)"
  shows "PacketBuilder_Add b c = Value (b\<lparr>pb_out := pad4 (base @ cblock c)\<rparr>)"
proof -
  have "length (base @ cblock c) + 3 < 2 ^ 64"
    using cblock_fields(3)[OF assms(1)] assms(2) by (simp add: base_def)
  note pad = resize_pad4[OF this]
  show ?thesis
    unfolding PacketBuilder_Add_def cblock_props(1)[OF assms(1)]
    using pad by (auto simp: base_def kPacketHeaderSize_def resize_def packet_header_def[symmetric])
qed

lemma PacketBuilder_Add_all_eq:
  assumes "\<forall>c \<in> set cs. wf_chunk c" "pb_out b \<noteq> []" "length (pb_out b) mod 4 = 0"
    and "length (pb_out b) + length (concat (map padded cs)) < 2 ^ 32"
  shows "PacketBuilder_Add_all b cs = Value (b\<lparr>pb_out := pb_out b @ concat (map padded cs)\<rparr>)"
  using assms
proof (induction cs arbitrary: b)
  case (Cons c cs)
  define b' where "b' = b\<lparr>pb_out := pb_out b @ pad4 (cblock c)\<rparr>"
  have "PacketBuilder_Add b c = Value b'"
    using PacketBuilder_Add_eq[of c b] Cons.prems by (simp add: b'_def pad4_append)
  moreover have "PacketBuilder_Add_all b' cs
      = Value (b'\<lparr>pb_out := pb_out b' @ concat (map padded cs)\<rparr>)"
    using Cons.prems round4_bounds(3)[of "length (cblock c)"]
    by (intro Cons.IH) (simp_all add: b'_def padded_def[of c] mod_add_eq[symmetric])
  ultimately show ?case
    by (simp add: b'_def padded_def[of c])
qed simp

lemma PacketBuilder_built:
  assumes "\<forall>c \<in> set cs. wf_chunk c" "cs \<noteq> []" "pb_out b = []"
    and "12 + length (concat (map padded cs)) < 2 ^ 32"
  shows "PacketBuilder_Add_all b cs
    = Value (b\<lparr>pb_out := packet_header b @ concat (map padded cs)\<rparr>)"
proof (cases cs)
  case (Cons c cs')
  define b' where "b' = b\<lparr>pb_out := packet_header b @ pad4 (cblock c)\<rparr>"
  have "PacketBuilder_Add b c = Value b'"
    using PacketBuilder_Add_eq[of c b] assms Cons by (simp add: b'_def pad4_append)
  moreover have "PacketBuilder_Add_all b' cs'
      = Value (b'\<lparr>pb_out := pb_out b' @ concat (map padded cs')\<rparr>)"
    using assms Cons round4_bounds(3)[of "length (cblock c)"]
    by (intro PacketBuilder_Add_all_eq) (auto simp: b'_def padded_def[of c] mod_add_eq[symmetric])
  ultimately show ?thesis
    by (simp add: b'_def Cons padded_def[of c])
qed (use assms in simp)


lemma length_le_concat: "x \<in> set xs \<Longrightarrow> length x \<le> length (concat xs)"
  by (induction xs) auto

section \<open>Properties\<close>




text \<open>
  C19.  The packet parser is total and accepts only well-delimited packets.  On any bytes it returns
  without failing a check; when it accepts, the data it keeps is the received data, the chunk
  descriptors tile everything after the common header, each of them starts with its own type and
  flags and is a positive multiple of four bytes long, and unless verification is switched off or
  waived for a zero checksum, the received checksum is that of the data with the field zeroed.
\<close>

theorem packet_parse_sound:
  "SctpPacket_Parse crc data options \<noteq> Abort \<and>
   (\<forall>p. SctpPacket_Parse crc data options = Value p \<longrightarrow>
      sp_data p = data
      \<and> concat (map cd_data (sp_descriptors p)) = drop 12 data
      \<and> (\<forall>d \<in> set (sp_descriptors p). 4 \<le> length (cd_data d) \<and> length (cd_data d) mod 4 = 0
            \<and> cd_type d = Load8 0 (cd_data d) \<and> cd_flags d = Load8 1 (cd_data d))
      \<and> (opt_disable_checksum_verification options
         \<or> opt_zero_checksum_alternate_error_detection_method options \<noteq> 0 \<and> Load32 8 data = 0
         \<or> Load32 8 data = GenerateCrc32C crc (Store32 8 0 data)))"
proof -
  have restore: "Store32 8 (Load32 8 data) (Store32 8 0 data) = data" if "16 \<le> length data"
    using that by (simp add: Store32_overwrite Store32_Load32)
  show ?thesis
  proof (intro conjI allI impI)
    show "SctpPacket_Parse crc data options \<noteq> Abort"
      using parse_descriptors_no_abort
      by (auto simp: SctpPacket_Parse_def kPacketHeaderSize_def kChunkTlvHeaderSize_def Let_def)
  next
    fix p assume "SctpPacket_Parse crc data options = Value p"
    then have size: "16 \<le> length data"
      and sum: "opt_disable_checksum_verification options
         \<or> opt_zero_checksum_alternate_error_detection_method options \<noteq> 0 \<and> Load32 8 data = 0
         \<or> Load32 8 data = GenerateCrc32C crc (Store32 8 0 data)"
      and kept: "sp_data p = data \<or> sp_data p = Store32 8 (Load32 8 data) (Store32 8 0 data)"
      and ds: "parse_descriptors (drop 12 (sp_data p)) = Value (sp_descriptors p)"
      by (auto simp: SctpPacket_Parse_def kPacketHeaderSize_def kChunkTlvHeaderSize_def Let_def
          split: if_splits)
    then show "sp_data p = data" using restore by auto
    with ds have "parse_descriptors (drop 12 data) = Value (sp_descriptors p)" by simp
    from parse_descriptors_sound[OF this]
    show "concat (map cd_data (sp_descriptors p)) = drop 12 data"
      and "\<forall>d \<in> set (sp_descriptors p). 4 \<le> length (cd_data d) \<and> length (cd_data d) mod 4 = 0
            \<and> cd_type d = Load8 0 (cd_data d) \<and> cd_flags d = Load8 1 (cd_data d)"
      by (auto simp: descriptor_ok_def)
    show "opt_disable_checksum_verification options
         \<or> opt_zero_checksum_alternate_error_detection_method options \<noteq> 0 \<and> Load32 8 data = 0
         \<or> Load32 8 data = GenerateCrc32C crc (Store32 8 0 data)"
      by (rule sum)
  qed
qed

theorem packet_parse_sound_witness:
  "\<exists>p. SctpPacket_Parse (\<lambda>_. 0) [19, 136, 19, 136, 0, 0, 0, 1, 0, 0, 0, 0, 11, 0, 0, 4] default_options = Value p
     \<and> concat (map cd_data (sp_descriptors p)) = [11, 0, 0, 4]"
proof -
  let ?d = "[19, 136, 19, 136, 0, 0, 0, 1, 0, 0, 0, 0, 11, 0, 0, 4] :: bytes"
  have "SctpPacket_Parse (\<lambda>_. 0) ?d default_options \<noteq> Nullopt"
    by (simp add: SctpPacket_Parse_def raw_access_defs GenerateCrc32C_def kPacketHeaderSize_def
        kChunkTlvHeaderSize_def kMaxUdpPacketSize_def default_options_def Let_def
        parse_descriptors.simps RoundUpTo4_def)
  then show ?thesis
    using packet_parse_sound[of "\<lambda>_. 0" ?d default_options]
    by (cases "SctpPacket_Parse (\<lambda>_. 0) ?d default_options") auto
qed

end
