(* ===== verification/Handover.thy ===== *)
theory Handover
  imports Dcsctp_Prelude
begin

text \<open>
  The snapshot that moves a socket to another process, \<open>public/dcsctp_handover_state.h\<close>, and the
  bit set of reasons why a snapshot cannot be taken now.  The components fill in and restore their
  own fields.
\<close>

unbundle bit_operations_syntax

section \<open>The snapshot\<close>

datatype HandoverSocketState = HoClosed | HoConnected

record HandoverCapabilities =
  hc_partial_reliability :: bool
  hc_message_interleaving :: bool
  hc_reconfig :: bool
  hc_zero_checksum :: bool
  hc_negotiated_maximum_incoming_streams :: u16
  hc_negotiated_maximum_outgoing_streams :: u16

record HandoverOutgoingStream =
  hos_id :: u32
  hos_next_ssn :: u32
  hos_next_unordered_mid :: u32
  hos_next_ordered_mid :: u32
  hos_priority :: u16

record HandoverTransmission =
  htx_next_tsn :: u32
  htx_next_reset_req_sn :: u32
  htx_cwnd :: u32
  htx_rwnd :: u32
  htx_ssthresh :: u32
  htx_partial_bytes_acked :: u32
  htx_streams :: "HandoverOutgoingStream list"

record HandoverOrderedStream =
  hod_id :: u32
  hod_next_ssn :: u32

record HandoverUnorderedStream =
  hud_id :: u32

record HandoverReceive =
  hrx_seen_packet :: bool
  hrx_last_cumulative_acked_tsn :: u32
  hrx_last_assembled_tsn :: u32
  hrx_last_completed_deferred_reset_req_sn :: u32
  hrx_last_completed_reset_req_sn :: u32
  hrx_ordered_streams :: "HandoverOrderedStream list"
  hrx_unordered_streams :: "HandoverUnorderedStream list"

record HandoverState =
  hs_socket_state :: HandoverSocketState
  hs_my_verification_tag :: u32
  hs_my_initial_tsn :: u32
  hs_peer_verification_tag :: u32
  hs_peer_initial_tsn :: u32
  hs_tie_tag :: u64
  hs_capabilities :: HandoverCapabilities
  hs_tx :: HandoverTransmission
  hs_rx :: HandoverReceive

text \<open>The initial values of the members.\<close>

definition empty_handover_state :: HandoverState where
  "empty_handover_state =
     \<lparr>hs_socket_state = HoClosed, hs_my_verification_tag = 0, hs_my_initial_tsn = 0,
      hs_peer_verification_tag = 0, hs_peer_initial_tsn = 0, hs_tie_tag = 0,
      hs_capabilities =
        \<lparr>hc_partial_reliability = False, hc_message_interleaving = False, hc_reconfig = False,
         hc_zero_checksum = False, hc_negotiated_maximum_incoming_streams = 0,
         hc_negotiated_maximum_outgoing_streams = 0\<rparr>,
      hs_tx =
        \<lparr>htx_next_tsn = 0, htx_next_reset_req_sn = 0, htx_cwnd = 0, htx_rwnd = 0,
         htx_ssthresh = 0, htx_partial_bytes_acked = 0, htx_streams = []\<rparr>,
      hs_rx =
        \<lparr>hrx_seen_packet = False, hrx_last_cumulative_acked_tsn = 0, hrx_last_assembled_tsn = 0,
         hrx_last_completed_deferred_reset_req_sn = 0, hrx_last_completed_reset_req_sn = 0,
         hrx_ordered_streams = [], hrx_unordered_streams = []\<rparr>\<rparr>"

section \<open>Readiness\<close>

datatype HandoverUnreadinessReason =
  kWrongConnectionState | kSendQueueNotEmpty | kPendingStreamResetRequest
  | kDataTrackerTsnBlocksPending | kPendingStreamReset | kReassemblyQueueDeliveredTSNsGap
  | kStreamResetDeferred | kOrderedStreamHasUnassembledChunks
  | kUnorderedStreamHasUnassembledChunks | kRetransmissionQueueOutstandingData
  | kRetransmissionQueueFastRecovery | kRetransmissionQueueNotEmpty

text \<open>The numeric values of the enumeration: distinct powers of two.\<close>

fun reason_bit :: "HandoverUnreadinessReason \<Rightarrow> u32" where
  "reason_bit kWrongConnectionState = 1"
| "reason_bit kSendQueueNotEmpty = 2"
| "reason_bit kPendingStreamResetRequest = 4"
| "reason_bit kDataTrackerTsnBlocksPending = 8"
| "reason_bit kPendingStreamReset = 16"
| "reason_bit kReassemblyQueueDeliveredTSNsGap = 32"
| "reason_bit kStreamResetDeferred = 64"
| "reason_bit kOrderedStreamHasUnassembledChunks = 128"
| "reason_bit kUnorderedStreamHasUnassembledChunks = 256"
| "reason_bit kRetransmissionQueueOutstandingData = 512"
| "reason_bit kRetransmissionQueueFastRecovery = 1024"
| "reason_bit kRetransmissionQueueNotEmpty = 2048"

type_synonym HandoverReadinessStatus = u32

definition ready_status :: HandoverReadinessStatus where
  "ready_status = 0"

definition status_IsReady :: "HandoverReadinessStatus \<Rightarrow> bool" where
  "status_IsReady status = (status = 0)"

definition status_Contains :: "HandoverReadinessStatus \<Rightarrow> HandoverUnreadinessReason \<Rightarrow> bool" where
  "status_Contains status reason = (status AND reason_bit reason \<noteq> 0)"

definition status_Add :: "HandoverReadinessStatus \<Rightarrow> HandoverReadinessStatus \<Rightarrow> HandoverReadinessStatus" where
  "status_Add status other = (status OR other)"

definition status_Add_reason ::
  "HandoverReadinessStatus \<Rightarrow> HandoverUnreadinessReason \<Rightarrow> HandoverReadinessStatus" where
  "status_Add_reason status reason = status_Add status (reason_bit reason)"

lemma reason_bit_nz [simp]: "reason_bit r \<noteq> 0"
  by (cases r) simp_all

lemma status_ready_Add [simp]:
  "status_IsReady ready_status"
  "status_IsReady (status_Add a b) \<longleftrightarrow> status_IsReady a \<and> status_IsReady b"
  "\<not> status_IsReady (status_Add_reason a r)"
  by (simp_all add: status_IsReady_def ready_status_def status_Add_def status_Add_reason_def or_eq_0_iff)

lemma status_Contains_Add [simp]:
  "\<not> status_Contains ready_status r"
  "status_Contains (status_Add a b) r \<longleftrightarrow> status_Contains a r \<or> status_Contains b r"
  by (simp_all add: status_Contains_def ready_status_def status_Add_def bit.conj_disj_distrib2 or_eq_0_iff)

lemma status_Contains_Add_reason [simp]:
  "status_Contains (status_Add_reason a r) s \<longleftrightarrow> s = r \<or> status_Contains a s"
proof -
  have "status_Contains (reason_bit r) s \<longleftrightarrow> s = r"
    unfolding status_Contains_def by (cases r; cases s) simp_all
  then show ?thesis
    unfolding status_Add_reason_def by auto
qed

end
