(* ===== verification/Data_Tracker.thy ===== *)
theory Data_Tracker
  imports Sequence_Numbers Chunks Handover
begin

text \<open>
  The receiver's book-keeping of transmission sequence numbers, \<open>rx/data_tracker.{h,cc}\<close>: the
  blocks received out of order (\<open>AdditionalTsnBlocks\<close>), the cumulative point, duplicates, the
  state machine that decides when to acknowledge, and the SACK that is generated.  The delayed
  acknowledgement timer is represented by whether it is running.
\<close>

section \<open>AdditionalTsnBlocks\<close>

record TsnRange =
  tr_first :: int
  tr_last :: int

definition tsn_range :: "int \<Rightarrow> int \<Rightarrow> TsnRange" where
  "tsn_range f l = \<lparr>tr_first = f, tr_last = l\<rparr>"

text \<open>
  \<open>absl::c_lower_bound\<close> with a predicate that holds on a prefix of the vector splits it there;
  the iterator is the head of the second part.
\<close>

definition Blocks_Add :: "TsnRange list \<Rightarrow> int \<Rightarrow> bool \<times> TsnRange list" where
  "Blocks_Add blocks tsn =
     (let before = takeWhile (\<lambda>elem. next_value (tr_last elem) < tsn) blocks in
      case dropWhile (\<lambda>elem. next_value (tr_last elem) < tsn) blocks of
        [] \<Rightarrow> (True, blocks @ [tsn_range tsn tsn])
      | it # rest \<Rightarrow>
          if tsn \<ge> tr_first it \<and> tsn \<le> tr_last it then (False, blocks)
          else if next_value (tr_last it) = tsn then
            (case rest of
               next_it # rest' \<Rightarrow>
                 if next_value tsn = tr_first next_it
                 then (True, before @ it\<lparr>tr_last := tr_last next_it\<rparr> # rest')
                 else (True, before @ it\<lparr>tr_last := tsn\<rparr> # rest)
             | [] \<Rightarrow> (True, before @ it\<lparr>tr_last := tsn\<rparr> # rest))
          else if tr_first it = next_value tsn then
            (True, before @ it\<lparr>tr_first := tsn\<rparr> # rest)
          else (True, before @ tsn_range tsn tsn # it # rest))"

definition Blocks_EraseTo :: "TsnRange list \<Rightarrow> int \<Rightarrow> TsnRange list" where
  "Blocks_EraseTo blocks tsn =
     (case dropWhile (\<lambda>elem. tr_last elem < tsn) blocks of
        [] \<Rightarrow> []
      | it # rest \<Rightarrow>
          if tsn \<ge> tr_first it then it\<lparr>tr_first := next_value tsn\<rparr> # rest else it # rest)"

definition Blocks_PopFront :: "TsnRange list \<Rightarrow> TsnRange list" where
  "Blocks_PopFront blocks = tl blocks"

section \<open>DataTracker\<close>

datatype AckState = kIdle | kBecomingDelayed | kDelayed | kImmediate

definition kMaxDuplicateTsnReported :: nat where "kMaxDuplicateTsnReported = 20"
definition kMaxGapAckBlocksReported :: nat where "kMaxGapAckBlocksReported = 20"
definition kMaxAcceptedOutstandingFragments :: u32 where "kMaxAcceptedOutstandingFragments = 100000"

record DataTracker =
  dt_seen_packet :: bool
  dt_delayed_ack_timer_running :: bool
  dt_ack_state :: AckState
  dt_tsn_unwrapper :: "32 SeqNumUnwrapper"
  dt_last_cumulative_acked_tsn :: int
  dt_additional_tsn_blocks :: "TsnRange list"
  dt_duplicate_tsns :: "u32 list"

definition new_data_tracker :: "u32 \<Rightarrow> DataTracker" where
  "new_data_tracker peer_initial_tsn =
     (case Unwrap new_unwrapper (peer_initial_tsn - 1) of (cum, unwrapper) \<Rightarrow>
       \<lparr>dt_seen_packet = False, dt_delayed_ack_timer_running = False, dt_ack_state = kIdle,
        dt_tsn_unwrapper = unwrapper, dt_last_cumulative_acked_tsn = cum,
        dt_additional_tsn_blocks = [], dt_duplicate_tsns = []\<rparr>)"

definition UpdateAckState :: "DataTracker \<Rightarrow> AckState \<Rightarrow> DataTracker" where
  "UpdateAckState dt new_state =
     (if new_state \<noteq> dt_ack_state dt then
        (let dt = (if dt_ack_state dt = kDelayed then dt\<lparr>dt_delayed_ack_timer_running := False\<rparr>
                   else if new_state = kDelayed then dt\<lparr>dt_delayed_ack_timer_running := True\<rparr>
                   else dt)
         in dt\<lparr>dt_ack_state := new_state\<rparr>)
      else dt)"

definition IsTSNValid :: "DataTracker \<Rightarrow> u32 \<Rightarrow> bool" where
  "IsTSNValid dt tsn =
     (let unwrapped_tsn = PeekUnwrap (dt_tsn_unwrapper dt) tsn;
          difference = Difference unwrapped_tsn (dt_last_cumulative_acked_tsn dt) :: u32
      in \<not> difference > kMaxAcceptedOutstandingFragments)"

definition insert_duplicate :: "DataTracker \<Rightarrow> int \<Rightarrow> DataTracker" where
  "insert_duplicate dt unwrapped_tsn =
     (if length (dt_duplicate_tsns dt) < kMaxDuplicateTsnReported
      then dt\<lparr>dt_duplicate_tsns := sset_insert (Wrap unwrapped_tsn) (dt_duplicate_tsns dt)\<rparr> else dt)"

text \<open>The cumulative point moves over the first block when that block follows it directly.\<close>

definition advance_over_front :: "DataTracker \<Rightarrow> DataTracker" where
  "advance_over_front dt =
     (case dt_additional_tsn_blocks dt of
        [] \<Rightarrow> dt
      | front # _ \<Rightarrow>
          if tr_first front = next_value (dt_last_cumulative_acked_tsn dt)
          then dt\<lparr>dt_last_cumulative_acked_tsn := tr_last front,
                  dt_additional_tsn_blocks := Blocks_PopFront (dt_additional_tsn_blocks dt)\<rparr>
          else dt)"

text \<open>
  \<open>Observe\<close> in two steps: recording the number (with the duplicate flag), and the rules for the
  acknowledgement.
\<close>

definition observe_tsn :: "DataTracker \<Rightarrow> int \<Rightarrow> bool \<times> DataTracker" where
  "observe_tsn dt unwrapped_tsn =
     (if unwrapped_tsn \<le> dt_last_cumulative_acked_tsn dt
      then (True, UpdateAckState (insert_duplicate dt unwrapped_tsn) kImmediate)
      else if unwrapped_tsn = next_value (dt_last_cumulative_acked_tsn dt)
      then (False, advance_over_front (dt\<lparr>dt_last_cumulative_acked_tsn := unwrapped_tsn\<rparr>))
      else case Blocks_Add (dt_additional_tsn_blocks dt) unwrapped_tsn of (inserted, blocks) \<Rightarrow>
        let dt = dt\<lparr>dt_additional_tsn_blocks := blocks\<rparr>
        in if \<not> inserted then (True, insert_duplicate dt unwrapped_tsn) else (False, dt))"

definition observe_ack_state :: "DataTracker \<Rightarrow> bool \<Rightarrow> DataTracker" where
  "observe_ack_state dt immediate_ack =
     (let dt = (if dt_additional_tsn_blocks dt \<noteq> [] then UpdateAckState dt kImmediate else dt);
          dt = (if immediate_ack then UpdateAckState dt kImmediate else dt);
          dt = (if \<not> dt_seen_packet dt then UpdateAckState (dt\<lparr>dt_seen_packet := True\<rparr>) kImmediate else dt)
      in if dt_ack_state dt = kIdle then UpdateAckState dt kBecomingDelayed
         else if dt_ack_state dt = kDelayed then UpdateAckState dt kImmediate else dt)"

definition Observe :: "DataTracker \<Rightarrow> u32 \<Rightarrow> bool \<Rightarrow> bool \<times> DataTracker" where
  "Observe dt tsn immediate_ack =
     (let (unwrapped_tsn, unwrapper) = Unwrap (dt_tsn_unwrapper dt) tsn;
          (is_duplicate, dt) = observe_tsn (dt\<lparr>dt_tsn_unwrapper := unwrapper\<rparr>) unwrapped_tsn
      in (\<not> is_duplicate, observe_ack_state dt immediate_ack))"

definition HandleForwardTsn :: "DataTracker \<Rightarrow> u32 \<Rightarrow> bool \<times> DataTracker" where
  "HandleForwardTsn dt new_cumulative_ack =
     (let (unwrapped_tsn, unwrapper) = Unwrap (dt_tsn_unwrapper dt) new_cumulative_ack;
          dt = dt\<lparr>dt_tsn_unwrapper := unwrapper\<rparr>
      in if unwrapped_tsn \<le> dt_last_cumulative_acked_tsn dt then (False, UpdateAckState dt kImmediate)
         else let dt = dt\<lparr>dt_last_cumulative_acked_tsn := unwrapped_tsn,
                         dt_additional_tsn_blocks := Blocks_EraseTo (dt_additional_tsn_blocks dt) unwrapped_tsn\<rparr>;
                  dt = advance_over_front dt
           in (True, if dt_ack_state dt = kIdle then UpdateAckState dt kBecomingDelayed
                     else if dt_ack_state dt = kDelayed then UpdateAckState dt kImmediate else dt))"

definition CreateGapAckBlocks :: "DataTracker \<Rightarrow> GapAckBlock list" where
  "CreateGapAckBlocks dt =
     map (\<lambda>b. let start_diff = Difference (tr_first b) (dt_last_cumulative_acked_tsn dt) :: u32;
                  end_diff = Difference (tr_last b) (dt_last_cumulative_acked_tsn dt) :: u32
              in \<lparr>gab_start = ucast start_diff, gab_end = ucast end_diff\<rparr>)
       (take kMaxGapAckBlocksReported (dt_additional_tsn_blocks dt))"

definition CreateSelectiveAck :: "DataTracker \<Rightarrow> u64 \<Rightarrow> chunk \<times> DataTracker" where
  "CreateSelectiveAck dt a_rwnd =
     (let duplicate_tsns = dt_duplicate_tsns dt; dt = dt\<lparr>dt_duplicate_tsns := []\<rparr>
      in (SackChunk (Wrap (dt_last_cumulative_acked_tsn dt)) (ucast a_rwnd)
            (CreateGapAckBlocks dt) duplicate_tsns, dt))"

definition ShouldSendAck :: "DataTracker \<Rightarrow> bool \<Rightarrow> bool \<times> DataTracker" where
  "ShouldSendAck dt also_if_delayed =
     (if dt_ack_state dt = kImmediate
         \<or> also_if_delayed \<and> (dt_ack_state dt = kBecomingDelayed \<or> dt_ack_state dt = kDelayed)
      then (True, UpdateAckState dt kIdle) else (False, dt))"

definition IsLaterThanCumulativeAckedTsn :: "DataTracker \<Rightarrow> u32 \<Rightarrow> bool" where
  "IsLaterThanCumulativeAckedTsn dt tsn =
     (PeekUnwrap (dt_tsn_unwrapper dt) tsn > dt_last_cumulative_acked_tsn dt)"

definition will_increase_cum_ack_tsn :: "DataTracker \<Rightarrow> u32 \<Rightarrow> bool" where
  "will_increase_cum_ack_tsn dt tsn =
     (PeekUnwrap (dt_tsn_unwrapper dt) tsn = next_value (dt_last_cumulative_acked_tsn dt))"

definition ForceImmediateSack :: "DataTracker \<Rightarrow> DataTracker" where
  "ForceImmediateSack dt = dt\<lparr>dt_ack_state := kImmediate\<rparr>"

definition HandleDelayedAckTimerExpiry :: "DataTracker \<Rightarrow> DataTracker" where
  "HandleDelayedAckTimerExpiry dt = UpdateAckState dt kImmediate"

definition ObservePacketEnd :: "DataTracker \<Rightarrow> DataTracker" where
  "ObservePacketEnd dt =
     (if dt_ack_state dt = kBecomingDelayed then UpdateAckState dt kDelayed else dt)"

text \<open>Handover: readiness, and the part of the state that is moved to another instance.\<close>

definition DataTracker_GetHandoverReadiness :: "DataTracker \<Rightarrow> HandoverReadinessStatus" where
  "DataTracker_GetHandoverReadiness dt =
     (if dt_additional_tsn_blocks dt \<noteq> []
      then status_Add_reason ready_status kDataTrackerTsnBlocksPending else ready_status)"

definition DataTracker_AddHandoverState :: "DataTracker \<Rightarrow> HandoverState \<Rightarrow> HandoverState" where
  "DataTracker_AddHandoverState dt state =
     state\<lparr>hs_rx := (hs_rx state)
       \<lparr>hrx_last_cumulative_acked_tsn := Wrap (dt_last_cumulative_acked_tsn dt),
        hrx_seen_packet := dt_seen_packet dt\<rparr>\<rparr>"

definition DataTracker_RestoreFromState :: "DataTracker \<Rightarrow> HandoverState \<Rightarrow> DataTracker" where
  "DataTracker_RestoreFromState dt state =
     (case Unwrap (dt_tsn_unwrapper dt) (hrx_last_cumulative_acked_tsn (hs_rx state)) of
        (cum, unwrapper) \<Rightarrow>
          dt\<lparr>dt_seen_packet := hrx_seen_packet (hs_rx state), dt_tsn_unwrapper := unwrapper,
             dt_last_cumulative_acked_tsn := cum\<rparr>)"

section \<open>Blocks as sets\<close>

definition to_set :: "TsnRange list \<Rightarrow> int set" where
  "to_set bs = (\<Union>b \<in> set bs. {tr_first b..tr_last b})"

definition blocks_ok :: "TsnRange list \<Rightarrow> bool" where
  "blocks_ok bs = (sorted_wrt (\<lambda>a b. tr_last a + 1 < tr_first b) bs \<and> (\<forall>b \<in> set bs. tr_first b \<le> tr_last b))"

lemma to_set_simps [simp]:
  "to_set [] = {}" "to_set (b # bs) = {tr_first b..tr_last b} \<union> to_set bs"
  "to_set (as @ bs) = to_set as \<union> to_set bs"
  by (auto simp: to_set_def)

lemma tsn_range_simps [simp]: "tr_first (tsn_range f l) = f" "tr_last (tsn_range f l) = l"
  by (simp_all add: tsn_range_def)

lemma next_value_simp [simp]: "next_value v = v + 1"
  by (simp add: next_value_def)

lemma blocks_ok_simps [simp]:
  "blocks_ok []"
  "blocks_ok (b # bs) = (tr_first b \<le> tr_last b \<and> (\<forall>c \<in> set bs. tr_last b + 1 < tr_first c) \<and> blocks_ok bs)"
  by (auto simp: blocks_ok_def)

lemma first_in_to_set: "blocks_ok bs \<Longrightarrow> c \<in> set bs \<Longrightarrow> tr_first c \<in> to_set bs"
  by (auto simp: to_set_def blocks_ok_def)

lemma to_set_above:
  "blocks_ok (b # bs) \<Longrightarrow> t \<in> to_set bs \<Longrightarrow> tr_last b + 1 < t"
  by (auto simp: to_set_def)

lemma Blocks_Add_Cons:
  "Blocks_Add (b # bs) t =
     (if tr_last b + 1 < t then (case Blocks_Add bs t of (r, bs') \<Rightarrow> (r, b # bs'))
      else if tr_first b \<le> t \<and> t \<le> tr_last b then (False, b # bs)
      else if tr_last b + 1 = t then
        (case bs of c # cs \<Rightarrow> if t + 1 = tr_first c then (True, b\<lparr>tr_last := tr_last c\<rparr> # cs)
                                else (True, b\<lparr>tr_last := t\<rparr> # bs)
         | [] \<Rightarrow> (True, [b\<lparr>tr_last := t\<rparr>]))
      else if tr_first b = t + 1 then (True, b\<lparr>tr_first := t\<rparr> # bs)
      else (True, tsn_range t t # b # bs))"
proof (cases "tr_last b + 1 < t")
  case True
  obtain d where d: "dropWhile (\<lambda>e. tr_last e + 1 < t) bs = d"
    by blast
  with True show ?thesis
    by (cases d; cases "tl d") (simp_all add: Blocks_Add_def Let_def del: dropWhile_eq_Nil_conv)
next
  case False
  then show ?thesis
    by (cases bs) (simp_all add: Blocks_Add_def Let_def)
qed

lemma Blocks_Add_correct:
  assumes "blocks_ok bs"
  shows "blocks_ok (snd (Blocks_Add bs t)) \<and> to_set (snd (Blocks_Add bs t)) = insert t (to_set bs)
    \<and> (fst (Blocks_Add bs t) \<longleftrightarrow> t \<notin> to_set bs)"
  using assms
proof (induction bs)
  case Nil
  then show ?case by (simp add: Blocks_Add_def)
next
  case (Cons b bs)
  show ?case
  proof (cases "tr_last b + 1 < t")
    case True
    let ?bs' = "snd (Blocks_Add bs t)"
    have IH: "blocks_ok ?bs'" "to_set ?bs' = insert t (to_set bs)" "fst (Blocks_Add bs t) \<longleftrightarrow> t \<notin> to_set bs"
      using Cons by auto
    have "tr_last b + 1 < tr_first c" if "c \<in> set ?bs'" for c
      using first_in_to_set[OF IH(1) that] IH(2) True to_set_above[OF Cons.prems] by auto
    with True IH Cons.prems show ?thesis
      by (auto simp: Blocks_Add_Cons case_prod_beta)
  next
    case False
    have "t \<notin> to_set bs"
      using to_set_above[OF Cons.prems] False by force
    have b: "tr_first b \<le> tr_last b" and above: "\<forall>c \<in> set bs. tr_last b + 1 < tr_first c"
      using Cons.prems by simp_all
    consider (inside) "tr_first b \<le> t" "t \<le> tr_last b" | (right) "t = tr_last b + 1"
      | (left) "t + 1 = tr_first b" | (apart) "t + 1 < tr_first b"
      using False by linarith
    then show ?thesis
    proof cases
      case right
      have grow: "insert t {tr_first b..tr_last b} = {tr_first b..t}"
        using right b by auto
      show ?thesis
      proof (cases "\<exists>c cs. bs = c # cs \<and> t + 1 = tr_first c")
        case True
        then obtain c cs where bs: "bs = c # cs" "t + 1 = tr_first c"
          by blast
        then have "{tr_first b..tr_last c} = insert t {tr_first b..tr_last b} \<union> {tr_first c..tr_last c}"
          unfolding grow using right b Cons.prems by auto
        with bs right b Cons.prems \<open>t \<notin> to_set bs\<close> show ?thesis
          by (simp add: Blocks_Add_Cons Un_assoc)
      next
        case False
        have far: "\<forall>c \<in> set bs. t + 1 < tr_first c"
        proof
          fix d assume d: "d \<in> set bs"
          then obtain c cs where bs: "bs = c # cs"
            by (cases bs) auto
          have "t + 1 < tr_first c"
            using False bs above right by fastforce
          then show "t + 1 < tr_first d"
            using d bs Cons.prems by auto
        qed
        have "Blocks_Add (b # bs) t = (True, b\<lparr>tr_last := t\<rparr> # bs)"
          using False right b by (auto simp: Blocks_Add_Cons split: list.splits)
        moreover have "{tr_first b..t} \<union> to_set bs = insert t ({tr_first b..tr_last b} \<union> to_set bs)"
          using grow by blast
        ultimately show ?thesis
          using far right b Cons.prems \<open>t \<notin> to_set bs\<close> by simp
      qed
    next
      case left
      then have "{t..tr_last b} \<union> to_set bs = insert t ({tr_first b..tr_last b} \<union> to_set bs)"
        using b by auto
      with left b above Cons.prems \<open>t \<notin> to_set bs\<close> show ?thesis
        by (simp add: Blocks_Add_Cons)
    next
      case apart
      then have "\<forall>c \<in> set bs. t + 1 < tr_first c"
        using b above by fastforce
      with apart b Cons.prems \<open>t \<notin> to_set bs\<close> show ?thesis
        by (simp add: Blocks_Add_Cons)
    next
      case inside
      with Cons.prems show ?thesis
        by (auto simp: Blocks_Add_Cons)
    qed
  qed
qed


text \<open>
  \<open>EraseTo\<close> leaves an empty block behind when the erased prefix ends exactly at the end of a
  block; \<open>advance_over_front\<close> then removes it.  So the two are described together.
\<close>

definition front_ok :: "int \<Rightarrow> TsnRange list \<Rightarrow> bool" where
  "front_ok cum bs = (sorted_wrt (\<lambda>a b. tr_last a + 1 < tr_first b) bs
     \<and> (\<forall>b \<in> set bs. cum < tr_first b \<and> cum \<le> tr_last b)
     \<and> (\<forall>b \<in> set bs. tr_first b \<le> tr_last b \<or> tr_first b = cum + 1))"

lemma EraseTo_props:
  assumes "blocks_ok bs"
  shows "front_ok t (Blocks_EraseTo bs t)" "{..t} \<union> to_set (Blocks_EraseTo bs t) = {..t} \<union> to_set bs"
proof -
  have "front_ok t (Blocks_EraseTo bs t) \<and> {..t} \<union> to_set (Blocks_EraseTo bs t) = {..t} \<union> to_set bs"
    using assms
  proof (induction bs)
    case Nil
    show ?case by (simp add: Blocks_EraseTo_def front_ok_def)
  next
    case (Cons b bs)
    then have b: "tr_first b \<le> tr_last b" "\<forall>c \<in> set bs. tr_last b + 1 < tr_first c"
      "\<forall>c \<in> set bs. tr_first c \<le> tr_last c" "sorted_wrt (\<lambda>a b. tr_last a + 1 < tr_first b) bs"
      by (auto simp: blocks_ok_def)
    show ?case
    proof (cases "tr_last b < t")
      case True
      then have "{..t} \<union> ({tr_first b..tr_last b} \<union> to_set bs) = {..t} \<union> to_set bs"
        by auto
      with True Cons show ?thesis by (simp add: Blocks_EraseTo_def)
    next
      case False
      have far: "\<forall>c \<in> set bs. t < tr_first c \<and> t \<le> tr_last c"
        using False b(2,3) by fastforce
      have "{..t} \<union> ({t + 1..tr_last b} \<union> to_set bs) = {..t} \<union> ({tr_first b..tr_last b} \<union> to_set bs)"
        if "tr_first b \<le> t" using that by auto
      with False b far show ?thesis
        by (auto simp: Blocks_EraseTo_def front_ok_def)
    qed
  qed
  then show "front_ok t (Blocks_EraseTo bs t)" "{..t} \<union> to_set (Blocks_EraseTo bs t) = {..t} \<union> to_set bs"
    by simp_all
qed

section \<open>Invariant and abstraction\<close>

definition received :: "DataTracker \<Rightarrow> int set" where
  "received dt = {..dt_last_cumulative_acked_tsn dt} \<union> to_set (dt_additional_tsn_blocks dt)"

definition tracker_ok :: "DataTracker \<Rightarrow> bool" where
  "tracker_ok dt = (blocks_ok (dt_additional_tsn_blocks dt)
     \<and> (\<forall>b \<in> set (dt_additional_tsn_blocks dt). dt_last_cumulative_acked_tsn dt + 1 < tr_first b)
     \<and> unwrapper_ok (dt_tsn_unwrapper dt)
     \<and> sorted_wrt (<) (dt_duplicate_tsns dt) \<and> length (dt_duplicate_tsns dt) \<le> kMaxDuplicateTsnReported)"

lemma advance_over_front_props:
  assumes "front_ok (dt_last_cumulative_acked_tsn dt) (dt_additional_tsn_blocks dt)"
    and "unwrapper_ok (dt_tsn_unwrapper dt)" "sorted_wrt (<) (dt_duplicate_tsns dt)"
    and "length (dt_duplicate_tsns dt) \<le> kMaxDuplicateTsnReported"
  shows "tracker_ok (advance_over_front dt)" "received (advance_over_front dt) = received dt"
proof -
  define cum where "cum = dt_last_cumulative_acked_tsn dt"
  have "tracker_ok (advance_over_front dt) \<and> received (advance_over_front dt) = received dt"
  proof (cases "dt_additional_tsn_blocks dt")
    case Nil
    with assms show ?thesis
      by (simp add: advance_over_front_def tracker_ok_def)
  next
    case (Cons b bs)
    have b: "cum < tr_first b" "cum \<le> tr_last b" "tr_first b \<le> tr_last b \<or> tr_first b = cum + 1"
      "\<forall>c \<in> set bs. tr_last b + 1 < tr_first c" "sorted_wrt (\<lambda>a b. tr_last a + 1 < tr_first b) bs"
      using assms(1) Cons by (auto simp: front_ok_def cum_def)
    have bs: "blocks_ok bs"
      using assms(1) Cons b by (force simp: front_ok_def cum_def blocks_ok_def)
    show ?thesis
    proof (cases "tr_first b = cum + 1")
      case True
      have "{..tr_last b} \<union> to_set bs = {..cum} \<union> ({cum + 1..tr_last b} \<union> to_set bs)"
        using b(2) by auto
      with True Cons b bs assms(2-4) show ?thesis
        by (simp add: advance_over_front_def cum_def tracker_ok_def received_def Blocks_PopFront_def)
    next
      case False
      with Cons b bs assms(2-4) show ?thesis
        by (auto simp: advance_over_front_def cum_def tracker_ok_def received_def)
    qed
  qed
  then show "tracker_ok (advance_over_front dt)" "received (advance_over_front dt) = received dt"
    by simp_all
qed

lemma UpdateAckState_frame [simp]:
  "dt_additional_tsn_blocks (UpdateAckState dt s) = dt_additional_tsn_blocks dt"
  "dt_last_cumulative_acked_tsn (UpdateAckState dt s) = dt_last_cumulative_acked_tsn dt"
  "dt_tsn_unwrapper (UpdateAckState dt s) = dt_tsn_unwrapper dt"
  "dt_duplicate_tsns (UpdateAckState dt s) = dt_duplicate_tsns dt"
  "dt_seen_packet (UpdateAckState dt s) = dt_seen_packet dt"
  "dt_ack_state (UpdateAckState dt s) = s"
  by (auto simp: UpdateAckState_def Let_def)

lemma tracker_ok_UpdateAckState [simp]:
  "tracker_ok (UpdateAckState dt s) = tracker_ok dt" "received (UpdateAckState dt s) = received dt"
  by (simp_all add: tracker_ok_def received_def)


lemma insert_duplicate_frame [simp]:
  "dt_additional_tsn_blocks (insert_duplicate dt t) = dt_additional_tsn_blocks dt"
  "dt_last_cumulative_acked_tsn (insert_duplicate dt t) = dt_last_cumulative_acked_tsn dt"
  "dt_tsn_unwrapper (insert_duplicate dt t) = dt_tsn_unwrapper dt"
  "received (insert_duplicate dt t) = received dt"
  by (simp_all add: insert_duplicate_def received_def)

lemma length_sset_insert: "length (sset_insert x ys) \<le> Suc (length ys)"
  by (induction ys) auto

lemma tracker_ok_insert_duplicate: "tracker_ok dt \<Longrightarrow> tracker_ok (insert_duplicate dt t)"
  using length_sset_insert[of "Wrap t" "dt_duplicate_tsns dt"]
  by (auto simp: tracker_ok_def insert_duplicate_def)

lemma observe_tsn_props:
  assumes "tracker_ok dt"
  shows "tracker_ok (snd (observe_tsn dt t))" "received (snd (observe_tsn dt t)) = insert t (received dt)"
    "fst (observe_tsn dt t) \<longleftrightarrow> t \<in> received dt"
proof -
  define cum bs where "cum = dt_last_cumulative_acked_tsn dt" and "bs = dt_additional_tsn_blocks dt"
  have ok: "blocks_ok bs" "\<forall>b \<in> set bs. cum + 1 < tr_first b"
    using assms by (simp_all add: tracker_ok_def bs_def cum_def)
  have above: "x \<in> to_set bs \<Longrightarrow> cum + 1 < x" for x
    using ok(2) by (auto simp: to_set_def)
  consider "t \<le> cum" | "t = cum + 1" | "cum + 1 < t" by linarith
  then have "tracker_ok (snd (observe_tsn dt t)) \<and> received (snd (observe_tsn dt t)) = insert t (received dt)
    \<and> (fst (observe_tsn dt t) \<longleftrightarrow> t \<in> received dt)"
  proof cases
    case 1
    then show ?thesis
      using assms tracker_ok_insert_duplicate
      by (auto simp: observe_tsn_def cum_def received_def)
  next
    case 2
    let ?dt = "dt\<lparr>dt_last_cumulative_acked_tsn := t\<rparr>"
    have "\<forall>b \<in> set bs. t < tr_first b \<and> t \<le> tr_last b"
      using ok 2 by (fastforce simp: blocks_ok_def)
    then have "front_ok t bs"
      using ok(1) by (simp add: front_ok_def blocks_ok_def)
    then have "tracker_ok (advance_over_front ?dt)" "received (advance_over_front ?dt) = received ?dt"
      using assms by (intro advance_over_front_props; simp add: bs_def tracker_ok_def)+
    moreover have "received ?dt = insert t (received dt)"
      using 2 by (auto simp: received_def cum_def)
    ultimately show ?thesis
      using 2 above[of t] by (auto simp: observe_tsn_def cum_def received_def bs_def)
  next
    case 3
    obtain inserted bs' where add: "Blocks_Add bs t = (inserted, bs')"
      by fastforce
    note spec = Blocks_Add_correct[OF ok(1), of t, unfolded add fst_conv snd_conv]
    have "cum + 1 < tr_first b" if "b \<in> set bs'" for b
      using first_in_to_set[of bs' b] that spec 3 above by auto
    then have "tracker_ok (dt\<lparr>dt_additional_tsn_blocks := bs'\<rparr>)"
      using assms spec by (simp add: tracker_ok_def cum_def)
    then show ?thesis
      using 3 spec add tracker_ok_insert_duplicate
      by (auto simp: observe_tsn_def cum_def bs_def received_def Let_def)
  qed
  then show "tracker_ok (snd (observe_tsn dt t))" "received (snd (observe_tsn dt t)) = insert t (received dt)"
    "fst (observe_tsn dt t) \<longleftrightarrow> t \<in> received dt"
    by simp_all
qed

lemma tracker_ok_seen [simp]:
  "tracker_ok (dt\<lparr>dt_seen_packet := b\<rparr>) = tracker_ok dt" "received (dt\<lparr>dt_seen_packet := b\<rparr>) = received dt"
  by (simp_all add: tracker_ok_def received_def)

lemma observe_ack_state_frame [simp]:
  "tracker_ok (observe_ack_state dt i) = tracker_ok dt" "received (observe_ack_state dt i) = received dt"
  by (simp_all add: observe_ack_state_def Let_def)

lemma tracker_ok_unwrapper [simp]:
  "tracker_ok dt \<Longrightarrow> unwrapper_ok u \<Longrightarrow> tracker_ok (dt\<lparr>dt_tsn_unwrapper := u\<rparr>)"
  "received (dt\<lparr>dt_tsn_unwrapper := u\<rparr>) = received dt"
  by (simp_all add: tracker_ok_def received_def)

lemma Unwrap_pair: "Unwrap u v = (PeekUnwrap u v, snd (Unwrap u v))"
  using fst_Unwrap[of u v] by (metis prod.collapse)

lemma Observe_props:
  fixes tsn :: u32 and dt :: DataTracker
  assumes "tracker_ok dt"
  defines "t \<equiv> PeekUnwrap (dt_tsn_unwrapper dt) tsn"
  shows "tracker_ok (snd (Observe dt tsn i))" "received (snd (Observe dt tsn i)) = insert t (received dt)"
    "fst (Observe dt tsn i) \<longleftrightarrow> t \<notin> received dt"
proof -
  define u where "u = snd (Unwrap (dt_tsn_unwrapper dt) tsn)"
  have u: "Unwrap (dt_tsn_unwrapper dt) tsn = (t, u)" "unwrapper_ok u"
    using assms(1) Unwrap_pair[of "dt_tsn_unwrapper dt" tsn, folded t_def u_def]
      unwrapper_ok_Unwrap[of "dt_tsn_unwrapper dt" tsn, folded u_def]
    by (simp_all only: tracker_ok_def)
  then have "tracker_ok (dt\<lparr>dt_tsn_unwrapper := u\<rparr>)"
    using assms(1) by simp
  from observe_tsn_props[OF this, of t] u
  show "tracker_ok (snd (Observe dt tsn i))" "received (snd (Observe dt tsn i)) = insert t (received dt)"
    "fst (Observe dt tsn i) \<longleftrightarrow> t \<notin> received dt"
    by (simp_all add: Observe_def Let_def case_prod_beta)
qed

lemma HandleForwardTsn_props:
  fixes tsn :: u32 and dt :: DataTracker
  assumes "tracker_ok dt"
  defines "t \<equiv> PeekUnwrap (dt_tsn_unwrapper dt) tsn"
  shows "tracker_ok (snd (HandleForwardTsn dt tsn))"
    "received (snd (HandleForwardTsn dt tsn)) = {..t} \<union> received dt"
    "fst (HandleForwardTsn dt tsn) \<longleftrightarrow> t > dt_last_cumulative_acked_tsn dt"
proof -
  define u where "u = snd (Unwrap (dt_tsn_unwrapper dt) tsn)"
  define dt1 where "dt1 = dt\<lparr>dt_tsn_unwrapper := u, dt_last_cumulative_acked_tsn := t,
      dt_additional_tsn_blocks := Blocks_EraseTo (dt_additional_tsn_blocks dt) t\<rparr>"
  have u: "Unwrap (dt_tsn_unwrapper dt) tsn = (t, u)" "unwrapper_ok u"
    using assms(1) Unwrap_pair[of "dt_tsn_unwrapper dt" tsn, folded t_def u_def]
      unwrapper_ok_Unwrap[of "dt_tsn_unwrapper dt" tsn, folded u_def]
    by (simp_all only: tracker_ok_def)
  have "blocks_ok (dt_additional_tsn_blocks dt)"
    using assms(1) by (simp add: tracker_ok_def)
  note er = EraseTo_props[OF this, of t]
  have adv: "tracker_ok (advance_over_front dt1)" "received (advance_over_front dt1) = received dt1"
    using assms(1) er(1) u(2)
    by (intro advance_over_front_props; simp add: dt1_def tracker_ok_def)+
  have rec: "received dt1 = {..t} \<union> received dt" if "t > dt_last_cumulative_acked_tsn dt"
  proof -
    have "{..t} \<union> received dt = {..t} \<union> to_set (dt_additional_tsn_blocks dt)"
      using that by (auto simp: received_def)
    also have "\<dots> = received dt1"
      unfolding er(2)[symmetric] by (simp add: received_def dt1_def)
    finally show ?thesis by (rule sym)
  qed
  have "tracker_ok (snd (HandleForwardTsn dt tsn))
    \<and> received (snd (HandleForwardTsn dt tsn)) = {..t} \<union> received dt
    \<and> (fst (HandleForwardTsn dt tsn) \<longleftrightarrow> t > dt_last_cumulative_acked_tsn dt)"
  proof (cases "t \<le> dt_last_cumulative_acked_tsn dt")
    case True
    then have "{..t} \<union> received dt = received dt"
      by (auto simp: received_def)
    with True assms(1) u show ?thesis
      by (simp add: HandleForwardTsn_def)
  next
    case False
    define dt2 where "dt2 = advance_over_front dt1"
    have "HandleForwardTsn dt tsn =
        (True, if dt_ack_state dt2 = kIdle then UpdateAckState dt2 kBecomingDelayed
               else if dt_ack_state dt2 = kDelayed then UpdateAckState dt2 kImmediate else dt2)"
      using False u(1) by (simp add: HandleForwardTsn_def Let_def dt1_def dt2_def)
    with False adv rec show ?thesis
      by (simp add: dt2_def[symmetric])
  qed
  then show "tracker_ok (snd (HandleForwardTsn dt tsn))"
    "received (snd (HandleForwardTsn dt tsn)) = {..t} \<union> received dt"
    "fst (HandleForwardTsn dt tsn) \<longleftrightarrow> t > dt_last_cumulative_acked_tsn dt"
    by simp_all
qed


section \<open>Reachable states\<close>

text \<open>
  The states a tracker goes through: the operations in any order, with \<open>Observe\<close> called for valid
  numbers only, as the class demands.
\<close>

inductive tracker_reachable :: "u32 \<Rightarrow> DataTracker \<Rightarrow> bool" for peer_initial_tsn where
  init: "tracker_reachable peer_initial_tsn (new_data_tracker peer_initial_tsn)"
| observe: "\<lbrakk>tracker_reachable peer_initial_tsn dt; IsTSNValid dt tsn\<rbrakk>
    \<Longrightarrow> tracker_reachable peer_initial_tsn (snd (Observe dt tsn i))"
| packet_end: "tracker_reachable peer_initial_tsn dt \<Longrightarrow> tracker_reachable peer_initial_tsn (ObservePacketEnd dt)"
| forward: "tracker_reachable peer_initial_tsn dt
    \<Longrightarrow> tracker_reachable peer_initial_tsn (snd (HandleForwardTsn dt tsn))"
| ack: "tracker_reachable peer_initial_tsn dt
    \<Longrightarrow> tracker_reachable peer_initial_tsn (snd (ShouldSendAck dt d))"
| sack: "tracker_reachable peer_initial_tsn dt
    \<Longrightarrow> tracker_reachable peer_initial_tsn (snd (CreateSelectiveAck dt a_rwnd))"
| expiry: "\<lbrakk>tracker_reachable peer_initial_tsn dt; dt_delayed_ack_timer_running dt\<rbrakk>
    \<Longrightarrow> tracker_reachable peer_initial_tsn (HandleDelayedAckTimerExpiry dt)"
| force: "tracker_reachable peer_initial_tsn dt \<Longrightarrow> tracker_reachable peer_initial_tsn (ForceImmediateSack dt)"

inductive_cases tracker_reachableE: "tracker_reachable p dt"

definition delayed_has_timer :: "DataTracker \<Rightarrow> bool" where
  "delayed_has_timer dt = (dt_ack_state dt = kDelayed \<longrightarrow> dt_delayed_ack_timer_running dt)"

lemma delayed_has_timer_Update [simp]: "delayed_has_timer dt \<Longrightarrow> delayed_has_timer (UpdateAckState dt s)"
  by (auto simp: delayed_has_timer_def UpdateAckState_def Let_def)

lemma delayed_has_timer_frame [simp]:
  "delayed_has_timer (dt\<lparr>dt_seen_packet := b\<rparr>) = delayed_has_timer dt"
  "delayed_has_timer (dt\<lparr>dt_tsn_unwrapper := u\<rparr>) = delayed_has_timer dt"
  "delayed_has_timer (dt\<lparr>dt_duplicate_tsns := ds\<rparr>) = delayed_has_timer dt"
  "delayed_has_timer (dt\<lparr>dt_additional_tsn_blocks := bs\<rparr>) = delayed_has_timer dt"
  "delayed_has_timer (dt\<lparr>dt_last_cumulative_acked_tsn := c\<rparr>) = delayed_has_timer dt"
  "delayed_has_timer (advance_over_front dt) = delayed_has_timer dt"
  "delayed_has_timer (insert_duplicate dt t) = delayed_has_timer dt"
  by (simp_all add: delayed_has_timer_def advance_over_front_def insert_duplicate_def split: list.splits)

lemma delayed_has_timer_ops [simp]:
  assumes "delayed_has_timer dt"
  shows "delayed_has_timer (observe_ack_state dt i)" "delayed_has_timer (snd (observe_tsn dt t))"
    "delayed_has_timer (snd (Observe dt tsn i))" "delayed_has_timer (snd (HandleForwardTsn dt tsn))"
    "delayed_has_timer (snd (ShouldSendAck dt d))" "delayed_has_timer (snd (CreateSelectiveAck dt a))"
    "delayed_has_timer (HandleDelayedAckTimerExpiry dt)" "delayed_has_timer (ForceImmediateSack dt)"
    "delayed_has_timer (ObservePacketEnd dt)"
proof -
  have ack: "delayed_has_timer d \<Longrightarrow> delayed_has_timer (observe_ack_state d i)" for d
    by (simp add: observe_ack_state_def Let_def)
  have tsn: "delayed_has_timer d \<Longrightarrow> delayed_has_timer (snd (observe_tsn d t))" for d t
    by (simp add: observe_tsn_def Let_def split: prod.split)
  show "delayed_has_timer (observe_ack_state dt i)" "delayed_has_timer (snd (observe_tsn dt t))"
    "delayed_has_timer (snd (Observe dt tsn i))" "delayed_has_timer (snd (HandleForwardTsn dt tsn))"
    "delayed_has_timer (snd (ShouldSendAck dt d))" "delayed_has_timer (snd (CreateSelectiveAck dt a))"
    "delayed_has_timer (HandleDelayedAckTimerExpiry dt)" "delayed_has_timer (ForceImmediateSack dt)"
    "delayed_has_timer (ObservePacketEnd dt)"
    using assms ack tsn
    by (simp_all add: Observe_def HandleForwardTsn_def ShouldSendAck_def CreateSelectiveAck_def
        HandleDelayedAckTimerExpiry_def ObservePacketEnd_def Let_def case_prod_beta)
      (simp add: ForceImmediateSack_def delayed_has_timer_def)
qed

lemma tracker_ok_new: "tracker_ok (new_data_tracker p)" "delayed_has_timer (new_data_tracker p)"
  using unwrapper_ok_Unwrap[of new_unwrapper "p - 1"]
  by (simp_all add: new_data_tracker_def tracker_ok_def delayed_has_timer_def case_prod_beta)

lemma tracker_reachable_ok: "tracker_reachable p dt \<Longrightarrow> tracker_ok dt \<and> delayed_has_timer dt"
proof (induction rule: tracker_reachable.induct)
  case init
  show ?case by (simp add: tracker_ok_new)
next
  case (packet_end dt)
  then show ?case by (simp add: ObservePacketEnd_def)
next
  case (ack dt d)
  then show ?case by (simp add: ShouldSendAck_def)
next
  case (sack dt a)
  then show ?case by (simp add: CreateSelectiveAck_def tracker_ok_def Let_def)
next
  case (expiry dt)
  then show ?case by (simp add: HandleDelayedAckTimerExpiry_def)
next
  case (force dt)
  moreover have "tracker_ok (ForceImmediateSack dt)"
    using force by (simp add: ForceImmediateSack_def tracker_ok_def)
  ultimately show ?case by simp
qed (simp_all add: Observe_props HandleForwardTsn_props)


lemma observe_ack_state_pending: "dt_ack_state (observe_ack_state dt i) \<in> {kBecomingDelayed, kImmediate}"
  by (cases "dt_ack_state dt") (simp_all add: observe_ack_state_def Let_def)

lemma observe_ack_state_immediate:
  "dt_ack_state dt \<in> {kDelayed, kImmediate} \<Longrightarrow> dt_ack_state (observe_ack_state dt i) = kImmediate"
  by (auto simp: observe_ack_state_def Let_def)

lemma observe_tsn_ack_state: "dt_ack_state (snd (observe_tsn dt t)) \<in> {dt_ack_state dt, kImmediate}"
  by (auto simp: observe_tsn_def insert_duplicate_def advance_over_front_def Let_def split: prod.split list.split)

lemma Observe_pending: "dt_ack_state (snd (Observe dt tsn i)) \<in> {kBecomingDelayed, kImmediate}"
  using observe_ack_state_pending by (simp add: Observe_def Let_def case_prod_beta)

lemma Observe_when_delayed:
  assumes "dt_ack_state dt \<in> {kDelayed, kImmediate}"
  shows "dt_ack_state (snd (Observe dt tsn i)) = kImmediate"
proof -
  let ?u = "Unwrap (dt_tsn_unwrapper dt) tsn"
  have "dt_ack_state (snd (observe_tsn (dt\<lparr>dt_tsn_unwrapper := snd ?u\<rparr>) (fst ?u))) \<in> {kDelayed, kImmediate}"
    using observe_tsn_ack_state[of "dt\<lparr>dt_tsn_unwrapper := snd ?u\<rparr>" "fst ?u"] assms by auto
  from observe_ack_state_immediate[OF this] show ?thesis
    by (simp add: Observe_def Let_def case_prod_beta)
qed

section \<open>Properties\<close>

text \<open>
  C9.  The tracker is the set of received numbers.  In every reachable state \<open>Observe\<close> reports a
  number as new exactly when it was not received before and adds exactly that number; a forward
  request adds exactly the numbers up to its argument; and the cumulative point is the end of the
  contiguous prefix: everything up to it was received and its successor was not.
\<close>

theorem tracker_refines_set:
  assumes "tracker_reachable p dt"
  shows "(fst (Observe dt tsn i) \<longleftrightarrow> PeekUnwrap (dt_tsn_unwrapper dt) tsn \<notin> received dt)
    \<and> received (snd (Observe dt tsn i)) = insert (PeekUnwrap (dt_tsn_unwrapper dt) tsn) (received dt)
    \<and> received (snd (HandleForwardTsn dt tsn)) = {..PeekUnwrap (dt_tsn_unwrapper dt) tsn} \<union> received dt
    \<and> {..dt_last_cumulative_acked_tsn dt} \<subseteq> received dt
    \<and> dt_last_cumulative_acked_tsn dt + 1 \<notin> received dt"
proof -
  have ok: "tracker_ok dt"
    using tracker_reachable_ok[OF assms] by simp
  then have "dt_last_cumulative_acked_tsn dt + 1 \<notin> to_set (dt_additional_tsn_blocks dt)"
    by (fastforce simp: tracker_ok_def to_set_def)
  then show ?thesis
    using Observe_props[OF ok] HandleForwardTsn_props[OF ok] by (simp add: received_def)
qed

theorem tracker_refines_set_witness:
  "fst (Observe (snd (Observe (new_data_tracker 1) 3 False)) 2 False)
   \<and> \<not> fst (Observe (snd (Observe (new_data_tracker 1) 3 False)) 3 False)"
proof -
  let ?dt = "snd (Observe (new_data_tracker 1) 3 False)"
  have valid: "IsTSNValid (new_data_tracker 1) 3"
    by code_simp
  have r: "tracker_reachable 1 ?dt"
    by (rule tracker_reachable.observe[OF tracker_reachable.init valid])
  have "dt_last_cumulative_acked_tsn ?dt = 0" "dt_additional_tsn_blocks ?dt = [tsn_range 3 3]"
    "PeekUnwrap (dt_tsn_unwrapper ?dt) 2 = 2" "PeekUnwrap (dt_tsn_unwrapper ?dt) 3 = 3"
    by code_simp+
  then have "2 \<notin> received ?dt" "3 \<in> received ?dt" "PeekUnwrap (dt_tsn_unwrapper ?dt) 2 = 2"
    "PeekUnwrap (dt_tsn_unwrapper ?dt) 3 = 3"
    by (simp_all add: received_def)
  then show ?thesis
    using tracker_refines_set[OF r, of 2 False] tracker_refines_set[OF r, of 3 False] by simp
qed


text \<open>
  C20.  Data is acknowledged at the latest with every second packet.  After the end of a packet
  with a DATA chunk, either a SACK is due at once, or the tracker waits with its timer running and
  the next DATA chunk makes a SACK due.
\<close>

theorem tracker_acks_every_second_packet:
  assumes "tracker_reachable p dt" "dt1 = ObservePacketEnd (snd (Observe dt tsn1 i1))"
  shows "fst (ShouldSendAck dt1 False)
    \<or> dt_ack_state dt1 = kDelayed \<and> dt_delayed_ack_timer_running dt1
      \<and> fst (ShouldSendAck (snd (Observe dt1 tsn2 i2)) False)"
proof -
  have timer: "delayed_has_timer dt1"
    using tracker_reachable_ok[OF assms(1)] by (simp add: assms(2))
  have "dt_ack_state dt1 \<in> {kDelayed, kImmediate}"
    using Observe_pending[of dt tsn1 i1] by (auto simp: assms(2) ObservePacketEnd_def)
  then show ?thesis
    using timer Observe_when_delayed[of dt1 tsn2 i2]
    by (auto simp: ShouldSendAck_def delayed_has_timer_def)
qed

theorem tracker_acks_every_second_packet_witness:
  "fst (ShouldSendAck (ObservePacketEnd (snd (Observe (new_data_tracker 1) 1 False))) False)
   \<or> dt_ack_state (ObservePacketEnd (snd (Observe (new_data_tracker 1) 1 False))) = kDelayed
     \<and> dt_delayed_ack_timer_running (ObservePacketEnd (snd (Observe (new_data_tracker 1) 1 False)))
     \<and> fst (ShouldSendAck (snd (Observe (ObservePacketEnd (snd (Observe (new_data_tracker 1) 1 False))) 2 False)) False)"
  by (rule tracker_acks_every_second_packet[OF tracker_reachable.init refl])



end
