(* ===== verification/Chunk_Validators.thy ===== *)
theory Chunk_Validators
  imports Data_Tracker "HOL-Library.Multiset"
begin

text \<open>
  Validation and repair of received SACK chunks, \<open>packet/chunk_validators.{h,cc}\<close>.  Sums of 16-bit
  fields are evaluated in \<open>int\<close> and do not wrap.
\<close>

section \<open>Definitions\<close>

fun Validate_loop :: "nat \<Rightarrow> GapAckBlock list \<Rightarrow> bool" where
  "Validate_loop prev_end [] = True"
| "Validate_loop prev_end (b # bs) =
     (if gab_end b < gab_start b then False
      else if unat (gab_start b) \<le> prev_end + 1 then False
      else Validate_loop (unat (gab_end b)) bs)"

definition Validate_blocks :: "GapAckBlock list \<Rightarrow> bool" where
  "Validate_blocks gap_ack_blocks = (if gap_ack_blocks = [] then True else Validate_loop 0 gap_ack_blocks)"

text \<open>\<open>merge_loop\<close> runs over the remaining sorted blocks; its first argument is \<open>merged.back()\<close>.\<close>

fun merge_loop :: "GapAckBlock \<Rightarrow> GapAckBlock list \<Rightarrow> GapAckBlock list" where
  "merge_loop bk [] = [bk]"
| "merge_loop bk (b # bs) =
     (if unat (gab_end bk) + 1 \<ge> unat (gab_start b)
      then merge_loop (bk\<lparr>gab_end := max (gab_end bk) (gab_end b)\<rparr>) bs
      else bk # merge_loop b bs)"

definition Clean_blocks :: "GapAckBlock list \<Rightarrow> GapAckBlock list" where
  "Clean_blocks gap_ack_blocks =
     (if Validate_blocks gap_ack_blocks then gap_ack_blocks
      else let kept = filter (\<lambda>b. gab_end b > gab_start b) gap_ack_blocks in
        if length kept \<le> 1 then kept
        else case sort_key gab_start kept of [] \<Rightarrow> [] | first # rest \<Rightarrow> merge_loop first rest)"

fun Clean_sack :: "chunk \<Rightarrow> chunk" where
  "Clean_sack (SackChunk cum a_rwnd gaps dups) = SackChunk cum a_rwnd (Clean_blocks gaps) dups"
| "Clean_sack c = c"

section \<open>Blocks as intervals\<close>

definition range_of :: "GapAckBlock \<Rightarrow> TsnRange" where
  "range_of b = tsn_range (uint (gab_start b)) (uint (gab_end b))"

definition gaps_set :: "GapAckBlock list \<Rightarrow> int set" where
  "gaps_set gs = to_set (map range_of gs)"

definition gaps_ok :: "GapAckBlock list \<Rightarrow> bool" where
  "gaps_ok gs = blocks_ok (map range_of gs)"

lemma range_of_simps [simp]:
  "tr_first (range_of b) = uint (gab_start b)" "tr_last (range_of b) = uint (gab_end b)"
  by (simp_all add: range_of_def)

lemma uint_unat_nat: "uint w = int (unat w)"
  by simp

lemma Validate_loop_ok:
  "Validate_loop p gs \<longleftrightarrow> gaps_ok gs \<and> (\<forall>g \<in> set gs. int p + 1 < uint (gab_start g))"
proof (induction gs arbitrary: p)
  case Nil
  then show ?case by (simp add: gaps_ok_def)
next
  case (Cons g gs)
  have "(\<forall>x \<in> set gs. uint (gab_end g) + 1 < uint (gab_start x)) \<Longrightarrow> int p + 1 < uint (gab_start g)
      \<Longrightarrow> uint (gab_start g) \<le> uint (gab_end g) \<Longrightarrow> \<forall>x \<in> set gs. int p + 1 < uint (gab_start x)"
    by force
  then show ?case
    by (auto simp: Cons.IH gaps_ok_def word_less_def not_less uint_unat_nat[of "gab_start g"]
        uint_unat_nat[of "gab_end g"] simp del: of_nat_unat)
qed

lemma merge_loop_props:
  assumes "uint (gab_start bk) \<le> uint (gab_end bk)"
    and "\<forall>b \<in> set bs. gab_start b \<le> gab_end b \<and> gab_start bk \<le> gab_start b"
    and "sorted (map gab_start bs)"
  shows "gaps_ok (merge_loop bk bs) \<and> gaps_set (merge_loop bk bs) = gaps_set (bk # bs)
    \<and> (\<forall>g \<in> set (merge_loop bk bs). gab_start bk \<le> gab_start g)"
  using assms
proof (induction bs arbitrary: bk)
  case Nil
  then show ?case by (simp add: gaps_ok_def gaps_set_def)
next
  case (Cons b bs)
  show ?case
  proof (cases "unat (gab_end bk) + 1 \<ge> unat (gab_start b)")
    case True
    let ?m = "bk\<lparr>gab_end := max (gab_end bk) (gab_end b)\<rparr>"
    have "uint (gab_start b) \<le> uint (gab_end bk) + 1" "uint (gab_start bk) \<le> uint (gab_start b)"
        "uint (gab_start b) \<le> uint (gab_end b)"
      using True Cons.prems(2) by (auto simp: word_le_def uint_unat_nat simp del: of_nat_unat)
    then have "{uint (gab_start bk)..uint (gab_end ?m)} =
        {uint (gab_start bk)..uint (gab_end bk)} \<union> {uint (gab_start b)..uint (gab_end b)}"
      using Cons.prems(1) by (auto simp: max_def word_le_def)
    moreover have "uint (gab_start ?m) \<le> uint (gab_end ?m)"
      using Cons.prems(1) by (auto simp: max_def word_le_def)
    ultimately show ?thesis
      using True Cons.prems Cons.IH[of ?m] by (simp add: gaps_set_def Un_assoc)
  next
    case False
    then have gap: "uint (gab_end bk) + 1 < uint (gab_start b)"
      by (simp add: uint_unat_nat del: of_nat_unat)
    have IH: "gaps_ok (merge_loop b bs)" "gaps_set (merge_loop b bs) = gaps_set (b # bs)"
       "\<forall>g \<in> set (merge_loop b bs). gab_start b \<le> gab_start g"
      using Cons by (auto simp: word_le_def)
    have "uint (gab_end bk) + 1 < uint (gab_start g)" if "g \<in> set (merge_loop b bs)" for g
      using IH(3) that gap by (force simp: word_le_def)
    then show ?thesis
      using False Cons.prems IH by (auto simp: gaps_ok_def gaps_set_def intro: order_trans)
  qed
qed


text \<open>
  A list of non-adjacent blocks is determined by the numbers it covers, so the order that
  \<open>absl::c_sort\<close> leaves blocks with equal starts in does not matter.
\<close>

lemma blocks_first_least: "blocks_ok (a # as) \<Longrightarrow> x \<in> to_set (a # as) \<Longrightarrow> tr_first a \<le> x"
  by (auto simp: to_set_def)

lemma blocks_end: "blocks_ok (a # as) \<Longrightarrow> tr_last a + 1 \<notin> to_set (a # as)"
  by (auto simp: to_set_def)

lemma blocks_head_unique:
  assumes "blocks_ok (a # as)" "blocks_ok (b # bs)" "to_set (a # as) = to_set (b # bs)"
  shows "tr_first a = tr_first b \<and> tr_last a \<le> tr_last b"
proof
  have in_a: "tr_first a \<in> to_set (a # as)" and in_b: "tr_first b \<in> to_set (b # bs)"
    using assms(1,2) by auto
  have "tr_first a \<le> tr_first b"
    using blocks_first_least[OF assms(1)] in_b assms(3) by blast
  moreover have "tr_first b \<le> tr_first a"
    using blocks_first_least[OF assms(2)] in_a assms(3) by blast
  ultimately show eq: "tr_first a = tr_first b"
    by (rule antisym)
  show "tr_last a \<le> tr_last b"
  proof (rule ccontr)
    assume "\<not> tr_last a \<le> tr_last b"
    then have "tr_last b + 1 \<in> to_set (a # as)"
      using eq assms(2) by simp
    with blocks_end[OF assms(2)] assms(3) show False by blast
  qed
qed

lemma blocks_rest:
  assumes "blocks_ok (c # cs)"
  shows "to_set cs = to_set (c # cs) - {tr_first c..tr_last c}"
proof -
  have "to_set cs \<inter> {tr_first c..tr_last c} = {}"
    using to_set_above[OF assms] by fastforce
  then show ?thesis by auto
qed

lemma blocks_unique:
  "blocks_ok as \<Longrightarrow> blocks_ok bs \<Longrightarrow> to_set as = to_set bs \<Longrightarrow> as = (bs :: TsnRange list)"
proof (induction as arbitrary: bs)
  case Nil
  then show ?case by (cases bs) auto
next
  case (Cons a as)
  have "tr_first a \<in> to_set bs"
    using Cons.prems(1) unfolding Cons.prems(3)[symmetric] by simp
  then obtain b bs' where bs: "bs = b # bs'"
    by (cases bs) simp_all
  note prems = Cons.prems(1) Cons.prems(2)[unfolded bs] Cons.prems(3)[unfolded bs]
  have "tr_first a = tr_first b" "tr_last a = tr_last b"
    using blocks_head_unique[OF prems]
      blocks_head_unique[OF prems(2,1) prems(3)[symmetric]] by linarith+
  then have ab: "a = b"
    by (intro TsnRange.equality) simp_all
  have "to_set as = to_set bs'"
    using blocks_rest[OF prems(1)] blocks_rest[OF prems(2)] prems(3) ab by (simp only:)
  moreover have "blocks_ok as" "blocks_ok bs'"
    using prems by simp_all
  ultimately have "as = bs'"
    by (intro Cons.IH)
  then show ?case
    using bs ab by simp
qed

lemma gaps_unique: "gaps_ok as \<Longrightarrow> gaps_ok bs \<Longrightarrow> gaps_set as = gaps_set bs \<Longrightarrow> as = bs"
proof -
  assume "gaps_ok as" "gaps_ok bs" "gaps_set as = gaps_set bs"
  then have "map range_of as = map range_of bs"
    by (intro blocks_unique) (simp_all add: gaps_ok_def gaps_set_def)
  moreover have "inj range_of"
    by (rule injI) (auto simp: range_of_def tsn_range_def word_uint_eq_iff)
  ultimately show "as = bs"
    by (simp add: inj_map_eq_map)
qed

lemma gaps_set_mset: "mset as = mset bs \<Longrightarrow> gaps_set as = gaps_set bs"
  using mset_eq_setD[of as bs] by (simp add: gaps_set_def to_set_def)

lemma merge_sorted:
  assumes "\<forall>b \<in> set (f # r). gab_start b \<le> gab_end b" "sorted (map gab_start (f # r))"
  shows "gaps_ok (merge_loop f r) \<and> gaps_set (merge_loop f r) = gaps_set (f # r)"
  using merge_loop_props[of f r] assms by (auto simp: word_le_def)


lemma clean_main:
  assumes "\<not> Validate_blocks gaps"
  shows "gaps_ok (Clean_blocks gaps)
    \<and> gaps_set (Clean_blocks gaps) = gaps_set (filter (\<lambda>b. gab_end b > gab_start b) gaps)"
proof -
  define kept where "kept = filter (\<lambda>b. gab_end b > gab_start b) gaps"
  have valid: "\<forall>b \<in> set kept. gab_start b \<le> gab_end b"
    by (auto simp: kept_def)
  have "gaps_ok (Clean_blocks gaps) \<and> gaps_set (Clean_blocks gaps) = gaps_set kept"
  proof (cases "length kept \<le> 1")
    case True
    then have "Clean_blocks gaps = kept"
      using assms by (simp add: Clean_blocks_def kept_def)
    moreover have "gaps_ok kept"
      using True valid by (cases kept) (auto simp: gaps_ok_def word_le_def)
    ultimately show ?thesis by simp
  next
    case False
    then obtain f r where fr: "sort_key gab_start kept = f # r"
      by (cases "sort_key gab_start kept") (auto dest: arg_cong[where f=length])
    have "set (f # r) = set kept" "sorted (map gab_start (f # r))" "mset (f # r) = mset kept"
      unfolding fr[symmetric] by simp_all
    then have "gaps_ok (merge_loop f r) \<and> gaps_set (merge_loop f r) = gaps_set kept"
      using merge_sorted[of f r] valid gaps_set_mset[of "f # r" kept] by metis
    moreover have "Clean_blocks gaps = merge_loop f r"
      using assms False fr by (simp add: Clean_blocks_def kept_def)
    ultimately show ?thesis by simp
  qed
  then show ?thesis by (simp add: kept_def)
qed

lemma gaps_set_above:
  assumes "\<forall>g \<in> set gs. gab_start g \<le> gab_end g"
  shows "(\<forall>g \<in> set gs. n < uint (gab_start g)) \<longleftrightarrow> (\<forall>x \<in> gaps_set gs. n < x)"
proof
  assume "\<forall>g \<in> set gs. n < uint (gab_start g)"
  then show "\<forall>x \<in> gaps_set gs. n < x"
    by (auto simp: gaps_set_def to_set_def)
next
  assume *: "\<forall>x \<in> gaps_set gs. n < x"
  have "uint (gab_start g) \<in> gaps_set gs" if "g \<in> set gs" for g
    using assms that by (auto simp: gaps_set_def to_set_def word_le_def)
  with * show "\<forall>g \<in> set gs. n < uint (gab_start g)" by blast
qed

section \<open>Properties\<close>

text \<open>
  C14.  Repairing a malformed SACK keeps exactly what its usable blocks acknowledge.  The repaired
  blocks are ordered, non-overlapping and non-adjacent, they cover the same numbers as the blocks
  whose end is after their start, and any order in which the sort leaves blocks with equal starts
  gives the same result.
\<close>

theorem clean_repairs:
  assumes "\<not> Validate_blocks gaps" "kept = filter (\<lambda>b. gab_end b > gab_start b) gaps"
  shows "gaps_ok (Clean_blocks gaps) \<and> gaps_set (Clean_blocks gaps) = gaps_set kept
    \<and> (\<forall>f r. mset (f # r) = mset kept \<and> sorted (map gab_start (f # r)) \<longrightarrow>
           merge_loop f r = Clean_blocks gaps)"
proof -
  note main = clean_main[OF assms(1), folded assms(2)]
  have valid: "\<forall>b \<in> set kept. gab_start b \<le> gab_end b"
    by (auto simp: assms(2))
  have "merge_loop f r = Clean_blocks gaps"
    if "mset (f # r) = mset kept" "sorted (map gab_start (f # r))" for f r
  proof -
    have "set (f # r) = set kept"
      using that(1) by (rule mset_eq_setD)
    then have "gaps_ok (merge_loop f r) \<and> gaps_set (merge_loop f r) = gaps_set kept"
      using merge_sorted[of f r] valid that gaps_set_mset[of "f # r" kept] by metis
    with main show ?thesis by (intro gaps_unique) simp_all
  qed
  with main show ?thesis by blast
qed

theorem clean_repairs_witness:
  "gaps_set (Clean_blocks [\<lparr>gab_start = 9, gab_end = 12\<rparr>, \<lparr>gab_start = 3, gab_end = 9\<rparr>])
     = gaps_set [\<lparr>gab_start = 9, gab_end = 12\<rparr>, \<lparr>gab_start = 3, gab_end = 9\<rparr>]"
proof -
  let ?g = "[\<lparr>gab_start = 9, gab_end = 12\<rparr>, \<lparr>gab_start = 3, gab_end = 9\<rparr>] :: GapAckBlock list"
  have "\<not> Validate_blocks ?g" by (simp add: Validate_blocks_def)
  from clean_repairs[OF this refl] show ?thesis by simp
qed

text \<open>
  C25.  A repaired SACK is valid only if no usable block starts right after the cumulative
  acknowledgement: a block that starts at offset 0 or 1 survives the repair and makes the result
  fail the validation.
\<close>

theorem clean_valid_iff:
  assumes "\<not> Validate_blocks gaps"
  shows "Validate_blocks (Clean_blocks gaps) \<longleftrightarrow>
    (\<forall>b \<in> set gaps. gab_end b > gab_start b \<longrightarrow> 1 < uint (gab_start b))"
proof -
  define kept where "kept = filter (\<lambda>b. gab_end b > gab_start b) gaps"
  have c: "gaps_ok (Clean_blocks gaps)" "gaps_set (Clean_blocks gaps) = gaps_set kept"
    using clean_main[OF assms] by (simp_all add: kept_def)
  have "Validate_blocks (Clean_blocks gaps) \<longleftrightarrow> (\<forall>g \<in> set (Clean_blocks gaps). 1 < uint (gab_start g))"
    using c(1) by (auto simp: Validate_blocks_def Validate_loop_ok)
  also have "\<dots> \<longleftrightarrow> (\<forall>x \<in> gaps_set kept. 1 < x)"
    unfolding c(2)[symmetric] using c(1)
    by (intro gaps_set_above) (auto simp: gaps_ok_def blocks_ok_def word_le_def)
  also have "\<dots> \<longleftrightarrow> (\<forall>g \<in> set kept. 1 < uint (gab_start g))"
    by (rule gaps_set_above[symmetric]) (auto simp: kept_def)
  finally show ?thesis
    by (auto simp: kept_def)
qed

theorem clean_valid_iff_witness:
  "\<not> Validate_blocks (Clean_blocks [\<lparr>gab_start = 1, gab_end = 3\<rparr>])"
proof -
  have "\<not> Validate_blocks [\<lparr>gab_start = 1, gab_end = 3\<rparr>]"
    by (simp add: Validate_blocks_def)
  from clean_valid_iff[OF this] show ?thesis by simp
qed

end
