(* ===== verification/Ordered_Maps.thy ===== *)
theory Ordered_Maps
  imports Dcsctp_Prelude
begin

text \<open>
  A \<open>std::map\<close> is the list of its entries in strictly ascending key order, which is the order in
  which the sources iterate over it.  The operations are the ones the sources use: \<open>emplace\<close>
  (insert unless present), assignment through \<open>operator[]\<close>, \<open>find\<close> (\<^const>\<open>map_of\<close>), \<open>erase\<close> of a
  key and of a prefix up to \<open>upper_bound\<close>.
\<close>

section \<open>Operations\<close>

type_synonym ('k, 'v) omap = "('k \<times> 'v) list"

fun emplace :: "'k::linorder \<Rightarrow> 'v \<Rightarrow> ('k, 'v) omap \<Rightarrow> bool \<times> ('k, 'v) omap" where
  "emplace k v [] = (True, [(k, v)])"
| "emplace k v ((k', v') # m) =
     (if k < k' then (True, (k, v) # (k', v') # m)
      else if k = k' then (False, (k', v') # m)
      else (fst (emplace k v m), (k', v') # snd (emplace k v m)))"

fun assign :: "'k::linorder \<Rightarrow> 'v \<Rightarrow> ('k, 'v) omap \<Rightarrow> ('k, 'v) omap" where
  "assign k v [] = [(k, v)]"
| "assign k v ((k', v') # m) =
     (if k < k' then (k, v) # (k', v') # m
      else if k = k' then (k, v) # m else (k', v') # assign k v m)"

definition erase_key :: "'k::linorder \<Rightarrow> ('k, 'v) omap \<Rightarrow> ('k, 'v) omap" where
  "erase_key k m = filter (\<lambda>e. fst e \<noteq> k) m"

text \<open>The entries before and from \<open>upper_bound(k)\<close>.\<close>

definition up_to :: "'k::linorder \<Rightarrow> ('k, 'v) omap \<Rightarrow> ('k, 'v) omap" where
  "up_to k m = takeWhile (\<lambda>e. fst e \<le> k) m"

definition after :: "'k::linorder \<Rightarrow> ('k, 'v) omap \<Rightarrow> ('k, 'v) omap" where
  "after k m = dropWhile (\<lambda>e. fst e \<le> k) m"

definition find_or :: "'v \<Rightarrow> 'k \<Rightarrow> ('k, 'v) omap \<Rightarrow> 'v" where
  "find_or d k m = (case map_of m k of None \<Rightarrow> d | Some v \<Rightarrow> v)"

text \<open>The sum of a measure over the mapped values.\<close>

definition msum :: "('v \<Rightarrow> nat) \<Rightarrow> ('k, 'v) omap \<Rightarrow> nat" where
  "msum f m = (\<Sum>e\<leftarrow>m. f (snd e))"

section \<open>Laws\<close>

definition omap_ok :: "('k::linorder, 'v) omap \<Rightarrow> bool" where
  "omap_ok m = sorted_wrt (<) (map fst m)"

lemma omap_ok_simps [simp]:
  "omap_ok []"
  "omap_ok (e # m) \<longleftrightarrow> (\<forall>k \<in> fst ` set m. fst e < k) \<and> omap_ok m"
  by (simp_all add: omap_ok_def)

lemma omap_okD: "omap_ok m \<Longrightarrow> distinct (map fst m) \<and> sorted (map fst m)"
  by (simp add: omap_ok_def strict_sorted_iff)

lemma keys_emplace [container_simps]: "fst ` set (snd (emplace k v m)) = insert k (fst ` set m)"
  by (induction k v m rule: emplace.induct) auto

lemma keys_assign [container_simps]: "fst ` set (assign k v m) = insert k (fst ` set m)"
  by (induction k v m rule: assign.induct) auto

lemma values_assign: "v \<in> snd ` set (assign k w m) \<Longrightarrow> v = w \<or> v \<in> snd ` set m"
  by (induction k w m rule: assign.induct) (auto split: if_splits)

lemma emplace_ok [simp]: "omap_ok m \<Longrightarrow> omap_ok (snd (emplace k v m))"
proof (induction k v m rule: emplace.induct)
  case (2 k v k' v' m)
  show ?case
    using 2 by (auto simp: keys_emplace intro: less_trans)
qed simp

lemma assign_ok [simp]: "omap_ok m \<Longrightarrow> omap_ok (assign k v m)"
proof (induction k v m rule: assign.induct)
  case (2 k v k' v' m)
  show ?case
    using 2 by (auto simp: keys_assign intro: less_trans)
qed simp

lemma erase_key_ok [simp]: "omap_ok m \<Longrightarrow> omap_ok (erase_key k m)"
  by (auto simp: omap_ok_def erase_key_def sorted_wrt_map sorted_wrt_filter)

lemma after_ok [simp]: "omap_ok m \<Longrightarrow> omap_ok (after k m)"
  by (simp add: omap_ok_def after_def sorted_wrt_map sorted_wrt_dropWhile)

lemma sorted_wrt_tl [simp]: "omap_ok m \<Longrightarrow> omap_ok (tl m)"
  by (cases m) simp_all

lemma map_of_none_above: "\<forall>k' \<in> fst ` set m. k < k' \<Longrightarrow> map_of m (k :: 'k::linorder) = None"
  by (metis map_of_eq_None_iff less_irrefl)

lemma emplace_lookup:
  "omap_ok m \<Longrightarrow> fst (emplace k v m) = (map_of m k = None)
    \<and> map_of (snd (emplace k v m)) = (if map_of m k = None then (map_of m)(k \<mapsto> v) else map_of m)"
proof (induction k v m rule: emplace.induct)
  case (2 k v k' v' m)
  have "map_of m k = None" if "k < k'"
    using "2.prems" that by (intro map_of_none_above) auto
  then show ?case
    using 2 by auto
qed auto

lemma emplace_set: "omap_ok m \<Longrightarrow> map_of m k = None \<Longrightarrow> set (snd (emplace k v m)) = insert (k, v) (set m)"
  by (induction k v m rule: emplace.induct) (auto split: if_splits)

lemmas emplace_inserted [simp] = emplace_lookup[THEN conjunct1]
lemmas map_of_emplace [simp] = emplace_lookup[THEN conjunct2]

lemma map_of_assign [simp]: "omap_ok m \<Longrightarrow> map_of (assign k v m) = (map_of m)(k \<mapsto> v)"
  by (induction k v m rule: assign.induct) auto

lemma map_of_erase_key [simp]: "map_of (erase_key k m) = (map_of m)(k := None)"
  by (induction m) (auto simp: erase_key_def)

lemma map_of_after [simp]:
  "omap_ok m \<Longrightarrow> map_of (after k m) = (\<lambda>x. if x \<le> k then None else map_of m x)"
proof (induction m)
  case (Cons e m)
  show ?case
  proof (cases "fst e \<le> k")
    case True
    then show ?thesis using Cons by (auto simp: after_def)
  next
    case False
    then have "map_of (e # m) x = None" if "x \<le> k" for x
      using Cons.prems that by (intro map_of_none_above) (auto intro: order.strict_trans1)
    then show ?thesis using False by (auto simp: after_def)
  qed
qed (simp add: after_def fun_eq_iff)

lemma omap_set_eqI:
  assumes "omap_ok a" "omap_ok b" "set a = set b"
  shows "a = b"
  using omap_okD[OF assms(1)] omap_okD[OF assms(2)] assms(3) map_sorted_distinct_set_unique[of fst a b]
  by (simp add: distinct_map)

lemma omap_eqI:
  assumes "omap_ok a" "omap_ok b" "map_of a = map_of b"
  shows "a = b"
proof (rule omap_set_eqI[OF assms(1,2)])
  show "set a = set b"
    using omap_okD[OF assms(1)] omap_okD[OF assms(2)] assms(3)
    by (metis map_of_eq_Some_iff set_eqI surj_pair)
qed

lemma omap_nth_less: "omap_ok c \<Longrightarrow> a < b \<Longrightarrow> b < length c \<Longrightarrow> fst (c ! a) < fst (c ! b)"
  using sorted_wrt_nth_less[of "(<)" "map fst c" a b] by (simp add: omap_ok_def)

section \<open>Sums\<close>

lemma msum_simps [simp]:
  "msum f [] = 0" "msum f (e # m) = f (snd e) + msum f m" "msum f (a @ b) = msum f a + msum f b"
  by (simp_all add: msum_def)

lemma msum_emplace [simp]:
  "msum f (snd (emplace k v m)) = msum f m + (if fst (emplace k v m) then f v else 0)"
  by (induction k v m rule: emplace.induct) auto

lemma msum_assign:
  "omap_ok m \<Longrightarrow> msum f (assign k v m) + (case map_of m k of None \<Rightarrow> 0 | Some w \<Rightarrow> f w) = msum f m + f v"
proof (induction k v m rule: assign.induct)
  case (2 k v k' v' m)
  have "map_of m k = None" if "k < k'"
    using "2.prems" that by (intro map_of_none_above) auto
  then show ?case
    using 2 by auto
qed simp

lemma msum_split: "msum f (up_to k m) + msum f (after k m) = msum f m"
proof -
  have "up_to k m @ after k m = m" by (simp add: up_to_def after_def)
  then show ?thesis by (metis msum_simps(3))
qed

lemma msum_erase_key:
  "omap_ok m \<Longrightarrow> map_of m k = Some v \<Longrightarrow> msum f (erase_key k m) + f v = msum f m"
proof (induction m)
  case (Cons e m)
  have "erase_key k m = m" if "fst e = k"
    using Cons.prems(1) that by (auto simp: erase_key_def filter_id_conv)
  then show ?case
    using Cons by (cases e) (auto simp: erase_key_def split: if_splits)
qed simp

section \<open>Maps whose values satisfy an invariant\<close>

definition omap_all :: "('v \<Rightarrow> bool) \<Rightarrow> ('k::linorder, 'v) omap \<Rightarrow> bool" where
  "omap_all P m = (omap_ok m \<and> (\<forall>v \<in> snd ` set m. P v))"

lemma omap_all_simps [simp]:
  "omap_all P []"
  "omap_all P (e # m) \<longleftrightarrow> (\<forall>k \<in> fst ` set m. fst e < k) \<and> P (snd e) \<and> omap_all P m"
  by (auto simp: omap_all_def)

lemma omap_all_ok [dest]: "omap_all P m \<Longrightarrow> omap_ok m"
  by (simp add: omap_all_def)

lemma omap_all_assign [simp]: "omap_all P m \<Longrightarrow> P v \<Longrightarrow> omap_all P (assign k v m)"
  using values_assign[of _ k v m] by (fastforce simp: omap_all_def)

lemma omap_all_find_or [simp]: "omap_all P m \<Longrightarrow> P d \<Longrightarrow> P (find_or d k m)"
  by (auto simp: find_or_def omap_all_def dest!: map_of_SomeD split: option.splits)

lemma omap_all_lookup: "omap_all P m \<Longrightarrow> map_of m k = Some v \<Longrightarrow> P v"
  by (auto simp: omap_all_def dest!: map_of_SomeD)

lemma omap_all_mono: "omap_all P m \<Longrightarrow> (\<And>v. P v \<Longrightarrow> Q v) \<Longrightarrow> omap_all Q m"
  by (simp add: omap_all_def)

lemma omap_all_after [simp]: "omap_all P m \<Longrightarrow> omap_all P (after k m)"
  using after_ok[of m k] by (auto simp: omap_all_def after_def dest: set_dropWhileD)

lemma omap_ok_map [simp]: "omap_ok (map (\<lambda>(k, v). (k, f v)) m) = omap_ok m"
proof -
  have "map fst (map (\<lambda>(k, v). (k, f v)) m) = map fst m" by auto
  then show ?thesis by (simp only: omap_ok_def)
qed

lemma omap_all_map [simp]: "omap_all P (map (\<lambda>(k, v). (k, f v)) m) = omap_all (P \<circ> f) m"
  by (auto simp: omap_all_def)

lemma msum_map [simp]: "msum g (map (\<lambda>(k, v). (k, f v)) m) = msum (g \<circ> f) m"
  by (induction m) auto

lemma msum_assign_find_or:
  "omap_ok m \<Longrightarrow> f d = 0 \<Longrightarrow> msum f (assign k v m) + f (find_or d k m) = msum f m + f v"
  using msum_assign[of m f k v] by (simp add: find_or_def split: option.splits)

lemma msum_cong: "(\<And>v. v \<in> snd ` set m \<Longrightarrow> f v = g v) \<Longrightarrow> msum f m = msum g m"
  by (induction m) auto

lemma msum_add: "msum (\<lambda>v. f v + g v) m = msum f m + msum g m"
  by (induction m) auto

end
