(* ===== verification/Reassembly_Streams.thy ===== *)
theory Reassembly_Streams
  imports Sequence_Numbers Chunks Handover Ordered_Maps
begin

text \<open>
  What the two reassemblers share: assembled messages, the concatenation of a run of chunks
  (\<open>AssembleMessage\<close> of \<open>rx/reassembly_streams.cc\<close>), the contract of the virtual class
  \<open>ReassemblyStreams\<close> as a locale, and lemmas on partially received fragment sequences.

  Every operation returns the number of bytes it reports to its caller, the messages it hands to
  the \<open>OnAssembledMessage\<close> callback in order, and the new state.  A message comes with the numbers
  of the chunks it was made from.
\<close>

section \<open>Messages\<close>

record DcSctpMessage =
  msg_stream_id :: u16
  msg_ppid :: u32
  msg_payload :: bytes

type_synonym assembled = "int list \<times> DcSctpMessage"

definition Data_size :: "Data \<Rightarrow> nat" where
  "Data_size d = length (d_payload d)"

text \<open>Both the copy-free path for a single chunk and the concatenation of several.\<close>

definition AssembleMessage_single :: "int \<Rightarrow> Data \<Rightarrow> nat \<times> assembled" where
  "AssembleMessage_single tsn data =
     (Data_size data,
      ([tsn], \<lparr>msg_stream_id = d_stream_id data, msg_ppid = d_ppid data, msg_payload = d_payload data\<rparr>))"

definition AssembleMessage :: "(int \<times> Data) list \<Rightarrow> nat \<times> assembled" where
  "AssembleMessage chunks =
     (if length chunks = 1 then AssembleMessage_single (fst (hd chunks)) (snd (hd chunks))
      else (\<Sum>c\<leftarrow>chunks. Data_size (snd c),
        (map fst chunks,
         \<lparr>msg_stream_id = d_stream_id (snd (hd chunks)), msg_ppid = d_ppid (snd (hd chunks)),
          msg_payload = concat (map (d_payload \<circ> snd) chunks)\<rparr>)))"

definition delivered_bytes :: "assembled list \<Rightarrow> nat" where
  "delivered_bytes ms = (\<Sum>m\<leftarrow>ms. length (msg_payload (snd m)))"

lemma delivered_bytes_simps [simp]:
  "delivered_bytes [] = 0"
  "delivered_bytes (m # ms) = length (msg_payload (snd m)) + delivered_bytes ms"
  "delivered_bytes (xs @ ys) = delivered_bytes xs + delivered_bytes ys"
  by (simp_all add: delivered_bytes_def)

text \<open>The two paths agree, so a message is always the concatenation of its chunks.\<close>

lemma AssembleMessage_eq:
  assumes "chunks \<noteq> []"
  shows "AssembleMessage chunks =
    (msum Data_size chunks,
     (map fst chunks,
      \<lparr>msg_stream_id = d_stream_id (snd (hd chunks)), msg_ppid = d_ppid (snd (hd chunks)),
       msg_payload = concat (map (d_payload \<circ> snd) chunks)\<rparr>))"
proof (cases "length chunks = 1")
  case True
  then obtain c where "chunks = [c]" by (cases chunks) auto
  then show ?thesis by (simp add: AssembleMessage_def AssembleMessage_single_def)
qed (simp add: AssembleMessage_def msum_def)

lemma length_payloads: "length (concat (map (d_payload \<circ> snd) chunks)) = msum Data_size chunks"
  by (induction chunks) (simp_all add: Data_size_def)

lemma AssembleMessage_bytes:
  "chunks \<noteq> [] \<Longrightarrow> fst (AssembleMessage chunks) = msum Data_size chunks
     \<and> length (msg_payload (snd (snd (AssembleMessage chunks)))) = msum Data_size chunks"
  by (simp add: AssembleMessage_eq length_payloads)

section \<open>The interface\<close>

text \<open>
  The contract of \<open>ReassemblyStreams\<close>.  \<open>held s\<close> is the number of payload bytes buffered in \<open>s\<close>.
  Adding a chunk reports exactly the change of that number; a chunk either is accepted, so that its
  bytes are buffered or delivered, or has been buffered before and changes nothing visible.
  Skipping data reports exactly the bytes that leave the buffer, which include all that are
  delivered.  Resetting streams keeps the buffer.
\<close>

locale reassembly_streams =
  fixes add :: "int \<Rightarrow> Data \<Rightarrow> 's \<Rightarrow> int \<times> assembled list \<times> 's"
    and forward :: "int \<Rightarrow> SkippedStream list \<Rightarrow> 's \<Rightarrow> nat \<times> assembled list \<times> 's"
    and reset :: "u16 list \<Rightarrow> 's \<Rightarrow> 's"
    and inv :: "'s \<Rightarrow> bool"
    and held :: "'s \<Rightarrow> nat"
  assumes add_inv: "inv s \<Longrightarrow> add tsn d s = (n, ms, s') \<Longrightarrow> inv s'"
    and add_bytes: "inv s \<Longrightarrow> add tsn d s = (n, ms, s') \<Longrightarrow> int (held s') = int (held s) + n"
    and add_accounts: "inv s \<Longrightarrow> add tsn d s = (n, ms, s') \<Longrightarrow>
      n = int (Data_size d) - int (delivered_bytes ms) \<or> n = 0 \<and> ms = []"
    and forward_inv: "inv s \<Longrightarrow> forward t sk s = (k, ms, s') \<Longrightarrow> inv s'"
    and forward_bytes: "inv s \<Longrightarrow> forward t sk s = (k, ms, s') \<Longrightarrow>
      held s' + k = held s \<and> delivered_bytes ms \<le> k"
    and reset_inv: "inv s \<Longrightarrow> inv (reset ids s)"
    and reset_bytes: "inv s \<Longrightarrow> held (reset ids s) = held s"
begin

lemma add_conserves:
  assumes "inv s" "add tsn d s = (n, ms, s')"
  shows "held s' + delivered_bytes ms \<le> held s + Data_size d"
  using add_bytes[OF assms] add_accounts[OF assms] by auto

lemma forward_conserves:
  assumes "inv s" "forward t sk s = (k, ms, s')"
  shows "held s' + delivered_bytes ms \<le> held s"
  using forward_bytes[OF assms] by auto

end

section \<open>Chunks by message\<close>

text \<open>\<open>chunks_by_ssn_[ssn].emplace(tsn, data)\<close>.\<close>

definition emplace_by :: "int \<Rightarrow> 'k::linorder \<Rightarrow> 'v \<Rightarrow> (int, ('k, 'v) omap) omap
    \<Rightarrow> bool \<times> (int, ('k, 'v) omap) omap" where
  "emplace_by k tsn data m =
     (case emplace tsn data (find_or [] k m) of (inserted, chunks) \<Rightarrow> (inserted, assign k chunks m))"

definition by_ok :: "(int, ('k::linorder, 'v) omap) omap \<Rightarrow> bool" where
  "by_ok m = omap_all (\<lambda>c. omap_ok c \<and> c \<noteq> []) m"

lemma emplace_by_accounts:
  assumes "by_ok m" "emplace_by k t d m = (inserted, m')"
  shows "by_ok m' \<and> msum (msum f) m' = msum (msum f) m + (if inserted then f d else 0)"
proof -
  let ?c = "find_or [] k m"
  have c: "omap_ok ?c"
    using assms(1) omap_all_find_or[of omap_ok m "[]" k] by (auto simp: by_ok_def omap_all_def)
  have m': "m' = assign k (snd (emplace t d ?c)) m" "inserted = fst (emplace t d ?c)"
    using assms(2) by (auto simp: emplace_by_def split: prod.splits)
  have ne: "snd (emplace t d ?c) \<noteq> []"
    using keys_emplace[of t d ?c] by auto
  have "msum (msum f) m' + msum f ?c = msum (msum f) m + msum f (snd (emplace t d ?c))"
    unfolding m' using assms(1) by (intro msum_assign_find_or) (auto simp: by_ok_def)
  then show ?thesis
    using assms(1) c ne by (simp add: m' by_ok_def)
qed

lemma by_ok_after [simp]: "by_ok m \<Longrightarrow> by_ok (after k m)"
  by (simp add: by_ok_def)

section \<open>Partially received fragment sequences\<close>

text \<open>
  The buffered part of a message with fragments \<open>val 0, val 1, \<dots>\<close> under the keys
  \<open>key 0 < key 1 < \<dots>\<close>: \<open>is\<close> is the ascending list of the indices received so far.
\<close>

definition entries :: "(nat \<Rightarrow> 'k) \<Rightarrow> (nat \<Rightarrow> 'v) \<Rightarrow> nat list \<Rightarrow> ('k \<times> 'v) list" where
  "entries key val is = map (\<lambda>i. (key i, val i)) is"

lemma entries_simps [simp]:
  "entries key val [] = []" "entries key val (i # is) = (key i, val i) # entries key val is"
  "entries key val is = [] \<longleftrightarrow> is = []" "length (entries key val is) = length is"
  by (simp_all add: entries_def)

lemma entries_hd_last:
  "is \<noteq> [] \<Longrightarrow> hd (entries key val is) = (key (hd is), val (hd is))"
  "is \<noteq> [] \<Longrightarrow> last (entries key val is) = (key (last is), val (last is))"
  by (simp_all add: entries_def hd_map last_map)

lemma emplace_entries:
  assumes key: "\<And>i j. i < n \<Longrightarrow> j < n \<Longrightarrow> i < j \<Longrightarrow> key i < (key j :: 'k::linorder)"
    and "i < n" "set is \<subseteq> {..<n}" "sorted_wrt (<) is"
  shows "emplace (key i) (val i) (entries key val is) = (i \<notin> set is, entries key val (sset_insert i is))"
  using assms(3,4)
proof (induction "is")
  case (Cons j js)
  have IH: "emplace (key i) (val i) (entries key val js)
      = (i \<notin> set js, entries key val (sset_insert i js))"
    using Cons by simp
  have above: "\<forall>k \<in> set js. j < k"
    using Cons.prems by simp
  consider (less) "i < j" | (eq) "i = j" | (greater) "j < i" by linarith
  then show ?case
  proof cases
    case less
    then have "key i < key j" using key[of i j] assms(2) Cons.prems by simp
    moreover have "i \<notin> set js" using above less by auto
    ultimately show ?thesis using less by simp
  next
    case greater
    then have "key j < key i" using key[of j i] assms(2) Cons.prems by simp
    then have "\<not> key i < key j" "key i \<noteq> key j" by auto
    with greater show ?thesis by (simp add: IH)
  qed simp
qed simp

lemma complete_indices:
  assumes "sorted_wrt (<) is" "set is \<subseteq> {..<n}" "is \<noteq> []"
  shows "length is = n \<longleftrightarrow> is = [0..<n]"
proof
  assume "length is = n"
  have "distinct is" using assms(1) by (simp add: strict_sorted_iff)
  then have "card (set is) = card {..<n}"
    using \<open>length is = n\<close> by (simp add: distinct_card)
  then have "set is = {..<n}"
    using assms(2) by (intro card_subset_eq) auto
  then have "set is = set [0..<n]" by (simp only: set_upt lessThan_atLeast0)
  from strict_sorted_unique[OF assms(1) sorted_wrt_upt this] show "is = [0..<n]" .
qed simp

lemma assign_entries:
  assumes "sorted_wrt (<) is"
  shows "assign (b + int i) v (entries (\<lambda>j. b + int j) val is)
    = entries (\<lambda>j. b + int j) (val(i := v)) (sset_insert i is)"
  using assms
proof (induction "is")
  case (Cons j js)
  have "entries (\<lambda>j. b + int j) (val(i := v)) js = entries (\<lambda>j. b + int j) val js" if "i \<le> j"
    using Cons.prems that by (auto simp: entries_def)
  with Cons show ?case by (auto simp: fun_upd_def)
qed simp

lemma map_of_entries:
  "inj key \<Longrightarrow> map_of (entries key val is) (key i) = (if i \<in> set is then Some (val i) else None)"
  by (induction "is") (auto dest: injD)

lemma entries_cong: "(\<And>i. i \<in> set is \<Longrightarrow> val i = val' i) \<Longrightarrow> entries key val is = entries key val' is"
  by (simp add: entries_def)

lemma omap_ok_entries:
  "sorted_wrt (<) is \<Longrightarrow> (\<And>i j. i < j \<Longrightarrow> j \<in> set is \<Longrightarrow> key i < key j) \<Longrightarrow> omap_ok (entries key val is)"
  by (induction "is") (auto simp: entries_def)

section \<open>Partially received messages\<close>

text \<open>
  \<open>N\<close> messages, the \<open>j\<close>-th with \<open>n j\<close> fragments, of which the set \<open>S\<close> of pairs (message, fragment)
  has arrived.  \<open>arrived n S j\<close> lists the received fragments of a message; \<open>buffered\<close> is the map
  from message numbers to chunk maps that holds the received part of the messages from \<open>k\<close> on;
  \<open>first_gap\<close> is the first message from \<open>k\<close> on that is not complete.
\<close>

definition arrived :: "(nat \<Rightarrow> nat) \<Rightarrow> (nat \<times> nat) set \<Rightarrow> nat \<Rightarrow> nat list" where
  "arrived n S j = filter (\<lambda>i. (j, i) \<in> S) [0..<n j]"

definition buffered :: "int \<Rightarrow> (nat \<Rightarrow> nat \<Rightarrow> 'k) \<Rightarrow> (nat \<Rightarrow> nat \<Rightarrow> 'v) \<Rightarrow> (nat \<Rightarrow> nat) \<Rightarrow> nat
    \<Rightarrow> (nat \<times> nat) set \<Rightarrow> nat \<Rightarrow> (int, ('k, 'v) omap) omap" where
  "buffered b key val n N S k =
     entries (\<lambda>j. b + int j) (\<lambda>j. entries (key j) (val j) (arrived n S j))
       (filter (\<lambda>j. arrived n S j \<noteq> []) [k..<N])"

definition is_complete :: "(nat \<Rightarrow> nat) \<Rightarrow> (nat \<times> nat) set \<Rightarrow> nat \<Rightarrow> bool" where
  "is_complete n S j = (\<forall>i < n j. (j, i) \<in> S)"

definition first_gap :: "(nat \<Rightarrow> nat) \<Rightarrow> nat \<Rightarrow> (nat \<times> nat) set \<Rightarrow> nat \<Rightarrow> nat" where
  "first_gap n N S k = k + length (takeWhile (is_complete n S) [k..<N])"

lemma arrived_props [simp]:
  "sorted_wrt (<) (arrived n S j)" "set (arrived n S j) = {i. i < n j \<and> (j, i) \<in> S}"
  by (auto simp: arrived_def sorted_wrt_filter)

lemma arrived_sub: "set (arrived n S j) \<subseteq> {..<n j}"
  by auto

lemma arrived_complete: "is_complete n S j \<longleftrightarrow> arrived n S j = [0..<n j]"
proof
  assume "is_complete n S j"
  then show "arrived n S j = [0..<n j]"
    by (simp add: arrived_def is_complete_def filter_id_conv)
next
  assume "arrived n S j = [0..<n j]"
  then have "set (arrived n S j) = {..<n j}"
    by (simp only: set_upt lessThan_atLeast0)
  then show "is_complete n S j"
    by (auto simp: is_complete_def)
qed

lemma arrived_insert:
  "i < n j \<Longrightarrow> arrived n (insert (j, i) S) j = sset_insert i (arrived n S j)"
  by (rule strict_sorted_unique) auto

lemma arrived_other: "j' \<noteq> j \<Longrightarrow> arrived n (insert (j, i) S) j' = arrived n S j'"
  by (simp add: arrived_def)

lemma upt_ends: "0 < n \<Longrightarrow> hd [0..<n] = 0 \<and> Suc (last [0..<n]) = n"
  by (simp add: hd_upt last_upt)

lemma upt_split: "i \<le> j \<Longrightarrow> j \<le> k \<Longrightarrow> [i..<k] = [i..<j] @ [j..<k]"
  by (metis le_add_diff_inverse upt_add_eq_append)

lemma first_gap_rec:
  "first_gap n N S k = (if k < N \<and> is_complete n S k then first_gap n N S (Suc k) else k)"
  by (cases "k < N") (simp_all add: first_gap_def upt_conv_Cons)

lemma first_gap_bounds: "k \<le> N \<Longrightarrow> k \<le> first_gap n N S k \<and> first_gap n N S k \<le> N"
  using length_takeWhile_le[of "is_complete n S" "[k..<N]"] by (simp add: first_gap_def)

lemma first_gap_below: "k \<le> j \<Longrightarrow> j < first_gap n N S k \<Longrightarrow> is_complete n S j"
proof -
  assume "k \<le> j" "j < first_gap n N S k"
  then have i: "j - k < length (takeWhile (is_complete n S) [k..<N])"
    by (simp add: first_gap_def)
  have "is_complete n S (takeWhile (is_complete n S) [k..<N] ! (j - k))"
    using nth_mem[OF i] set_takeWhileD by metis
  then show ?thesis
    using i length_takeWhile_le[of "is_complete n S" "[k..<N]"] \<open>k \<le> j\<close>
    by (simp add: takeWhile_nth)
qed

lemma first_gap_at: "first_gap n N S k < N \<Longrightarrow> k \<le> N \<Longrightarrow> \<not> is_complete n S (first_gap n N S k)"
proof (induction "N - k" arbitrary: k)
  case (Suc d)
  then show ?case
    using first_gap_rec[of n N S k] by (cases "is_complete n S k") auto
qed (simp add: first_gap_def)

lemma first_gap_skip:
  "k \<le> m \<Longrightarrow> m \<le> N \<Longrightarrow> (\<And>j. k \<le> j \<Longrightarrow> j < m \<Longrightarrow> is_complete n S j) \<Longrightarrow> first_gap n N S k = first_gap n N S m"
proof (induction "m - k" arbitrary: k)
  case (Suc d)
  then have "k < N" "is_complete n S k" by auto
  moreover have "first_gap n N S (Suc k) = first_gap n N S m"
    using Suc by (intro Suc.hyps(1)) auto
  ultimately show ?case
    by (subst first_gap_rec) simp
qed simp

lemma is_complete_mono: "is_complete n S j \<Longrightarrow> S \<subseteq> T \<Longrightarrow> is_complete n T j"
  by (auto simp: is_complete_def)

lemma buffered_Cons:
  "k < N \<Longrightarrow> arrived n S k \<noteq> [] \<Longrightarrow> buffered b key val n N S k
    = (b + int k, entries (key k) (val k) (arrived n S k)) # buffered b key val n N S (Suc k)"
  by (simp add: buffered_def upt_conv_Cons)

lemma buffered_skip: "arrived n S k = [] \<Longrightarrow> buffered b key val n N S k = buffered b key val n N S (Suc k)"
  by (cases "k < N") (simp_all add: buffered_def upt_conv_Cons)

lemma buffered_insert_below:
  assumes "j < k"
  shows "buffered b key val n N (insert (j, i) S) k = buffered b key val n N S k"
proof -
  have same: "arrived n (insert (j, i) S) x = arrived n S x" if "x \<in> set [k..<N]" for x
    using assms that by (intro arrived_other) auto
  then have "filter (\<lambda>j'. arrived n (insert (j, i) S) j' \<noteq> []) [k..<N] = filter (\<lambda>j'. arrived n S j' \<noteq> []) [k..<N]"
    by (intro filter_cong) auto
  then show ?thesis
    using same by (auto simp: buffered_def intro!: entries_cong)
qed

lemma keys_buffered: "x \<in> fst ` set (buffered b key val n N S k) \<Longrightarrow> b + int k \<le> x"
  by (auto simp: buffered_def entries_def)

lemma buffered_hd: "buffered b key val n N S k = (x, c) # r \<Longrightarrow> b + int k \<le> x"
  using keys_buffered[of x b key val n N S k] by simp

lemma find_buffered:
  "k \<le> j \<Longrightarrow> j < N \<Longrightarrow>
     find_or [] (b + int j) (buffered b key val n N S k) = entries (key j) (val j) (arrived n S j)"
  by (simp add: buffered_def find_or_def map_of_entries[of "\<lambda>j. b + int j"] inj_def)

lemma emplace_by_buffered:
  assumes "\<And>i i'. i < n j \<Longrightarrow> i' < n j \<Longrightarrow> i < i' \<Longrightarrow> key j i < (key j i' :: 'k::linorder)"
    and "k \<le> j" "j < N" "i < n j" "(j, i) \<notin> S"
  shows "emplace_by (b + int j) (key j i) (val j i) (buffered b key val n N S k)
    = (True, buffered b key val n N (insert (j, i) S) k)"
proof -
  let ?S = "insert (j, i) S"
  let ?is = "filter (\<lambda>j. arrived n S j \<noteq> []) [k..<N]"
  have e: "emplace (key j i) (val j i) (entries (key j) (val j) (arrived n S j))
      = (True, entries (key j) (val j) (arrived n ?S j))"
    using emplace_entries[of "n j" "key j" i "arrived n S j" "val j",
        OF assms(1) assms(4) arrived_sub arrived_props(1)] assms(4,5)
    by (simp add: arrived_insert)
  have idx: "sset_insert j ?is = filter (\<lambda>j. arrived n ?S j \<noteq> []) [k..<N]"
  proof (rule strict_sorted_unique)
    have "arrived n ?S j \<noteq> []"
      using assms(4) by (simp add: arrived_insert) (metis empty_iff insert_iff list.set(1) set_sset_insert)
    then have "arrived n ?S x \<noteq> [] \<longleftrightarrow> x = j \<or> arrived n S x \<noteq> []" for x
      by (cases "x = j") (simp_all add: arrived_other)
    then show "set (sset_insert j ?is) = set (filter (\<lambda>j. arrived n ?S j \<noteq> []) [k..<N])"
      using assms(2,3) by auto
  qed (simp_all add: sorted_wrt_filter)
  have "assign (b + int j) (entries (key j) (val j) (arrived n ?S j)) (buffered b key val n N S k)
      = buffered b key val n N ?S k"
    unfolding buffered_def idx[symmetric]
    by (subst assign_entries) (auto simp: sorted_wrt_filter arrived_other intro!: entries_cong)
  then show ?thesis
    by (simp add: emplace_by_def find_buffered[OF assms(2,3)] e)
qed

end
