(* ===== verification/Traditional_Reassembly.thy ===== *)
theory Traditional_Reassembly
  imports Reassembly_Streams
begin

text \<open>
  Reassembly of DATA chunks, \<open>rx/traditional_reassembly_streams.{h,cc}\<close>: a message is a run of
  consecutive TSNs; unordered streams look for complete runs around every new chunk, ordered
  streams deliver message by message in the order of the stream sequence numbers.

  An iterator into a chunk map is the position of its entry.
\<close>

section \<open>Unordered streams\<close>

type_synonym ChunkMap = "(int, Data) omap"

fun FindBeginning :: "ChunkMap \<Rightarrow> nat \<Rightarrow> nat option" where
  "FindBeginning chunks iter =
     (if d_is_beginning (snd (chunks ! iter)) then Some iter
      else if iter = 0 then None
      else if next_value (fst (chunks ! (iter - 1))) \<noteq> fst (chunks ! iter) then None
      else FindBeginning chunks (iter - 1))"

function FindEnd :: "ChunkMap \<Rightarrow> nat \<Rightarrow> nat option" where
  "FindEnd chunks iter =
     (if d_is_end (snd (chunks ! iter)) then Some (iter + 1)
      else if iter + 1 \<ge> length chunks then None
      else if fst (chunks ! (iter + 1)) \<noteq> next_value (fst (chunks ! iter)) then None
      else FindEnd chunks (iter + 1))"
  by auto
termination by (relation "measure (\<lambda>(chunks, iter). length chunks - iter)") auto

declare FindBeginning.simps [simp del] FindEnd.simps [simp del]

record UnorderedStream =
  us_chunks :: ChunkMap

definition new_unordered_stream :: UnorderedStream where
  "new_unordered_stream = \<lparr>us_chunks = []\<rparr>"

definition Unordered_TryToAssembleMessage ::
  "nat \<Rightarrow> UnorderedStream \<Rightarrow> nat \<times> assembled list \<times> UnorderedStream" where
  "Unordered_TryToAssembleMessage iter s =
     (let chunks = us_chunks s in
      case FindBeginning chunks iter of
        None \<Rightarrow> (0, [], s)
      | Some start \<Rightarrow>
          (case FindEnd chunks iter of
             None \<Rightarrow> (0, [], s)
           | Some stop \<Rightarrow>
               (case AssembleMessage (take (stop - start) (drop start chunks)) of
                  (bytes_assembled, message) \<Rightarrow>
                    (bytes_assembled, [message], s\<lparr>us_chunks := take start chunks @ drop stop chunks\<rparr>))))"

definition position :: "int \<Rightarrow> ChunkMap \<Rightarrow> nat" where
  "position tsn chunks = length (takeWhile (\<lambda>e. fst e < tsn) chunks)"

definition Unordered_Add ::
  "int \<Rightarrow> Data \<Rightarrow> UnorderedStream \<Rightarrow> int \<times> assembled list \<times> UnorderedStream" where
  "Unordered_Add tsn data s =
     (if d_is_beginning data \<and> d_is_end data
      then (0, [snd (AssembleMessage_single tsn data)], s)
      else case emplace tsn data (us_chunks s) of (inserted, chunks) \<Rightarrow>
        if \<not> inserted then (0, [], s)
        else case Unordered_TryToAssembleMessage (position tsn chunks) (s\<lparr>us_chunks := chunks\<rparr>) of
          (assembled_bytes, messages, s) \<Rightarrow>
            (int (Data_size data) - int assembled_bytes, messages, s))"

definition Unordered_EraseTo :: "int \<Rightarrow> UnorderedStream \<Rightarrow> nat \<times> UnorderedStream" where
  "Unordered_EraseTo tsn s =
     (msum Data_size (up_to tsn (us_chunks s)), s\<lparr>us_chunks := after tsn (us_chunks s)\<rparr>)"

section \<open>Ordered streams\<close>

record OrderedStream =
  os_chunks_by_ssn :: "(int, ChunkMap) omap"
  os_ssn_unwrapper :: "16 SeqNumUnwrapper"
  os_next_ssn :: int

definition new_ordered_stream :: "u16 \<Rightarrow> OrderedStream" where
  "new_ordered_stream next_ssn =
     (case Unwrap new_unwrapper next_ssn of (next, unwrapper) \<Rightarrow>
       \<lparr>os_chunks_by_ssn = [], os_ssn_unwrapper = unwrapper, os_next_ssn = next\<rparr>)"

definition Ordered_TryToAssembleMessage ::
  "OrderedStream \<Rightarrow> nat \<times> assembled list \<times> OrderedStream" where
  "Ordered_TryToAssembleMessage s =
     (case os_chunks_by_ssn s of
        [] \<Rightarrow> (0, [], s)
      | (ssn, chunks) # rest \<Rightarrow>
          if ssn \<noteq> os_next_ssn s then (0, [], s)
          else if \<not> d_is_beginning (snd (hd chunks)) \<or> \<not> d_is_end (snd (last chunks)) then (0, [], s)
          else if unat (Difference (fst (last chunks)) (fst (hd chunks)) :: u32) \<noteq> length chunks - 1
          then (0, [], s)
          else case AssembleMessage chunks of (assembled_bytes, message) \<Rightarrow>
            (assembled_bytes, [message],
             s\<lparr>os_chunks_by_ssn := rest, os_next_ssn := next_value (os_next_ssn s)\<rparr>))"

function Ordered_TryToAssembleMessages ::
  "OrderedStream \<Rightarrow> nat \<times> assembled list \<times> OrderedStream" where
  "Ordered_TryToAssembleMessages s =
     (case Ordered_TryToAssembleMessage s of (assembled_bytes_this_iter, messages, s') \<Rightarrow>
        if assembled_bytes_this_iter = 0 then (0, messages, s')
        else case Ordered_TryToAssembleMessages s' of (assembled_bytes, messages', s'') \<Rightarrow>
          (assembled_bytes_this_iter + assembled_bytes, messages @ messages', s''))"
  by auto
termination
  by (relation "measure (length \<circ> os_chunks_by_ssn)")
    (auto simp: Ordered_TryToAssembleMessage_def split: list.splits if_splits prod.splits)

declare Ordered_TryToAssembleMessages.simps [simp del]

definition Ordered_TryToAssembleMessagesFastpath ::
  "int \<Rightarrow> int \<Rightarrow> Data \<Rightarrow> OrderedStream \<Rightarrow> nat \<times> assembled list \<times> OrderedStream" where
  "Ordered_TryToAssembleMessagesFastpath ssn tsn data s =
     (if d_is_beginning data \<and> d_is_end data
      then case AssembleMessage_single tsn data of (assembled_bytes, message) \<Rightarrow>
        (case Ordered_TryToAssembleMessages (s\<lparr>os_next_ssn := next_value (os_next_ssn s)\<rparr>) of
           (following_bytes, messages, s) \<Rightarrow> (assembled_bytes + following_bytes, message # messages, s))
      else case emplace_by ssn tsn data (os_chunks_by_ssn s) of (inserted, by_ssn) \<Rightarrow>
        if \<not> inserted then (Data_size data, [], s\<lparr>os_chunks_by_ssn := by_ssn\<rparr>)
        else Ordered_TryToAssembleMessages (s\<lparr>os_chunks_by_ssn := by_ssn\<rparr>))"

definition Ordered_Add ::
  "int \<Rightarrow> Data \<Rightarrow> OrderedStream \<Rightarrow> int \<times> assembled list \<times> OrderedStream" where
  "Ordered_Add tsn data s =
     (case Unwrap (os_ssn_unwrapper s) (d_ssn data) of (ssn, unwrapper) \<Rightarrow>
        let s = s\<lparr>os_ssn_unwrapper := unwrapper\<rparr> in
        if ssn = os_next_ssn s
        then case Ordered_TryToAssembleMessagesFastpath ssn tsn data s of (assembled_bytes, messages, s) \<Rightarrow>
          (int (Data_size data) - int assembled_bytes, messages, s)
        else case emplace_by ssn tsn data (os_chunks_by_ssn s) of (inserted, by_ssn) \<Rightarrow>
          (if inserted then int (Data_size data) else 0, [], s\<lparr>os_chunks_by_ssn := by_ssn\<rparr>))"

definition Ordered_EraseTo :: "u16 \<Rightarrow> OrderedStream \<Rightarrow> nat \<times> assembled list \<times> OrderedStream" where
  "Ordered_EraseTo ssn s =
     (case Unwrap (os_ssn_unwrapper s) ssn of (unwrapped_ssn, unwrapper) \<Rightarrow>
        let removed_bytes = msum (msum Data_size) (up_to unwrapped_ssn (os_chunks_by_ssn s));
            s = s\<lparr>os_ssn_unwrapper := unwrapper,
                  os_chunks_by_ssn := after unwrapped_ssn (os_chunks_by_ssn s)\<rparr>;
            s = (if unwrapped_ssn \<ge> os_next_ssn s
                 then s\<lparr>os_next_ssn := next_value unwrapped_ssn\<rparr> else s)
        in case Ordered_TryToAssembleMessages s of (assembled_bytes, messages, s) \<Rightarrow>
          (removed_bytes + assembled_bytes, messages, s))"

definition Ordered_Reset :: "OrderedStream \<Rightarrow> OrderedStream" where
  "Ordered_Reset s =
     (case Unwrap (Reset_unwrapper (os_ssn_unwrapper s)) 0 of (next, unwrapper) \<Rightarrow>
        s\<lparr>os_ssn_unwrapper := unwrapper, os_next_ssn := next\<rparr>)"

section \<open>All streams\<close>

record TraditionalStreams =
  ts_unordered_streams :: "(u16, UnorderedStream) omap"
  ts_ordered_streams :: "(u16, OrderedStream) omap"

definition new_traditional_streams :: TraditionalStreams where
  "new_traditional_streams = \<lparr>ts_unordered_streams = [], ts_ordered_streams = []\<rparr>"

definition Traditional_Add ::
  "int \<Rightarrow> Data \<Rightarrow> TraditionalStreams \<Rightarrow> int \<times> assembled list \<times> TraditionalStreams" where
  "Traditional_Add tsn data ts =
     (if d_is_unordered data
      then case Unordered_Add tsn data
             (find_or new_unordered_stream (d_stream_id data) (ts_unordered_streams ts)) of
        (n, messages, s) \<Rightarrow>
          (n, messages, ts\<lparr>ts_unordered_streams := assign (d_stream_id data) s (ts_unordered_streams ts)\<rparr>)
      else case Ordered_Add tsn data
             (find_or (new_ordered_stream 0) (d_stream_id data) (ts_ordered_streams ts)) of
        (n, messages, s) \<Rightarrow>
          (n, messages, ts\<lparr>ts_ordered_streams := assign (d_stream_id data) s (ts_ordered_streams ts)\<rparr>))"

text \<open>The loop over the skipped streams of a FORWARD-TSN.\<close>

fun Traditional_skip ::
  "SkippedStream list \<Rightarrow> (u16, OrderedStream) omap \<Rightarrow> nat \<times> assembled list \<times> (u16, OrderedStream) omap" where
  "Traditional_skip [] streams = (0, [], streams)"
| "Traditional_skip (sk # sks) streams =
     (case Ordered_EraseTo (sk_ssn sk) (find_or (new_ordered_stream 0) (sk_stream_id sk) streams) of
        (n, messages, s) \<Rightarrow>
          (case Traditional_skip sks (assign (sk_stream_id sk) s streams) of
             (n', messages', streams') \<Rightarrow> (n + n', messages @ messages', streams')))"

definition Traditional_HandleForwardTsn ::
  "int \<Rightarrow> SkippedStream list \<Rightarrow> TraditionalStreams \<Rightarrow> nat \<times> assembled list \<times> TraditionalStreams" where
  "Traditional_HandleForwardTsn new_cumulative_ack_tsn skipped_streams ts =
     (let erased = map (\<lambda>(sid, s). (sid, Unordered_EraseTo new_cumulative_ack_tsn s)) (ts_unordered_streams ts);
          bytes_removed = msum fst erased in
      case Traditional_skip skipped_streams (ts_ordered_streams ts) of (n, messages, ordered) \<Rightarrow>
        (bytes_removed + n, messages,
         \<lparr>ts_unordered_streams = map (\<lambda>(sid, r). (sid, snd r)) erased, ts_ordered_streams = ordered\<rparr>))"

definition Traditional_ResetStreams :: "u16 list \<Rightarrow> TraditionalStreams \<Rightarrow> TraditionalStreams" where
  "Traditional_ResetStreams stream_ids ts =
     ts\<lparr>ts_ordered_streams :=
       (if stream_ids = [] then map (\<lambda>(sid, s). (sid, Ordered_Reset s)) (ts_ordered_streams ts)
        else fold (\<lambda>sid streams. case map_of streams sid of
               None \<Rightarrow> streams | Some s \<Rightarrow> assign sid (Ordered_Reset s) streams)
             stream_ids (ts_ordered_streams ts))\<rparr>"

section \<open>Handover\<close>

definition Traditional_GetHandoverReadiness :: "TraditionalStreams \<Rightarrow> HandoverReadinessStatus" where
  "Traditional_GetHandoverReadiness ts =
     (let status = (if \<exists>(sid, s) \<in> set (ts_ordered_streams ts). os_chunks_by_ssn s \<noteq> []
            then status_Add_reason ready_status kOrderedStreamHasUnassembledChunks else ready_status)
      in if \<exists>(sid, s) \<in> set (ts_unordered_streams ts). us_chunks s \<noteq> []
         then status_Add_reason status kUnorderedStreamHasUnassembledChunks else status)"

definition Traditional_AddHandoverState :: "TraditionalStreams \<Rightarrow> HandoverState \<Rightarrow> HandoverState" where
  "Traditional_AddHandoverState ts state =
     state\<lparr>hs_rx := (hs_rx state)
       \<lparr>hrx_ordered_streams := hrx_ordered_streams (hs_rx state) @
          map (\<lambda>(sid, s). \<lparr>hod_id = ucast sid, hod_next_ssn = ucast (Wrap (os_next_ssn s) :: u16)\<rparr>)
            (ts_ordered_streams ts),
        hrx_unordered_streams := hrx_unordered_streams (hs_rx state) @
          map (\<lambda>(sid, s). \<lparr>hud_id = ucast sid\<rparr>) (ts_unordered_streams ts)\<rparr>\<rparr>"

definition Traditional_RestoreFromState :: "HandoverState \<Rightarrow> TraditionalStreams \<Rightarrow> TraditionalStreams" where
  "Traditional_RestoreFromState state ts =
     ts\<lparr>ts_ordered_streams :=
          fold (\<lambda>h streams. snd (emplace (ucast (hod_id h)) (new_ordered_stream (ucast (hod_next_ssn h))) streams))
            (hrx_ordered_streams (hs_rx state)) (ts_ordered_streams ts),
        ts_unordered_streams :=
          fold (\<lambda>h streams. snd (emplace (ucast (hud_id h)) new_unordered_stream streams))
            (hrx_unordered_streams (hs_rx state)) (ts_unordered_streams ts)\<rparr>"

section \<open>Byte accounting\<close>

definition unordered_ok :: "UnorderedStream \<Rightarrow> bool" where
  "unordered_ok s = omap_ok (us_chunks s)"

definition ordered_ok :: "OrderedStream \<Rightarrow> bool" where
  "ordered_ok s = (by_ok (os_chunks_by_ssn s) \<and> unwrapper_ok (os_ssn_unwrapper s))"

definition ordered_held :: "OrderedStream \<Rightarrow> nat" where
  "ordered_held s = msum (msum Data_size) (os_chunks_by_ssn s)"

definition unordered_held :: "UnorderedStream \<Rightarrow> nat" where
  "unordered_held s = msum Data_size (us_chunks s)"

lemma FindBeginning_le: "FindBeginning chunks iter = Some start \<Longrightarrow> start \<le> iter"
proof (induction chunks iter rule: FindBeginning.induct)
  case (1 chunks iter)
  then show ?case
    by (subst (asm) FindBeginning.simps) (auto split: if_splits)
qed

lemma FindEnd_bounds:
  "FindEnd chunks iter = Some stop \<Longrightarrow> iter < length chunks \<Longrightarrow> iter < stop \<and> stop \<le> length chunks"
proof (induction chunks iter rule: FindEnd.induct)
  case (1 chunks iter)
  then show ?case
    by (subst (asm) (2) FindEnd.simps) (auto split: if_splits)
qed

lemma Unordered_Try_accounts:
  assumes "Unordered_TryToAssembleMessage iter s = (n, ms, s')" "iter < length (us_chunks s)"
  shows "unordered_held s' + n = unordered_held s \<and> delivered_bytes ms = n
    \<and> (unordered_ok s \<longrightarrow> unordered_ok s')"
proof (cases "FindBeginning (us_chunks s) iter")
  case (Some start)
  show ?thesis
  proof (cases "FindEnd (us_chunks s) iter")
    case (Some stop)
    let ?c = "us_chunks s" and ?seg = "take (stop - start) (drop start (us_chunks s))"
    have le: "start \<le> iter" "iter < stop" "stop \<le> length ?c"
      using FindBeginning_le FindEnd_bounds Some \<open>FindBeginning ?c iter = Some start\<close> assms(2) by blast+
    then have parts: "?c = take start ?c @ ?seg @ drop stop ?c"
      by (metis add_diff_cancel_left' append_take_drop_id drop_drop le_add_diff_inverse
          less_imp_le_nat order_trans take_add append_assoc)
    have "?seg \<noteq> []" using le by simp
    note bytes = AssembleMessage_bytes[OF this]
    have s': "n = msum Data_size ?seg" "delivered_bytes ms = n"
        "us_chunks s' = take start ?c @ drop stop ?c"
      using assms(1) Some \<open>FindBeginning ?c iter = Some start\<close> bytes
      by (auto simp: Unordered_TryToAssembleMessage_def Let_def case_prod_beta)
    have "msum Data_size ?c = msum Data_size (take start ?c) + n + msum Data_size (drop stop ?c)"
      using s'(1) arg_cong[OF parts, of "msum Data_size"] by simp
    moreover have "omap_ok (take start ?c @ drop stop ?c)" if "omap_ok ?c"
    proof -
      have "sorted_wrt (<) (map fst (take start ?c) @ map fst ?seg @ map fst (drop stop ?c))"
        using that parts by (metis map_append omap_ok_def)
      then show ?thesis by (simp add: omap_ok_def sorted_wrt_append)
    qed
    ultimately show ?thesis
      using s' by (simp add: unordered_held_def unordered_ok_def)
  qed (use assms Some in \<open>auto simp: Unordered_TryToAssembleMessage_def\<close>)
qed (use assms in \<open>auto simp: Unordered_TryToAssembleMessage_def\<close>)

lemma position_less:
  "omap_ok m \<Longrightarrow> tsn \<in> fst ` set m \<Longrightarrow> position tsn m < length m \<and> fst (m ! position tsn m) = tsn"
  by (induction m) (auto simp: position_def)

lemma Unordered_Add_accounts:
  assumes "Unordered_Add tsn d s = (n, ms, s')" "unordered_ok s"
  shows "int (unordered_held s') = int (unordered_held s) + n \<and> unordered_ok s'
    \<and> (n = int (Data_size d) - int (delivered_bytes ms) \<or> n = 0 \<and> ms = [])"
proof (cases "d_is_beginning d \<and> d_is_end d \<or> \<not> fst (emplace tsn d (us_chunks s))")
  case True
  then show ?thesis
    using assms by (auto simp: Unordered_Add_def AssembleMessage_single_def Data_size_def split: prod.splits if_splits)
next
  case False
  let ?c = "snd (emplace tsn d (us_chunks s))"
  have ok: "omap_ok ?c" "tsn \<in> fst ` set ?c"
    using assms(2) by (simp_all add: unordered_ok_def keys_emplace)
  obtain k ms1 s1 where "Unordered_TryToAssembleMessage (position tsn ?c) (s\<lparr>us_chunks := ?c\<rparr>) = (k, ms1, s1)"
    by (metis prod_cases3)
  then have t: "Unordered_TryToAssembleMessage (position tsn ?c) (s\<lparr>us_chunks := ?c\<rparr>) = (k, ms, s')"
      "n = int (Data_size d) - int k"
    using assms(1) False by (auto simp: Unordered_Add_def case_prod_beta)
  from Unordered_Try_accounts[OF t(1)] position_less[OF ok]
  have "unordered_held s' + k = unordered_held (s\<lparr>us_chunks := ?c\<rparr>)" "delivered_bytes ms = k" "unordered_ok s'"
    using ok by (auto simp: unordered_ok_def)
  then show ?thesis
    using t(2) False by (auto simp: unordered_held_def)
qed

lemma Ordered_Try_accounts:
  assumes "Ordered_TryToAssembleMessage s = (n, ms, s')" "ordered_ok s"
  shows "ordered_held s' + n = ordered_held s \<and> delivered_bytes ms = n \<and> ordered_ok s'"
proof (cases "n = 0 \<and> ms = [] \<and> s' = s")
  case False
  then obtain ssn chunks rest where c: "os_chunks_by_ssn s = (ssn, chunks) # rest"
      "AssembleMessage chunks = (n, hd ms)" "ms = [hd ms]"
      "s' = s\<lparr>os_chunks_by_ssn := rest, os_next_ssn := next_value (os_next_ssn s)\<rparr>"
    using assms(1) by (auto simp: Ordered_TryToAssembleMessage_def split: list.splits if_splits prod.splits)
  then have "chunks \<noteq> []"
    using assms(2) by (auto simp: ordered_ok_def by_ok_def)
  from AssembleMessage_bytes[OF this] have "n = msum Data_size chunks" "delivered_bytes [hd ms] = n"
    using c(2) by auto
  then show ?thesis
    using assms(2) c(1,3,4) by (simp add: ordered_held_def ordered_ok_def by_ok_def)
qed (use assms(2) in auto)

lemma Ordered_Trys_accounts:
  "Ordered_TryToAssembleMessages s = (n, ms, s') \<Longrightarrow> ordered_ok s \<Longrightarrow>
     ordered_held s' + n = ordered_held s \<and> delivered_bytes ms = n \<and> ordered_ok s'"
proof (induction s arbitrary: n ms s' rule: Ordered_TryToAssembleMessages.induct)
  case (1 s)
  obtain k m1 s1 where t1: "Ordered_TryToAssembleMessage s = (k, m1, s1)"
    by (metis prod_cases3)
  obtain n2 m2 s2 where trys: "Ordered_TryToAssembleMessages s1 = (n2, m2, s2)"
    by (metis prod_cases3)
  note step = Ordered_Try_accounts[OF t1 1(3)]
  show ?case
  proof (cases "k = 0")
    case True
    then show ?thesis
      using 1(2) step by (subst (asm) Ordered_TryToAssembleMessages.simps) (auto simp: t1)
  next
    case False
    then have "ordered_held s2 + n2 = ordered_held s1 \<and> delivered_bytes m2 = n2 \<and> ordered_ok s2"
      using 1(1)[OF t1[symmetric] refl _ trys] step by simp
    then show ?thesis
      using 1(2) step False by (subst (asm) Ordered_TryToAssembleMessages.simps) (auto simp: t1 trys)
  qed
qed

lemma ordered_frame [simp]:
  "ordered_held (s\<lparr>os_next_ssn := i\<rparr>) = ordered_held s" "ordered_ok (s\<lparr>os_next_ssn := i\<rparr>) = ordered_ok s"
  "ordered_held (s\<lparr>os_ssn_unwrapper := u\<rparr>) = ordered_held s"
  "ordered_ok (s\<lparr>os_ssn_unwrapper := u\<rparr>) \<longleftrightarrow> by_ok (os_chunks_by_ssn s) \<and> unwrapper_ok u"
  by (simp_all add: ordered_held_def ordered_ok_def)

lemma Fastpath_accounts:
  assumes "Ordered_TryToAssembleMessagesFastpath ssn tsn d s = (n, ms, s')" "ordered_ok s"
  shows "ordered_held s' + n = ordered_held s + Data_size d \<and> ordered_ok s'
    \<and> (n = delivered_bytes ms \<or> n = Data_size d \<and> ms = [])"
proof (cases "d_is_beginning d \<and> d_is_end d")
  case True
  obtain k m1 s1 where t: "Ordered_TryToAssembleMessages (s\<lparr>os_next_ssn := next_value (os_next_ssn s)\<rparr>) = (k, m1, s1)"
    by (metis prod_cases3)
  then show ?thesis
    using Ordered_Trys_accounts[OF t] assms True
    by (auto simp: Ordered_TryToAssembleMessagesFastpath_def AssembleMessage_single_def Data_size_def)
next
  case False
  obtain inserted m' where e: "emplace_by ssn tsn d (os_chunks_by_ssn s) = (inserted, m')"
    by fastforce
  have ok: "ordered_ok (s\<lparr>os_chunks_by_ssn := m'\<rparr>)"
    "ordered_held (s\<lparr>os_chunks_by_ssn := m'\<rparr>) = ordered_held s + (if inserted then Data_size d else 0)"
    using emplace_by_accounts[OF _ e, of Data_size] assms(2) by (auto simp: ordered_ok_def ordered_held_def)
  show ?thesis
  proof (cases inserted)
    case True
    then show ?thesis
      using Ordered_Trys_accounts[of "s\<lparr>os_chunks_by_ssn := m'\<rparr>" n ms s'] assms(1) False ok
      by (auto simp: Ordered_TryToAssembleMessagesFastpath_def e)
  qed (use assms(1) False ok in \<open>auto simp: Ordered_TryToAssembleMessagesFastpath_def e\<close>)
qed

lemma Ordered_Add_accounts:
  assumes "Ordered_Add tsn d s = (n, ms, s')" "ordered_ok s"
  shows "int (ordered_held s') = int (ordered_held s) + n \<and> ordered_ok s'
    \<and> (n = int (Data_size d) - int (delivered_bytes ms) \<or> n = 0 \<and> ms = [])"
proof -
  obtain ssn u where u: "Unwrap (os_ssn_unwrapper s) (d_ssn d) = (ssn, u)" by fastforce
  have s1: "ordered_ok (s\<lparr>os_ssn_unwrapper := u\<rparr>)"
    using assms(2) unwrapper_ok_Unwrap[of "os_ssn_unwrapper s" "d_ssn d"] u by (simp add: ordered_ok_def)
  show ?thesis
  proof (cases "ssn = os_next_ssn s")
    case True
    obtain k m1 s2 where f: "Ordered_TryToAssembleMessagesFastpath ssn tsn d (s\<lparr>os_ssn_unwrapper := u\<rparr>) = (k, m1, s2)"
      by (metis prod_cases3)
    then show ?thesis
      using Fastpath_accounts[OF f s1] assms(1) True by (auto simp: Ordered_Add_def u)
  next
    case False
    obtain inserted m' where e: "emplace_by ssn tsn d (os_chunks_by_ssn s) = (inserted, m')"
      by fastforce
    show ?thesis
      using emplace_by_accounts[OF _ e, of Data_size] s1 assms False
      by (auto simp: Ordered_Add_def u e ordered_ok_def ordered_held_def)
  qed
qed

lemma Ordered_EraseTo_accounts:
  assumes "Ordered_EraseTo ssn s = (n, ms, s')" "ordered_ok s"
  shows "ordered_held s' + n = ordered_held s \<and> delivered_bytes ms \<le> n \<and> ordered_ok s'"
proof -
  obtain i u where u: "Unwrap (os_ssn_unwrapper s) ssn = (i, u)" by fastforce
  have uok: "unwrapper_ok u"
    using assms(2) unwrapper_ok_Unwrap[of "os_ssn_unwrapper s" ssn] u by (simp add: ordered_ok_def)
  define s1 where "s1 = s\<lparr>os_ssn_unwrapper := u, os_chunks_by_ssn := after i (os_chunks_by_ssn s)\<rparr>"
  define s2 where "s2 = (if i \<ge> os_next_ssn s1 then s1\<lparr>os_next_ssn := next_value i\<rparr> else s1)"
  obtain k s3 m1 where t: "Ordered_TryToAssembleMessages s2 = (k, m1, s3)"
    by (metis prod_cases3)
  have "ordered_ok s2" "ordered_held s2 = msum (msum Data_size) (after i (os_chunks_by_ssn s))"
    using assms(2) uok by (auto simp: s2_def s1_def ordered_ok_def ordered_held_def)
  moreover have "n = msum (msum Data_size) (up_to i (os_chunks_by_ssn s)) + k" "ms = m1" "s' = s3"
    using assms(1) unfolding Ordered_EraseTo_def u Let_def prod.case s1_def[symmetric] s2_def[symmetric] t
    by simp_all
  ultimately show ?thesis
    using Ordered_Trys_accounts[OF t] msum_split[of "msum Data_size" i "os_chunks_by_ssn s"]
    by (simp add: ordered_held_def[of s])
qed

definition traditional_ok :: "TraditionalStreams \<Rightarrow> bool" where
  "traditional_ok ts = (omap_all unordered_ok (ts_unordered_streams ts)
     \<and> omap_all ordered_ok (ts_ordered_streams ts))"

definition traditional_held :: "TraditionalStreams \<Rightarrow> nat" where
  "traditional_held ts =
     msum unordered_held (ts_unordered_streams ts) + msum ordered_held (ts_ordered_streams ts)"

lemma new_streams_ok [simp]:
  "unordered_ok new_unordered_stream" "unordered_held new_unordered_stream = 0"
  "ordered_ok (new_ordered_stream ssn)" "ordered_held (new_ordered_stream ssn) = 0"
  using unwrapper_ok_Unwrap[OF unwrapper_ok_new, of ssn]
  by (auto simp: new_unordered_stream_def unordered_ok_def unordered_held_def new_ordered_stream_def
      ordered_ok_def ordered_held_def by_ok_def split: prod.splits)

lemma Traditional_Add_accounts:
  assumes "Traditional_Add tsn d ts = (n, ms, ts')" "traditional_ok ts"
  shows "traditional_ok ts' \<and> int (traditional_held ts') = int (traditional_held ts) + n
    \<and> (n = int (Data_size d) - int (delivered_bytes ms) \<or> n = 0 \<and> ms = [])"
proof (cases "d_is_unordered d")
  case True
  let ?m = "ts_unordered_streams ts"
  let ?s = "find_or new_unordered_stream (d_stream_id d) ?m"
  obtain s' where a: "Unordered_Add tsn d ?s = (n, ms, s')"
      "ts' = ts\<lparr>ts_unordered_streams := assign (d_stream_id d) s' ?m\<rparr>"
    using assms(1) True by (auto simp: Traditional_Add_def split: prod.splits)
  have m: "omap_all unordered_ok ?m" using assms(2) by (simp add: traditional_ok_def)
  then have s: "int (unordered_held s') = int (unordered_held ?s) + n" "unordered_ok s'"
      "n = int (Data_size d) - int (delivered_bytes ms) \<or> n = 0 \<and> ms = []"
    using Unordered_Add_accounts[OF a(1)] by auto
  have "msum unordered_held (assign (d_stream_id d) s' ?m) + unordered_held ?s
      = msum unordered_held ?m + unordered_held s'"
    using m by (intro msum_assign_find_or) auto
  with s m assms(2) show ?thesis
    by (auto simp: a(2) traditional_ok_def traditional_held_def)
next
  case False
  let ?m = "ts_ordered_streams ts"
  let ?s = "find_or (new_ordered_stream 0) (d_stream_id d) ?m"
  obtain s' where a: "Ordered_Add tsn d ?s = (n, ms, s')"
      "ts' = ts\<lparr>ts_ordered_streams := assign (d_stream_id d) s' ?m\<rparr>"
    using assms(1) False by (auto simp: Traditional_Add_def split: prod.splits)
  have m: "omap_all ordered_ok ?m" using assms(2) by (simp add: traditional_ok_def)
  then have s: "int (ordered_held s') = int (ordered_held ?s) + n" "ordered_ok s'"
      "n = int (Data_size d) - int (delivered_bytes ms) \<or> n = 0 \<and> ms = []"
    using Ordered_Add_accounts[OF a(1)] by auto
  have "msum ordered_held (assign (d_stream_id d) s' ?m) + ordered_held ?s
      = msum ordered_held ?m + ordered_held s'"
    using m by (intro msum_assign_find_or) auto
  with s m assms(2) show ?thesis
    by (auto simp: a(2) traditional_ok_def traditional_held_def)
qed

lemma Traditional_skip_accounts:
  "Traditional_skip sks m = (n, ms, m') \<Longrightarrow> omap_all ordered_ok m \<Longrightarrow>
     omap_all ordered_ok m' \<and> msum ordered_held m' + n = msum ordered_held m \<and> delivered_bytes ms \<le> n"
proof (induction sks m arbitrary: n ms m' rule: Traditional_skip.induct)
  case (2 sk sks m)
  let ?s = "find_or (new_ordered_stream 0) (sk_stream_id sk) m"
  obtain k m1 s' where e: "Ordered_EraseTo (sk_ssn sk) ?s = (k, m1, s')"
    by (metis prod_cases3)
  let ?m = "assign (sk_stream_id sk) s' m"
  obtain k2 m2 m'' where r: "Traditional_skip sks ?m = (k2, m2, m'')"
    by (metis prod_cases3)
  have s: "ordered_held s' + k = ordered_held ?s" "delivered_bytes m1 \<le> k" "ordered_ok s'"
    using Ordered_EraseTo_accounts[OF e] "2.prems"(2) by auto
  have "msum ordered_held ?m + ordered_held ?s = msum ordered_held m + ordered_held s'"
    using "2.prems"(2) by (intro msum_assign_find_or) auto
  moreover have "omap_all ordered_ok m'' \<and> msum ordered_held m'' + k2 = msum ordered_held ?m
      \<and> delivered_bytes m2 \<le> k2"
    using "2.IH"[OF e[symmetric] refl r] s "2.prems"(2) by simp
  ultimately show ?case
    using "2.prems"(1) e r s by auto
qed simp

lemma Traditional_Forward_accounts:
  assumes "Traditional_HandleForwardTsn t sks ts = (n, ms, ts')" "traditional_ok ts"
  shows "traditional_ok ts' \<and> traditional_held ts' + n = traditional_held ts \<and> delivered_bytes ms \<le> n"
proof -
  obtain k ordered where sk: "Traditional_skip sks (ts_ordered_streams ts) = (k, ms, ordered)"
    using assms(1) by (auto simp: Traditional_HandleForwardTsn_def Let_def split: prod.splits)
  have "omap_all (unordered_ok \<circ> (snd \<circ> Unordered_EraseTo t)) (ts_unordered_streams ts)"
    using assms(2) by (auto simp: traditional_ok_def omap_all_def unordered_ok_def Unordered_EraseTo_def)
  moreover have split: "unordered_held s = fst (Unordered_EraseTo t s) + unordered_held (snd (Unordered_EraseTo t s))" for s
    using msum_split[of Data_size t "us_chunks s"] by (simp add: unordered_held_def Unordered_EraseTo_def)
  have "msum unordered_held (ts_unordered_streams ts)
      = msum (\<lambda>s. fst (Unordered_EraseTo t s) + unordered_held (snd (Unordered_EraseTo t s))) (ts_unordered_streams ts)"
    by (intro msum_cong split)
  then have "msum unordered_held (ts_unordered_streams ts)
      = msum (fst \<circ> Unordered_EraseTo t) (ts_unordered_streams ts)
        + msum (unordered_held \<circ> (snd \<circ> Unordered_EraseTo t)) (ts_unordered_streams ts)"
    by (simp only: msum_add comp_def)
  moreover have "n = msum (fst \<circ> Unordered_EraseTo t) (ts_unordered_streams ts) + k"
    "ts' = \<lparr>ts_unordered_streams = map (\<lambda>(sid, s). (sid, (snd \<circ> Unordered_EraseTo t) s)) (ts_unordered_streams ts),
            ts_ordered_streams = ordered\<rparr>"
    using assms(1) by (auto simp: Traditional_HandleForwardTsn_def Let_def sk comp_def)
  ultimately show ?thesis
    using assms(2) Traditional_skip_accounts[OF sk] by (simp add: traditional_ok_def traditional_held_def comp_def)
qed

lemma Ordered_Reset_accounts [simp]:
  "ordered_ok s \<Longrightarrow> ordered_ok (Ordered_Reset s)" "ordered_held (Ordered_Reset s) = ordered_held s"
  using unwrapper_ok_Unwrap[OF unwrapper_ok_Reset, of "os_ssn_unwrapper s" 0]
  by (auto simp: Ordered_Reset_def ordered_ok_def split: prod.splits)

lemma Traditional_Reset_accounts:
  assumes "traditional_ok ts"
  shows "traditional_ok (Traditional_ResetStreams ids ts)
    \<and> traditional_held (Traditional_ResetStreams ids ts) = traditional_held ts"
proof (cases "ids = []")
  case True
  then show ?thesis
    using assms omap_all_mono[of ordered_ok "ts_ordered_streams ts" "ordered_ok \<circ> Ordered_Reset"]
    by (simp add: Traditional_ResetStreams_def traditional_ok_def traditional_held_def msum_cong[of _ "ordered_held \<circ> Ordered_Reset" ordered_held])
next
  case False
  let ?f = "\<lambda>sid streams. case map_of streams sid of
      None \<Rightarrow> streams | Some s \<Rightarrow> assign sid (Ordered_Reset s) streams"
  have "omap_all ordered_ok (fold ?f ids m) \<and> msum ordered_held (fold ?f ids m) = msum ordered_held m"
    if "omap_all ordered_ok m" for m
    using that
  proof (induction ids arbitrary: m)
    case (Cons i ids)
    have "omap_all ordered_ok (?f i m) \<and> msum ordered_held (?f i m) = msum ordered_held m"
    proof (cases "map_of m i")
      case (Some s)
      then show ?thesis
        using Cons.prems msum_assign[of m ordered_held i "Ordered_Reset s"] omap_all_lookup[OF Cons.prems Some]
        by auto
    qed (use Cons.prems in simp)
    with Cons.IH[of "?f i m"] show ?case by simp
  qed simp
  then show ?thesis
    using assms False by (simp add: Traditional_ResetStreams_def traditional_ok_def traditional_held_def)
qed

interpretation traditional: reassembly_streams Traditional_Add Traditional_HandleForwardTsn
  Traditional_ResetStreams traditional_ok traditional_held
  by unfold_locales
    (use Traditional_Add_accounts Traditional_Forward_accounts Traditional_Reset_accounts in blast)+

end
