(* ===== verification/Traditional_Delivery.thy ===== *)
theory Traditional_Delivery
  imports Traditional_Reassembly
begin

text \<open>
  What the traditional reassembler delivers: messages on an ordered stream come out in the order
  in which they were sent, whatever the order in which their chunks arrive, and each as soon as it
  and everything before it is complete.
\<close>

section \<open>What the sender puts on the wire\<close>

text \<open>
  A message of a stream: its payload protocol identifier, the pieces it was cut into and the number
  of its first chunk.  The other pieces have the numbers that follow.
\<close>

record sent_message =
  sm_ppid :: u32
  sm_tsn :: int
  sm_pieces :: "bytes list"

definition sent_ok :: "sent_message \<Rightarrow> bool" where
  "sent_ok m = (sm_pieces m \<noteq> [] \<and> [] \<notin> set (sm_pieces m) \<and> length (sm_pieces m) \<le> 2 ^ 32)"

definition pieces :: "sent_message list \<Rightarrow> nat \<Rightarrow> nat" where
  "pieces ms j = length (sm_pieces (ms ! j))"

definition chunk_tsn :: "sent_message list \<Rightarrow> nat \<Rightarrow> nat \<Rightarrow> int" where
  "chunk_tsn ms j i = sm_tsn (ms ! j) + int i"

text \<open>The \<open>i\<close>-th chunk of the \<open>j\<close>-th message, when the first message has sequence number \<open>b\<close>.\<close>

definition chunk_data :: "u16 \<Rightarrow> int \<Rightarrow> bool \<Rightarrow> sent_message list \<Rightarrow> nat \<Rightarrow> nat \<Rightarrow> Data" where
  "chunk_data sid b unordered ms j i =
     \<lparr>d_stream_id = sid, d_ssn = Wrap (b + int j), d_mid = 0, d_fsn = 0, d_ppid = sm_ppid (ms ! j),
      d_payload = sm_pieces (ms ! j) ! i, d_is_beginning = (i = 0),
      d_is_end = (Suc i = pieces ms j), d_is_unordered = unordered\<rparr>"

definition whole :: "u16 \<Rightarrow> sent_message list \<Rightarrow> nat \<Rightarrow> assembled" where
  "whole sid ms j =
     (map (chunk_tsn ms j) [0..<pieces ms j],
      \<lparr>msg_stream_id = sid, msg_ppid = sm_ppid (ms ! j), msg_payload = concat (sm_pieces (ms ! j))\<rparr>)"

fun Ordered_run :: "(int \<times> Data) list \<Rightarrow> OrderedStream \<Rightarrow> assembled list \<times> OrderedStream" where
  "Ordered_run [] s = ([], s)"
| "Ordered_run ((tsn, d) # cs) s =
     (case Ordered_Add tsn d s of (n, out, s') \<Rightarrow>
        (case Ordered_run cs s' of (out', s'') \<Rightarrow> (out @ out', s'')))"

lemma AssembleMessage_whole:
  assumes "j < length ms" "sent_ok (ms ! j)"
  shows "AssembleMessage (entries (chunk_tsn ms j) (chunk_data sid b u ms j) [0..<pieces ms j])
    = (length (concat (sm_pieces (ms ! j))), whole sid ms j)"
proof -
  let ?c = "entries (chunk_tsn ms j) (chunk_data sid b u ms j) [0..<pieces ms j]"
  have ne: "?c \<noteq> []" and pos: "0 < pieces ms j"
    using assms(2) by (simp_all add: sent_ok_def pieces_def)
  have payload: "map (d_payload \<circ> snd) ?c = sm_pieces (ms ! j)"
    by (simp add: entries_def chunk_data_def pieces_def comp_def map_nth)
  have "snd (hd ?c) = chunk_data sid b u ms j 0"
    using pos by (simp add: entries_def hd_map)
  moreover have "map fst ?c = map (chunk_tsn ms j) [0..<pieces ms j]"
    by (simp add: entries_def)
  moreover have "msum Data_size ?c = length (concat (sm_pieces (ms ! j)))"
    using length_payloads[of ?c] unfolding payload by simp
  ultimately show ?thesis
    unfolding AssembleMessage_eq[OF ne] payload by (simp add: whole_def chunk_data_def)
qed

lemma single_whole:
  assumes "pieces ms j = 1" "i < pieces ms j"
  shows "snd (AssembleMessage_single (chunk_tsn ms j i) (chunk_data sid b u ms j i)) = whole sid ms j"
  using assms by (cases "sm_pieces (ms ! j)") (auto simp: AssembleMessage_single_def whole_def chunk_data_def pieces_def)

lemma whole_nonempty: "sent_ok (ms ! j) \<Longrightarrow> 0 < length (concat (sm_pieces (ms ! j)))"
  by (cases "sm_pieces (ms ! j)") (auto simp: sent_ok_def)

section \<open>Ordered streams\<close>

definition ordered_buffer :: "u16 \<Rightarrow> int \<Rightarrow> sent_message list \<Rightarrow> (nat \<times> nat) set \<Rightarrow> nat \<Rightarrow> (int, ChunkMap) omap" where
  "ordered_buffer sid b ms S k =
     buffered b (chunk_tsn ms) (chunk_data sid b False ms) (pieces ms) (length ms) S k"

text \<open>The test of the code on the first buffered message is exactly that all its chunks are there.\<close>

lemma complete_test:
  assumes "sent_ok (ms ! j)" "arrived (pieces ms) S j \<noteq> []"
    and c: "c = entries (chunk_tsn ms j) (chunk_data sid b u ms j) (arrived (pieces ms) S j)"
  shows "d_is_beginning (snd (hd c)) \<and> d_is_end (snd (last c))
      \<and> unat (Difference (fst (last c)) (fst (hd c)) :: u32) = length c - 1
    \<longleftrightarrow> is_complete (pieces ms) S j"
proof -
  let ?is = "arrived (pieces ms) S j"
  have last: "last ?is < pieces ms j"
    using last_in_set[OF assms(2)] by auto
  have small: "last ?is < 2 ^ 32"
    using last assms(1) by (simp add: sent_ok_def pieces_def)
  have flags: "d_is_beginning (snd (hd c)) \<longleftrightarrow> hd ?is = 0" "d_is_end (snd (last c)) \<longleftrightarrow> Suc (last ?is) = pieces ms j"
    using assms(2) by (simp_all add: c entries_hd_last chunk_data_def)
  have diff: "unat (Difference (fst (last c)) (fst (hd c)) :: u32) = last ?is" if "hd ?is = 0"
    using that assms(2) small
    by (simp add: c entries_hd_last chunk_tsn_def Difference_def unsigned_of_nat take_bit_nat_eq_self)
  have "is_complete (pieces ms) S j \<longleftrightarrow> length ?is = pieces ms j"
    using complete_indices[OF _ arrived_sub assms(2)] by (simp add: arrived_complete)
  moreover have "hd ?is = 0 \<and> Suc (last ?is) = pieces ms j" if "?is = [0..<pieces ms j]"
    using that assms(2) by (metis One_nat_def Suc_pred hd_upt last_upt length_greater_0_conv length_upt minus_nat.diff_0 upt_0)
  moreover have "length ?is - 1 = last ?is \<longleftrightarrow> length ?is = Suc (last ?is)"
    using assms(2) by (cases ?is) auto
  ultimately show ?thesis
    using flags diff by (auto simp: c arrived_complete)
qed

lemma Try_buffered:
  assumes "\<forall>m \<in> set ms. sent_ok m" "k \<le> length ms"
    and s: "os_chunks_by_ssn s = ordered_buffer sid b ms S k" "os_next_ssn s = b + int k"
  shows "Ordered_TryToAssembleMessage s =
    (if k < length ms \<and> is_complete (pieces ms) S k
     then (length (concat (sm_pieces (ms ! k))), [whole sid ms k],
           s\<lparr>os_chunks_by_ssn := ordered_buffer sid b ms S (Suc k), os_next_ssn := b + int (Suc k)\<rparr>)
     else (0, [], s))"
proof (cases "k < length ms \<and> arrived (pieces ms) S k \<noteq> []")
  case True
  let ?c = "entries (chunk_tsn ms k) (chunk_data sid b False ms k) (arrived (pieces ms) S k)"
  have ok: "sent_ok (ms ! k)" using assms(1) True by simp
  have buf: "os_chunks_by_ssn s = (b + int k, ?c) # ordered_buffer sid b ms S (Suc k)"
    using True by (simp add: s(1) ordered_buffer_def buffered_Cons)
  note test = complete_test[OF ok conjunct2[OF True] refl, of sid b False]
  have "AssembleMessage ?c = (length (concat (sm_pieces (ms ! k))), whole sid ms k)"
    if "is_complete (pieces ms) S k"
    using that AssembleMessage_whole[OF conjunct1[OF True] ok] by (simp add: arrived_complete)
  then show ?thesis
    unfolding Ordered_TryToAssembleMessage_def buf list.case prod.case
    using True test s(2) by (auto simp: next_value_def)
next
  case False
  have "is_complete (pieces ms) S k \<Longrightarrow> length (arrived (pieces ms) S k) = pieces ms k"
    by (simp add: arrived_complete)
  then have none: "\<not> (k < length ms \<and> is_complete (pieces ms) S k)"
    using False assms(1) by (auto simp: sent_ok_def pieces_def)
  have "ordered_buffer sid b ms S k = ordered_buffer sid b ms S (Suc k)"
    using False buffered_skip by (cases "k < length ms") (auto simp: ordered_buffer_def buffered_def)
  then have "x \<noteq> b + int k" if "os_chunks_by_ssn s = (x, c) # r" for x c r
    using that buffered_hd[of b _ _ _ _ S "Suc k" x c r] by (fastforce simp: s(1) ordered_buffer_def)
  then show ?thesis
    using none by (auto simp: Ordered_TryToAssembleMessage_def s(2) split: list.splits)
qed

lemma Trys_buffered:
  assumes "\<forall>m \<in> set ms. sent_ok m" "k \<le> length ms"
    and "os_chunks_by_ssn s = ordered_buffer sid b ms S k" "os_next_ssn s = b + int k"
    and g: "g = first_gap (pieces ms) (length ms) S k"
  shows "snd (Ordered_TryToAssembleMessages s) =
    (map (whole sid ms) [k..<g], s\<lparr>os_chunks_by_ssn := ordered_buffer sid b ms S g, os_next_ssn := b + int g\<rparr>)"
  using assms(2-4) g
proof (induction "length ms - k" arbitrary: k s)
  case 0
  then show ?case
    using Try_buffered[OF assms(1), of k s sid b S]
    by (subst Ordered_TryToAssembleMessages.simps) (simp add: first_gap_rec[of _ _ _ k])
next
  case (Suc d)
  show ?case
  proof (cases "is_complete (pieces ms) S k")
    case True
    let ?s = "s\<lparr>os_chunks_by_ssn := ordered_buffer sid b ms S (Suc k), os_next_ssn := b + int (Suc k)\<rparr>"
    have k: "k < length ms" "sent_ok (ms ! k)" using Suc assms(1) by auto
    have g: "g = first_gap (pieces ms) (length ms) S (Suc k)"
      using Suc.prems(4) k True by (subst (asm) first_gap_rec) simp
    then have "snd (Ordered_TryToAssembleMessages ?s) = (map (whole sid ms) [Suc k..<g],
        ?s\<lparr>os_chunks_by_ssn := ordered_buffer sid b ms S g, os_next_ssn := b + int g\<rparr>)"
      using Suc k by (intro Suc.hyps(1)) auto
    moreover have "Suc k \<le> g" using g first_gap_bounds[of "Suc k" "length ms" "pieces ms" S] k by simp
    ultimately show ?thesis
      using Try_buffered[OF assms(1) Suc.prems(1-3)] k True whole_nonempty[OF k(2)]
      by (subst Ordered_TryToAssembleMessages.simps) (auto simp: case_prod_beta upt_conv_Cons)
  next
    case False
    then show ?thesis
      using Try_buffered[OF assms(1) Suc.prems(1-3)] Suc.prems
      by (subst Ordered_TryToAssembleMessages.simps) (simp add: first_gap_rec[of _ _ _ k])
  qed
qed

abbreviation gap :: "sent_message list \<Rightarrow> (nat \<times> nat) set \<Rightarrow> nat" where
  "gap ms S \<equiv> first_gap (pieces ms) (length ms) S 0"

definition ordered_after :: "u16 \<Rightarrow> int \<Rightarrow> sent_message list \<Rightarrow> (nat \<times> nat) set \<Rightarrow> int \<Rightarrow> OrderedStream" where
  "ordered_after sid b ms S u =
     \<lparr>os_chunks_by_ssn = ordered_buffer sid b ms S (gap ms S),
      os_ssn_unwrapper = \<lparr>last_unwrapped = u, last_value = Some (word_of_int u)\<rparr>,
      os_next_ssn = b + int (gap ms S)\<rparr>"

lemma gap_insert:
  assumes "k = gap ms S" "k \<le> j" "j < length ms"
  shows "gap ms (insert (j, i) S) = first_gap (pieces ms) (length ms) (insert (j, i) S) k"
proof (rule first_gap_skip)
  show "is_complete (pieces ms) (insert (j, i) S) x" if "0 \<le> x" "x < k" for x
    using first_gap_below[of 0 x "pieces ms" "length ms" S] that assms(1)
    by (auto intro: is_complete_mono)
qed (use assms in auto)

lemma missing_above_gap:
  assumes "(j, i) \<notin> S" "j < length ms" "i < pieces ms j"
  shows "gap ms S \<le> j"
  using first_gap_below[of 0 j "pieces ms" "length ms" S] assms
  by (auto simp: is_complete_def not_le[symmetric])

lemma emplace_ordered_buffer:
  assumes "k \<le> j" "j < length ms" "i < pieces ms j" "(j, i) \<notin> S"
  shows "emplace_by (b + int j) (chunk_tsn ms j i) (chunk_data sid b False ms j i) (ordered_buffer sid b ms S k)
    = (True, ordered_buffer sid b ms (insert (j, i) S) k)"
  unfolding ordered_buffer_def
  by (rule emplace_by_buffered) (use assms in \<open>auto simp: chunk_tsn_def\<close>)

lemma Fastpath_buffered:
  assumes "\<forall>m \<in> set ms. sent_ok m" "k < length ms" "i < pieces ms k" "(k, i) \<notin> S"
    and s: "os_chunks_by_ssn s = ordered_buffer sid b ms S k" "os_next_ssn s = b + int k"
    and g: "g = first_gap (pieces ms) (length ms) (insert (k, i) S) k"
  shows "snd (Ordered_TryToAssembleMessagesFastpath (b + int k) (chunk_tsn ms k i) (chunk_data sid b False ms k i) s)
    = (map (whole sid ms) [k..<g],
       s\<lparr>os_chunks_by_ssn := ordered_buffer sid b ms (insert (k, i) S) g, os_next_ssn := b + int g\<rparr>)"
proof (cases "pieces ms k = 1")
  case True
  let ?S = "insert (k, i) S"
  let ?s = "s\<lparr>os_next_ssn := next_value (os_next_ssn s)\<rparr>"
  have i: "i = 0" and flags: "d_is_beginning (chunk_data sid b False ms k i)" "d_is_end (chunk_data sid b False ms k i)"
    using True assms(3) by (simp_all add: chunk_data_def)
  have "arrived (pieces ms) S k = []"
    using True assms(4) i by (simp add: arrived_def)
  then have "os_chunks_by_ssn ?s = ordered_buffer sid b ms ?S (Suc k)"
    by (simp add: s(1) ordered_buffer_def buffered_insert_below buffered_skip)
  moreover have gSuc: "g = first_gap (pieces ms) (length ms) ?S (Suc k)"
    using g assms(2) True i by (subst (asm) first_gap_rec) (simp add: is_complete_def)
  moreover have "Suc k \<le> g"
    using gSuc first_gap_bounds[of "Suc k" "length ms" "pieces ms" ?S] assms(2) by simp
  moreover have "snd (AssembleMessage_single (chunk_tsn ms k i) (chunk_data sid b False ms k i)) = whole sid ms k"
    using True assms(3) by (rule single_whole)
  ultimately show ?thesis
    using Trys_buffered[OF assms(1) Suc_leI[OF assms(2)], of ?s sid b ?S g] s(2) flags
    by (simp add: Ordered_TryToAssembleMessagesFastpath_def case_prod_beta next_value_def upt_conv_Cons)
next
  case False
  have "\<not> (d_is_beginning (chunk_data sid b False ms k i) \<and> d_is_end (chunk_data sid b False ms k i))"
    using False by (auto simp: chunk_data_def)
  then show ?thesis
    using Trys_buffered[OF assms(1) less_imp_le[OF assms(2)],
        of "s\<lparr>os_chunks_by_ssn := ordered_buffer sid b ms (insert (k, i) S) k\<rparr>" sid b "insert (k, i) S" g] s g
      emplace_ordered_buffer[OF order_refl assms(2-4)]
    by (auto simp: Ordered_TryToAssembleMessagesFastpath_def)
qed

lemma Add_after:
  assumes "\<forall>m \<in> set ms. sent_ok m" "j < length ms" "i < pieces ms j" "(j, i) \<notin> S"
    and "\<bar>b + int j - u\<bar> < 2 ^ 15"
  shows "snd (Ordered_Add (chunk_tsn ms j i) (chunk_data sid b False ms j i) (ordered_after sid b ms S u))
    = (map (whole sid ms) [gap ms S..<gap ms (insert (j, i) S)], ordered_after sid b ms (insert (j, i) S) (b + int j))"
proof -
  let ?S = "insert (j, i) S" and ?k = "gap ms S"
  let ?s = "ordered_after sid b ms S u"
  have k: "?k \<le> j" using missing_above_gap assms(2-4) by blast
  have unwrap: "Unwrap (os_ssn_unwrapper ?s) (d_ssn (chunk_data sid b False ms j i))
      = (b + int j, \<lparr>last_unwrapped = b + int j, last_value = Some (word_of_int (b + int j))\<rparr>)"
    using Unwrap_recover[of "os_ssn_unwrapper ?s" "b + int j"] assms(5)
    by (simp add: ordered_after_def chunk_data_def unwrapper_ok_def)
  note g = gap_insert[OF refl k assms(2), of i]
  show ?thesis
  proof (cases "j = ?k")
    case True
    let ?u = "?s\<lparr>os_ssn_unwrapper := \<lparr>last_unwrapped = b + int j, last_value = Some (word_of_int (b + int j))\<rparr>\<rparr>"
    have "os_chunks_by_ssn ?u = ordered_buffer sid b ms S j" "os_next_ssn ?u = b + int j"
      by (simp_all add: ordered_after_def flip: True)
    from Fastpath_buffered[OF assms(1-4) this, of "gap ms ?S"] show ?thesis
      using unwrap g by (simp add: Ordered_Add_def case_prod_beta ordered_after_def Let_def flip: True)
  next
    case False
    have "?k < length ms" "\<not> is_complete (pieces ms) ?S ?k"
      using first_gap_at[of "pieces ms" "length ms" S 0] k assms(2) False by (auto simp: is_complete_def)
    then have "gap ms ?S = ?k"
      unfolding g by (subst first_gap_rec) simp
    then show ?thesis
      using False unwrap emplace_ordered_buffer[OF k assms(2-4), of b sid]
      by (simp add: Ordered_Add_def ordered_after_def Let_def)
  qed
qed

lemma gap_mono: "S \<subseteq> T \<Longrightarrow> gap ms S \<le> gap ms T"
proof -
  assume "S \<subseteq> T"
  then have "gap ms T = first_gap (pieces ms) (length ms) T (gap ms S)"
    using first_gap_bounds[of 0 "length ms" "pieces ms" S] first_gap_below[of 0 _ "pieces ms" "length ms" S]
    by (intro first_gap_skip) (auto intro: is_complete_mono)
  then show ?thesis
    using first_gap_bounds[of "gap ms S" "length ms" "pieces ms" T] first_gap_bounds[of 0 "length ms" "pieces ms" S]
    by simp
qed

definition wire :: "u16 \<Rightarrow> int \<Rightarrow> bool \<Rightarrow> sent_message list \<Rightarrow> (nat \<times> nat) list \<Rightarrow> (int \<times> Data) list" where
  "wire sid b unordered ms arr =
     map (\<lambda>(j, i). (chunk_tsn ms j i, chunk_data sid b unordered ms j i)) arr"

definition arrivals_ok :: "sent_message list \<Rightarrow> (nat \<times> nat) list \<Rightarrow> bool" where
  "arrivals_ok ms arr = (distinct arr \<and> (\<forall>(j, i) \<in> set arr. j < length ms \<and> i < pieces ms j))"

lemma run_after:
  assumes "\<forall>m \<in> set ms. sent_ok m" "arrivals_ok ms arr" "set arr \<inter> S = {}"
    and "steps_below (2 ^ 15) (u # map (\<lambda>(j, i). b + int j) arr)"
  shows "\<exists>u'. Ordered_run (wire sid b False ms arr) (ordered_after sid b ms S u)
    = (map (whole sid ms) [gap ms S..<gap ms (S \<union> set arr)], ordered_after sid b ms (S \<union> set arr) u')"
  using assms(2-4)
proof (induction arr arbitrary: S u)
  case Nil
  then show ?case by (auto simp: wire_def)
next
  case (Cons a arr)
  obtain j i where a: "a = (j, i)" by fastforce
  let ?S = "insert (j, i) S"
  have "snd (Ordered_Add (chunk_tsn ms j i) (chunk_data sid b False ms j i) (ordered_after sid b ms S u))
      = (map (whole sid ms) [gap ms S..<gap ms ?S], ordered_after sid b ms ?S (b + int j))"
    using Cons.prems a by (intro Add_after assms(1)) (auto simp: arrivals_ok_def)
  then obtain n where add: "Ordered_Add (chunk_tsn ms j i) (chunk_data sid b False ms j i) (ordered_after sid b ms S u)
      = (n, map (whole sid ms) [gap ms S..<gap ms ?S], ordered_after sid b ms ?S (b + int j))"
    by (metis prod.collapse)
  have "\<exists>u'. Ordered_run (wire sid b False ms arr) (ordered_after sid b ms ?S (b + int j))
      = (map (whole sid ms) [gap ms ?S..<gap ms (?S \<union> set arr)], ordered_after sid b ms (?S \<union> set arr) u')"
    using Cons.prems a by (intro Cons.IH) (auto simp: arrivals_ok_def)
  moreover have "gap ms S \<le> gap ms ?S" "gap ms ?S \<le> gap ms (?S \<union> set arr)"
    by (auto intro: gap_mono)
  moreover have "S \<union> set (a # arr) = ?S \<union> set arr" using a by auto
  ultimately show ?case
    using a add upt_split[of "gap ms S" "gap ms ?S" "gap ms (?S \<union> set arr)"]
    by (auto simp: wire_def)
qed

lemma gap_empty:
  assumes "\<forall>m \<in> set ms. sent_ok m"
  shows "gap ms {} = 0"
proof -
  have "\<not> is_complete (pieces ms) {} 0" if "0 < length ms"
    using assms nth_mem[OF that] by (auto simp: is_complete_def pieces_def sent_ok_def)
  then show ?thesis by (subst first_gap_rec) auto
qed

lemma new_ordered_after:
  "\<forall>m \<in> set ms. sent_ok m \<Longrightarrow> new_ordered_stream ssn = ordered_after sid (uint ssn) ms {} (uint ssn)"
  by (simp add: new_ordered_stream_def Unwrap_def new_unwrapper_def ordered_after_def gap_empty
      ordered_buffer_def buffered_def arrived_def Let_def)

lemma gap_full:
  assumes "\<forall>j < length ms. \<forall>i < pieces ms j. (j, i) \<in> S"
  shows "gap ms S = length ms"
  using assms first_gap_at[of "pieces ms" "length ms" S 0] first_gap_bounds[of 0 "length ms" "pieces ms" S]
  by (fastforce simp: is_complete_def le_less)

section \<open>Properties\<close>

text \<open>
  C1.  An ordered stream delivers in order, whatever the arrival order.  Take any messages cut into
  non-empty pieces with consecutive numbers, and let their chunks arrive in any order, each at most
  once, such that consecutive arrivals are less than 32768 messages apart.  Then exactly the
  messages of the longest complete prefix have been delivered, in the order of sending, each as the
  concatenation of its pieces; and once every chunk has arrived all messages have been delivered
  and nothing is left in the buffer.
\<close>

theorem ordered_stream_delivers:
  assumes "\<forall>m \<in> set ms. sent_ok m" "arrivals_ok ms arr"
    and "steps_below (2 ^ 15) (uint ssn # map (\<lambda>(j, i). uint ssn + int j) arr)"
    and run: "Ordered_run (wire sid (uint ssn) False ms arr) (new_ordered_stream ssn) = (out, s)"
  shows "out = map (whole sid ms) [0..<first_gap (pieces ms) (length ms) (set arr) 0]
    \<and> ((\<forall>j < length ms. \<forall>i < pieces ms j. (j, i) \<in> set arr) \<longrightarrow>
          out = map (whole sid ms) [0..<length ms] \<and> os_chunks_by_ssn s = [])"
proof -
  obtain u where "Ordered_run (wire sid (uint ssn) False ms arr) (ordered_after sid (uint ssn) ms {} (uint ssn))
      = (map (whole sid ms) [gap ms {}..<gap ms ({} \<union> set arr)], ordered_after sid (uint ssn) ms ({} \<union> set arr) u)"
    using run_after[OF assms(1,2) _ assms(3), of "{}"] by auto
  then have "out = map (whole sid ms) [0..<gap ms (set arr)]" "s = ordered_after sid (uint ssn) ms (set arr) u"
    using run by (simp_all add: new_ordered_after[OF assms(1), of ssn sid] gap_empty[OF assms(1)])
  then show ?thesis
    using gap_full[of ms "set arr"] by (auto simp: ordered_after_def ordered_buffer_def buffered_def)
qed

theorem ordered_stream_delivers_witness:
  "fst (Ordered_run (wire 3 65535 False
      [\<lparr>sm_ppid = 51, sm_tsn = 10, sm_pieces = [[1], [2, 3]]\<rparr>, \<lparr>sm_ppid = 53, sm_tsn = 12, sm_pieces = [[4]]\<rparr>]
      [(1, 0), (0, 1), (0, 0)]) (new_ordered_stream 65535))
   = [([10, 11], \<lparr>msg_stream_id = 3, msg_ppid = 51, msg_payload = [1, 2, 3]\<rparr>),
      ([12], \<lparr>msg_stream_id = 3, msg_ppid = 53, msg_payload = [4]\<rparr>)]"
proof -
  let ?ms = "[\<lparr>sm_ppid = 51, sm_tsn = 10, sm_pieces = [[1], [2, 3]]\<rparr>, \<lparr>sm_ppid = 53, sm_tsn = 12, sm_pieces = [[4]]\<rparr>]"
  let ?arr = "[(1, 0), (0, 1), (0, 0)]"
  let ?run = "Ordered_run (wire 3 65535 False ?ms ?arr) (new_ordered_stream 65535)"
  have ok: "\<forall>m \<in> set ?ms. sent_ok m" "arrivals_ok ?ms ?arr"
    by (simp_all add: sent_ok_def arrivals_ok_def pieces_def)
  have steps: "steps_below (2 ^ 15) (uint (65535 :: u16) # map (\<lambda>(j, i). uint (65535 :: u16) + int j) ?arr)"
    by simp
  have all: "\<forall>j < length ?ms. \<forall>i < pieces ?ms j. (j, i) \<in> set ?arr"
    by (auto simp: less_Suc_eq pieces_def)
  have "uint (65535 :: u16) = 65535" by simp
  note ordered_stream_delivers[OF ok steps, of 3 "fst ?run" "snd ?run", unfolded this]
  with all have "fst ?run = map (whole 3 ?ms) [0..<length ?ms]" by (metis prod.collapse)
  then show ?thesis
    by (simp add: whole_def chunk_tsn_def pieces_def upt_rec)
qed

end
