(* ===== verification/Unordered_Delivery.thy ===== *)
theory Unordered_Delivery
  imports Traditional_Delivery
begin

text \<open>
  What the traditional reassembler delivers on an unordered stream: every message as soon as the
  last of its chunks has arrived, exactly once, whatever the order of arrival.
\<close>

section \<open>The buffer\<close>

text \<open>
  No two chunks have the same number.  \<open>open_chunks\<close> are the chunks that are in the buffer when the
  set \<open>S\<close> has arrived: those of the messages that are not complete.
\<close>

definition tsns_disjoint :: "sent_message list \<Rightarrow> bool" where
  "tsns_disjoint ms = (\<forall>j < length ms. \<forall>j' < length ms. \<forall>i < pieces ms j. \<forall>i' < pieces ms j'.
     chunk_tsn ms j i = chunk_tsn ms j' i' \<longrightarrow> j = j' \<and> i = i')"

definition valid_chunks :: "sent_message list \<Rightarrow> (nat \<times> nat) set" where
  "valid_chunks ms = {(j, i). j < length ms \<and> i < pieces ms j}"

definition holds_chunks :: "u16 \<Rightarrow> sent_message list \<Rightarrow> (nat \<times> nat) set \<Rightarrow> ChunkMap \<Rightarrow> bool" where
  "holds_chunks sid ms B c =
     (omap_ok c \<and> set c = (\<lambda>(j, i). (chunk_tsn ms j i, chunk_data sid 0 True ms j i)) ` B)"

lemma tsn_inj:
  "tsns_disjoint ms \<Longrightarrow> (j, i) \<in> valid_chunks ms \<Longrightarrow> (j', i') \<in> valid_chunks ms \<Longrightarrow>
     chunk_tsn ms j i = chunk_tsn ms j' i' \<longleftrightarrow> j = j' \<and> i = i'"
  unfolding tsns_disjoint_def valid_chunks_def by blast

lemma holds_chunks_key:
  assumes "tsns_disjoint ms" "holds_chunks sid ms B c" "B \<subseteq> valid_chunks ms" "(j, i) \<in> valid_chunks ms"
  shows "chunk_tsn ms j i \<in> fst ` set c \<longleftrightarrow> (j, i) \<in> B"
proof
  assume "chunk_tsn ms j i \<in> fst ` set c"
  then obtain j' i' where "(j', i') \<in> B" "chunk_tsn ms j i = chunk_tsn ms j' i'"
    using assms(2) by (auto simp: holds_chunks_def)
  then show "(j, i) \<in> B"
    using tsn_inj[OF assms(1,4)] subsetD[OF assms(3)] by metis
next
  assume "(j, i) \<in> B"
  then have "(chunk_tsn ms j i, chunk_data sid 0 True ms j i) \<in> set c"
    using assms(2) imageI[of "(j, i)" B "\<lambda>(j, i). (chunk_tsn ms j i, chunk_data sid 0 True ms j i)"]
    by (simp add: holds_chunks_def)
  then show "chunk_tsn ms j i \<in> fst ` set c"
    by (rule image_eqI[rotated]) simp
qed

lemma holds_chunks_value:
  assumes "tsns_disjoint ms" "holds_chunks sid ms B c" "B \<subseteq> valid_chunks ms" "(j, i) \<in> valid_chunks ms"
    and "p < length c" "fst (c ! p) = chunk_tsn ms j i"
  shows "c ! p = (chunk_tsn ms j i, chunk_data sid 0 True ms j i)"
proof -
  obtain j' i' where "(j', i') \<in> B" "c ! p = (chunk_tsn ms j' i', chunk_data sid 0 True ms j' i')"
    using nth_mem[OF assms(5)] assms(2) by (auto simp: holds_chunks_def)
  then show ?thesis
    using assms(6) tsn_inj[OF assms(1,4)] subsetD[OF assms(3)] by (metis fst_conv)
qed

lemma holds_chunks_unique: "holds_chunks sid ms B c \<Longrightarrow> holds_chunks sid ms B c' \<Longrightarrow> c = c'"
  by (auto simp: holds_chunks_def intro: omap_set_eqI)

text \<open>In an ordered map with integer keys, entries with consecutive keys are next to each other.\<close>

lemma omap_adjacent:
  assumes "omap_ok (c :: (int, 'v) omap)" "p < length c" "q < length c" "fst (c ! q) = fst (c ! p) - 1"
  shows "p = Suc q"
proof -
  have "fst (c ! p) \<le> fst (c ! q)" if "p \<le> q"
    using omap_nth_less[OF assms(1) _ assms(3), of p] that by (cases "p = q") simp_all
  then have "q < p" using assms(4) by linarith
  moreover have "fst (c ! q) < fst (c ! Suc q)" "fst (c ! Suc q) < fst (c ! p)" if "Suc q < p"
    using omap_nth_less[OF assms(1), of q "Suc q"] omap_nth_less[OF assms(1) that assms(2)] that assms(2)
    by simp_all
  then have "\<not> Suc q < p" using assms(4) by linarith
  ultimately show ?thesis by simp
qed

lemma omap_key_nth: "k \<in> fst ` set c \<Longrightarrow> \<exists>q < length c. fst (c ! q) = k"
  by (metis image_iff in_set_conv_nth)

section \<open>Searching for the ends of a message\<close>

lemma chunk_flags [simp]:
  "d_is_beginning (chunk_data sid b u ms j i) \<longleftrightarrow> i = 0"
  "d_is_end (chunk_data sid b u ms j i) \<longleftrightarrow> Suc i = pieces ms j"
  by (simp_all add: chunk_data_def)

lemma FindBeginning_chunk:
  assumes "tsns_disjoint ms" "holds_chunks sid ms B c" "B \<subseteq> valid_chunks ms"
    and "(j, i) \<in> valid_chunks ms" "p < length c" "fst (c ! p) = chunk_tsn ms j i"
  shows "FindBeginning c p = (if \<forall>i' < i. (j, i') \<in> B then Some (p - i) else None)
    \<and> ((\<forall>i' < i. (j, i') \<in> B) \<longrightarrow> i \<le> p)"
  using assms(4-)
proof (induction i arbitrary: p)
  case 0
  then show ?case
    using holds_chunks_value[OF assms(1-3) "0.prems"] by (subst FindBeginning.simps) simp
next
  case (Suc i)
  have ji: "(j, i) \<in> valid_chunks ms" using Suc.prems(1) by (simp add: valid_chunks_def)
  have ok: "omap_ok c" using assms(2) by (simp add: holds_chunks_def)
  have here: "snd (c ! p) = chunk_data sid 0 True ms j (Suc i)"
    using holds_chunks_value[OF assms(1-3) Suc.prems] by simp
  have pred: "chunk_tsn ms j i = fst (c ! p) - 1"
    using Suc.prems(3) by (simp add: chunk_tsn_def)
  show ?case
  proof (cases "(j, i) \<in> B")
    case True
    then obtain q where q: "q < length c" "fst (c ! q) = chunk_tsn ms j i"
      using holds_chunks_key[OF assms(1-3) ji] omap_key_nth[of "chunk_tsn ms j i" c] by metis
    have p: "p = Suc q"
      using omap_adjacent[OF ok Suc.prems(2) q(1)] q(2) pred by simp
    have "FindBeginning c p = FindBeginning c q"
      using here q(2) pred by (subst FindBeginning.simps) (simp add: p next_value_def)
    moreover have "(\<forall>i' < Suc i. (j, i') \<in> B) \<longleftrightarrow> (\<forall>i' < i. (j, i') \<in> B)"
      using True by (auto simp: less_Suc_eq)
    ultimately show ?thesis
      using Suc.IH[OF ji q] p by simp
  next
    case False
    then have none: "chunk_tsn ms j i \<notin> fst ` set c"
      using holds_chunks_key[OF assms(1-3) ji] by simp
    have "fst (c ! (p - 1)) \<in> fst ` set c"
      using Suc.prems(2) by (intro imageI nth_mem) simp
    then have "next_value (fst (c ! (p - 1))) \<noteq> fst (c ! p)"
      using none pred unfolding next_value_def by (metis add_diff_cancel_right')
    then have "FindBeginning c p = None"
      using here by (subst FindBeginning.simps) simp
    moreover have "(\<forall>i' < Suc i. (j, i') \<in> B) \<longleftrightarrow> False" using False by blast
    ultimately show ?thesis by (simp only: if_False simp_thms)
  qed
qed

lemma FindEnd_chunk:
  assumes "tsns_disjoint ms" "holds_chunks sid ms B c" "B \<subseteq> valid_chunks ms"
    and "(j, i) \<in> valid_chunks ms" "p < length c" "fst (c ! p) = chunk_tsn ms j i"
  shows "FindEnd c p = (if \<forall>i'. i < i' \<and> i' < pieces ms j \<longrightarrow> (j, i') \<in> B
      then Some (p + (pieces ms j - i)) else None)"
  using assms(4-)
proof (induction "pieces ms j - i" arbitrary: i p)
  case 0
  then show ?case by (simp add: valid_chunks_def)
next
  case (Suc d)
  have ok: "omap_ok c" using assms(2) by (simp add: holds_chunks_def)
  have here: "snd (c ! p) = chunk_data sid 0 True ms j i"
    using holds_chunks_value[OF assms(1-3) Suc.prems] by simp
  show ?case
  proof (cases "Suc i = pieces ms j")
    case True
    then show ?thesis using here by (subst FindEnd.simps) auto
  next
    case False
    then have ji: "(j, Suc i) \<in> valid_chunks ms"
      using Suc.prems(1) by (auto simp: valid_chunks_def)
    have succ: "chunk_tsn ms j (Suc i) = fst (c ! p) + 1"
      using Suc.prems(3) by (simp add: chunk_tsn_def)
    show ?thesis
    proof (cases "(j, Suc i) \<in> B")
      case True
      then obtain q where q: "q < length c" "fst (c ! q) = chunk_tsn ms j (Suc i)"
        using holds_chunks_key[OF assms(1-3) ji] omap_key_nth[of "chunk_tsn ms j (Suc i)" c] by metis
      have p: "q = Suc p"
        using omap_adjacent[OF ok q(1) Suc.prems(2)] q(2) succ by simp
      have "FindEnd c p = FindEnd c q"
        using here q succ False by (subst FindEnd.simps) (simp add: p next_value_def)
      moreover have "(\<forall>i'. i < i' \<and> i' < pieces ms j \<longrightarrow> (j, i') \<in> B)
          \<longleftrightarrow> (\<forall>i'. Suc i < i' \<and> i' < pieces ms j \<longrightarrow> (j, i') \<in> B)"
        using True by (metis Suc_lessD Suc_lessI)
      moreover have "p + (pieces ms j - i) = q + (pieces ms j - Suc i)"
        using p ji by (auto simp: valid_chunks_def)
      ultimately show ?thesis
        using Suc.hyps(1)[of "Suc i" q] Suc.hyps(2) ji q by simp
    next
      case False
      then have none: "chunk_tsn ms j (Suc i) \<notin> fst ` set c"
        using holds_chunks_key[OF assms(1-3) ji] by simp
      have "fst (c ! (p + 1)) \<noteq> next_value (fst (c ! p))" if "p + 1 < length c"
        using none succ imageI[OF nth_mem[OF that], of fst] unfolding next_value_def by metis
      then have "FindEnd c p = None"
        using here \<open>Suc i \<noteq> pieces ms j\<close> by (subst FindEnd.simps) simp
      moreover have "\<not> (\<forall>i'. i < i' \<and> i' < pieces ms j \<longrightarrow> (j, i') \<in> B)"
        using ji False lessI[of i] by (auto simp: valid_chunks_def simp del: lessI)
      ultimately show ?thesis by simp
    qed
  qed
qed

section \<open>Assembling a message\<close>

lemma omap_run:
  assumes "omap_ok (c :: (int, 'v) omap)" "p < length c" "\<And>a. a < m \<Longrightarrow> fst (c ! p) + int a \<in> fst ` set c"
  shows "a < m \<Longrightarrow> p + a < length c \<and> fst (c ! (p + a)) = fst (c ! p) + int a"
proof (induction a)
  case (Suc a)
  then have IH: "p + a < length c" "fst (c ! (p + a)) = fst (c ! p) + int a" by auto
  obtain q where q: "q < length c" "fst (c ! q) = fst (c ! p) + int (Suc a)"
    using omap_key_nth[OF assms(3)[OF Suc.prems]] by blast
  have "q = Suc (p + a)"
    using omap_adjacent[OF assms(1) q(1) IH(1)] q(2) IH(2) by simp
  with q show ?case by simp
qed (use assms(2) in simp)

lemma omap_pos_unique: "omap_ok c \<Longrightarrow> p < length c \<Longrightarrow> q < length c \<Longrightarrow> fst (c ! p) = fst (c ! q) \<Longrightarrow> p = q"
  using omap_nth_less[of c p q] omap_nth_less[of c q p] by (cases p q rule: linorder_cases) auto

lemma message_segment:
  assumes "tsns_disjoint ms" "holds_chunks sid ms B c" "B \<subseteq> valid_chunks ms"
    and "(j, i) \<in> valid_chunks ms" "p < length c" "fst (c ! p) = chunk_tsn ms j i"
    and all: "\<forall>a < pieces ms j. (j, a) \<in> B"
  shows "i \<le> p \<and> take (pieces ms j) (drop (p - i) c)
      = entries (chunk_tsn ms j) (chunk_data sid 0 True ms j) [0..<pieces ms j]"
proof -
  let ?n = "pieces ms j"
  have ok: "omap_ok c" using assms(2) by (simp add: holds_chunks_def)
  have j: "j < length ms" "i < ?n" using assms(4) by (simp_all add: valid_chunks_def)
  have valid: "(j, a) \<in> valid_chunks ms" if "a < ?n" for a
    using j that by (simp add: valid_chunks_def)
  have keys: "chunk_tsn ms j a \<in> fst ` set c" if "a < ?n" for a
    using holds_chunks_key[OF assms(1-3) valid[OF that]] all that by simp
  obtain q where q: "q < length c" "fst (c ! q) = chunk_tsn ms j 0"
    using omap_key_nth[OF keys[of 0]] j(2) by auto
  have run: "q + a < length c" "fst (c ! (q + a)) = chunk_tsn ms j a" if "a < ?n" for a
    using omap_run[OF ok q(1), of ?n a] keys that q(2) by (auto simp: chunk_tsn_def)
  have p: "p = q + i"
    using omap_pos_unique[OF ok assms(5) run(1)[OF j(2)]] run(2)[OF j(2)] assms(6) by simp
  have len: "q + ?n \<le> length c"
    using run(1)[of "?n - 1"] j(2) by linarith
  have "take ?n (drop q c) = entries (chunk_tsn ms j) (chunk_data sid 0 True ms j) [0..<?n]"
  proof (rule nth_equalityI)
    fix a assume "a < length (take ?n (drop q c))"
    then have a: "a < ?n" by simp
    then show "take ?n (drop q c) ! a = entries (chunk_tsn ms j) (chunk_data sid 0 True ms j) [0..<?n] ! a"
      using holds_chunks_value[OF assms(1-3) valid[OF a] run(1)[OF a] run(2)[OF a]] len
      by (simp add: entries_def)
  qed (use len in simp)
  with p show ?thesis by simp
qed

lemma remove_segment:
  assumes "tsns_disjoint ms" "holds_chunks sid ms B c" "B \<subseteq> valid_chunks ms"
    and "take n (drop s c) = entries (chunk_tsn ms j) (chunk_data sid 0 True ms j) [0..<pieces ms j]"
    and "n = pieces ms j" "\<forall>a < n. (j, a) \<in> B"
  shows "holds_chunks sid ms (B - {j} \<times> UNIV) (take s c @ drop (s + n) c)"
proof -
  let ?f = "\<lambda>(j, i). (chunk_tsn ms j i, chunk_data sid 0 True ms j i)"
  let ?seg = "take n (drop s c)"
  have c: "c = take s c @ ?seg @ drop (s + n) c"
    by (metis append_take_drop_id drop_drop add.commute)
  have ok: "omap_ok c" "set c = ?f ` B" using assms(2) by (simp_all add: holds_chunks_def)
  have "distinct c" using omap_okD[OF ok(1)] by (simp add: distinct_map)
  then have d: "distinct (take s c @ ?seg @ drop (s + n) c)" using c by metis
  have "omap_ok (take s c @ ?seg @ drop (s + n) c)" using ok(1) c by metis
  then have "omap_ok (take s c @ drop (s + n) c)"
    by (auto simp: omap_ok_def sorted_wrt_append)
  moreover have "set (take s c @ drop (s + n) c) = set c - set ?seg"
    using d arg_cong[OF c, of set] by auto
  moreover have "B \<inter> {j} \<times> UNIV = Pair j ` {..<n}"
    using assms(3,5,6) by (auto simp: valid_chunks_def)
  then have "set ?seg = ?f ` (B \<inter> {j} \<times> UNIV)"
    unfolding assms(4) by (simp add: entries_def assms(5) image_image lessThan_atLeast0)
  moreover have "?f ` B - ?f ` (B \<inter> {j} \<times> UNIV) = ?f ` (B - {j} \<times> UNIV)"
  proof -
    have "inj_on ?f B"
    proof (rule inj_onI, clarify)
      fix a b a' b' assume "(a, b) \<in> B" "(a', b') \<in> B" "chunk_tsn ms a b = chunk_tsn ms a' b'"
      then show "a = a' \<and> b = b'"
        using tsn_inj[OF assms(1), of a b a' b'] subsetD[OF assms(3)] by blast
    qed
    then have "?f ` (B - B \<inter> {j} \<times> UNIV) = ?f ` B - ?f ` (B \<inter> {j} \<times> UNIV)"
      by (intro inj_on_image_set_diff) auto
    moreover have "B - B \<inter> {j} \<times> UNIV = B - {j} \<times> UNIV" by blast
    ultimately show ?thesis by simp
  qed
  ultimately show ?thesis
    using ok(2) by (simp add: holds_chunks_def)
qed

section \<open>Adding a chunk\<close>

definition open_chunks :: "sent_message list \<Rightarrow> (nat \<times> nat) set \<Rightarrow> (nat \<times> nat) set" where
  "open_chunks ms S = {(j, i). (j, i) \<in> S \<and> \<not> is_complete (pieces ms) S j}"

lemma is_complete_insert_other:
  "j' \<noteq> j \<Longrightarrow> is_complete n (insert (j, i) S) j' = is_complete n S j'"
  by (simp add: is_complete_def)

lemma open_chunks_insert:
  assumes "(j, i) \<notin> S" "i < pieces ms j"
  shows "open_chunks ms (insert (j, i) S) =
    (if is_complete (pieces ms) (insert (j, i) S) j then open_chunks ms S - {j} \<times> UNIV
     else insert (j, i) (open_chunks ms S))"
proof (rule set_eqI)
  fix x :: "nat \<times> nat"
  obtain a b where x: "x = (a, b)" by fastforce
  have "\<not> is_complete (pieces ms) S j" using assms by (auto simp: is_complete_def)
  then show "x \<in> open_chunks ms (insert (j, i) S) \<longleftrightarrow> x \<in>
    (if is_complete (pieces ms) (insert (j, i) S) j then open_chunks ms S - {j} \<times> UNIV
     else insert (j, i) (open_chunks ms S))"
    unfolding x by (cases "a = j") (simp_all add: open_chunks_def is_complete_insert_other)
qed

lemma emplace_holds:
  assumes "tsns_disjoint ms" "holds_chunks sid ms B c" "B \<subseteq> valid_chunks ms" "(j, i) \<in> valid_chunks ms" "(j, i) \<notin> B"
  shows "fst (emplace (chunk_tsn ms j i) (chunk_data sid 0 True ms j i) c)
    \<and> holds_chunks sid ms (insert (j, i) B) (snd (emplace (chunk_tsn ms j i) (chunk_data sid 0 True ms j i) c))"
proof -
  let ?e = "emplace (chunk_tsn ms j i) (chunk_data sid 0 True ms j i) c"
  have ok: "omap_ok c" using assms(2) by (simp add: holds_chunks_def)
  have new: "map_of c (chunk_tsn ms j i) = None"
    using holds_chunks_key[OF assms(1-4)] assms(5) by (simp add: map_of_eq_None_iff)
  have "set (snd ?e) = insert (chunk_tsn ms j i, chunk_data sid 0 True ms j i) (set c)"
    using emplace_set[OF ok new] .
  then show ?thesis
    using assms(2) ok new by (simp add: holds_chunks_def)
qed

lemma Unordered_Try_step:
  assumes "tsns_disjoint ms" "\<forall>m \<in> set ms. sent_ok m" "holds_chunks sid ms B (us_chunks s)"
    and "B \<subseteq> valid_chunks ms" "(j, i) \<in> B"
    and p: "p < length (us_chunks s)" "fst (us_chunks s ! p) = chunk_tsn ms j i"
    and c: "complete = (\<forall>a < pieces ms j. (j, a) \<in> B)"
  shows "\<exists>n s'. Unordered_TryToAssembleMessage p s = (n, if complete then [whole sid ms j] else [], s')
    \<and> holds_chunks sid ms (if complete then B - {j} \<times> UNIV else B) (us_chunks s')"
proof -
  have ji: "(j, i) \<in> valid_chunks ms" using assms(4,5) by blast
  then have j: "j < length ms" "i < pieces ms j" "sent_ok (ms ! j)"
    using assms(2) by (auto simp: valid_chunks_def)
  note fb = FindBeginning_chunk[OF assms(1,3,4) ji p] and fe = FindEnd_chunk[OF assms(1,3,4) ji p]
  have split: "complete \<longleftrightarrow> (\<forall>a < i. (j, a) \<in> B) \<and> (\<forall>a. i < a \<and> a < pieces ms j \<longrightarrow> (j, a) \<in> B)"
    unfolding c using assms(5) j(2) by (metis less_trans linorder_neqE_nat)
  show ?thesis
  proof (cases complete)
    case True
    note seg = message_segment[OF assms(1,3,4) ji p]
    have seg: "i \<le> p" "take (pieces ms j) (drop (p - i) (us_chunks s))
        = entries (chunk_tsn ms j) (chunk_data sid 0 True ms j) [0..<pieces ms j]"
      using seg True c by simp_all
    have ends: "FindBeginning (us_chunks s) p = Some (p - i)"
        "FindEnd (us_chunks s) p = Some (p - i + pieces ms j)"
      using fb fe True split seg(1) j(2) by simp_all
    have "holds_chunks sid ms (B - {j} \<times> UNIV)
        (take (p - i) (us_chunks s) @ drop (p - i + pieces ms j) (us_chunks s))"
      using True c by (intro remove_segment[OF assms(1,3,4) seg(2)]) simp_all
    then show ?thesis
      using True ends seg(2) AssembleMessage_whole[OF j(1,3), of sid 0 True]
      by (simp add: Unordered_TryToAssembleMessage_def Let_def)
  next
    case False
    then have "FindBeginning (us_chunks s) p = None \<or> FindEnd (us_chunks s) p = None"
      using fb fe split by (auto split: if_splits)
    then have "Unordered_TryToAssembleMessage p s = (0, [], s)"
      by (auto simp: Unordered_TryToAssembleMessage_def Let_def split: option.splits)
    then show ?thesis using False assms(3) by simp
  qed
qed

lemma Unordered_Add_step:
  assumes "tsns_disjoint ms" "\<forall>m \<in> set ms. sent_ok m" "S \<subseteq> valid_chunks ms"
    and ji: "(j, i) \<in> valid_chunks ms" "(j, i) \<notin> S"
    and holds: "holds_chunks sid ms (open_chunks ms S) (us_chunks s)"
    and c: "complete = is_complete (pieces ms) (insert (j, i) S) j"
  shows "\<exists>n s'. Unordered_Add (chunk_tsn ms j i) (chunk_data sid 0 True ms j i) s
      = (n, if complete then [whole sid ms j] else [], s')
    \<and> holds_chunks sid ms (open_chunks ms (insert (j, i) S)) (us_chunks s')"
proof -
  let ?S = "insert (j, i) S" and ?B = "insert (j, i) (open_chunks ms S)"
  have j: "j < length ms" "i < pieces ms j" using ji(1) by (simp_all add: valid_chunks_def)
  have inc: "\<not> is_complete (pieces ms) S j" using j ji(2) by (auto simp: is_complete_def)
  have sub: "open_chunks ms S \<subseteq> valid_chunks ms" and notin: "(j, i) \<notin> open_chunks ms S"
    using assms(3) ji(2) by (auto simp: open_chunks_def)
  note opens = open_chunks_insert[OF ji(2) j(2), folded c]
  show ?thesis
  proof (cases "pieces ms j = 1")
    case True
    have "(j, a) \<notin> S" for a
      using True assms(3) j(2) ji(2) by (auto simp: valid_chunks_def)
    then have "open_chunks ms S - {j} \<times> UNIV = open_chunks ms S"
      by (auto simp: open_chunks_def)
    moreover have complete using True j(2) by (simp add: c is_complete_def)
    moreover have "snd (AssembleMessage_single (chunk_tsn ms j i) (chunk_data sid 0 True ms j i)) = whole sid ms j"
      using single_whole[OF True j(2)] .
    ultimately show ?thesis
      using True j(2) holds opens by (simp add: Unordered_Add_def)
  next
    case False
    let ?e = "emplace (chunk_tsn ms j i) (chunk_data sid 0 True ms j i) (us_chunks s)"
    have e: "fst ?e" "holds_chunks sid ms ?B (snd ?e)"
      using emplace_holds[OF assms(1) holds sub ji(1) notin] by simp_all
    have pos: "position (chunk_tsn ms j i) (snd ?e) < length (snd ?e)"
        "fst (snd ?e ! position (chunk_tsn ms j i) (snd ?e)) = chunk_tsn ms j i"
      using position_less[of "snd ?e" "chunk_tsn ms j i"] e(2) by (simp_all add: holds_chunks_def)
    have compl: "complete = (\<forall>a < pieces ms j. (j, a) \<in> ?B)"
      using inc by (auto simp: c is_complete_def open_chunks_def)
    have "?B - {j} \<times> UNIV = open_chunks ms S - {j} \<times> UNIV" by auto
    then have after: "open_chunks ms ?S = (if complete then ?B - {j} \<times> UNIV else ?B)"
      using opens by simp
    let ?p = "position (chunk_tsn ms j i) (snd ?e)" and ?s = "s\<lparr>us_chunks := snd ?e\<rparr>"
    have "?B \<subseteq> valid_chunks ms" using sub ji(1) by blast
    moreover have "holds_chunks sid ms ?B (us_chunks ?s)" "?p < length (us_chunks ?s)"
        "fst (us_chunks ?s ! ?p) = chunk_tsn ms j i"
      using e(2) pos by simp_all
    ultimately obtain n s' where
      "Unordered_TryToAssembleMessage ?p ?s = (n, if complete then [whole sid ms j] else [], s')"
      "holds_chunks sid ms (open_chunks ms ?S) (us_chunks s')"
      unfolding after using Unordered_Try_step[OF assms(1,2) _ _ insertI1 _ _ compl] by blast
    moreover have "\<not> (i = 0 \<and> Suc i = pieces ms j)" using False by auto
    ultimately show ?thesis
      using e(1) unfolding Unordered_Add_def chunk_flags by (simp only: if_not_P case_prod_beta) simp
  qed
qed

fun Unordered_run :: "(int \<times> Data) list \<Rightarrow> UnorderedStream \<Rightarrow> assembled list \<times> UnorderedStream" where
  "Unordered_run [] s = ([], s)"
| "Unordered_run ((tsn, d) # cs) s =
     (case Unordered_Add tsn d s of (n, out, s') \<Rightarrow>
        (case Unordered_run cs s' of (out', s'') \<Rightarrow> (out @ out', s'')))"

lemma newly_complete_insert:
  assumes "(j, i) \<notin> S" "i < pieces ms j" "j < length ms" "insert (j, i) S \<subseteq> T"
  shows "{x. x < length ms \<and> is_complete (pieces ms) T x \<and> \<not> is_complete (pieces ms) S x} =
    (if is_complete (pieces ms) (insert (j, i) S) j then {j} else {}) \<union>
    {x. x < length ms \<and> is_complete (pieces ms) T x \<and> \<not> is_complete (pieces ms) (insert (j, i) S) x}"
proof (rule set_eqI)
  fix x
  have j: "\<not> is_complete (pieces ms) S j" "is_complete (pieces ms) (insert (j, i) S) j \<Longrightarrow> is_complete (pieces ms) T j"
    using assms by (auto simp: is_complete_def)
  show "x \<in> {x. x < length ms \<and> is_complete (pieces ms) T x \<and> \<not> is_complete (pieces ms) S x} \<longleftrightarrow> x \<in>
    (if is_complete (pieces ms) (insert (j, i) S) j then {j} else {}) \<union>
    {x. x < length ms \<and> is_complete (pieces ms) T x \<and> \<not> is_complete (pieces ms) (insert (j, i) S) x}"
    by (cases "x = j") (use j assms(3) in \<open>auto simp: is_complete_insert_other\<close>)
qed

lemma Unordered_run_step:
  assumes "tsns_disjoint ms" "\<forall>m \<in> set ms. sent_ok m"
    and "arrivals_ok ms arr" "set arr \<inter> S = {}" "S \<subseteq> valid_chunks ms"
    and "holds_chunks sid ms (open_chunks ms S) (us_chunks s)"
  shows "\<exists>js s'. Unordered_run (wire sid 0 True ms arr) s = (map (whole sid ms) js, s')
    \<and> holds_chunks sid ms (open_chunks ms (S \<union> set arr)) (us_chunks s') \<and> distinct js
    \<and> set js = {j. j < length ms \<and> is_complete (pieces ms) (S \<union> set arr) j \<and> \<not> is_complete (pieces ms) S j}"
  using assms(3-)
proof (induction arr arbitrary: S s)
  case Nil
  then show ?case by (auto simp: wire_def)
next
  case (Cons a arr)
  obtain j i where a: "a = (j, i)" by fastforce
  let ?S = "insert (j, i) S" and ?T = "insert (j, i) S \<union> set arr"
  have ji: "(j, i) \<in> valid_chunks ms" "(j, i) \<notin> S" "i < pieces ms j" "j < length ms"
    using Cons.prems a by (auto simp: arrivals_ok_def valid_chunks_def)
  obtain n s1 where add: "Unordered_Add (chunk_tsn ms j i) (chunk_data sid 0 True ms j i) s
      = (n, if is_complete (pieces ms) ?S j then [whole sid ms j] else [], s1)"
      "holds_chunks sid ms (open_chunks ms ?S) (us_chunks s1)"
    using Unordered_Add_step[OF assms(1,2) Cons.prems(3) ji(1,2) Cons.prems(4) refl] by blast
  have "arrivals_ok ms arr" "set arr \<inter> ?S = {}" "?S \<subseteq> valid_chunks ms"
    using Cons.prems a ji by (auto simp: arrivals_ok_def)
  from Cons.IH[OF this add(2)] obtain js s' where IH:
    "Unordered_run (wire sid 0 True ms arr) s1 = (map (whole sid ms) js, s')"
    "holds_chunks sid ms (open_chunks ms ?T) (us_chunks s')" "distinct js"
    "set js = {x. x < length ms \<and> is_complete (pieces ms) ?T x \<and> \<not> is_complete (pieces ms) ?S x}"
    by blast
  define js' where "js' = (if is_complete (pieces ms) ?S j then [j] else []) @ js"
  have "Unordered_run (wire sid 0 True ms (a # arr)) s = (map (whole sid ms) js', s')"
    using add(1) IH(1) by (simp add: wire_def a js'_def)
  moreover have "distinct js'" using IH(3,4) by (auto simp: js'_def)
  moreover have "set js' = {x. x < length ms \<and> is_complete (pieces ms) ?T x \<and> \<not> is_complete (pieces ms) S x}"
    unfolding newly_complete_insert[OF ji(2,3,4) Un_upper1] IH(4)[symmetric] by (simp add: js'_def)
  moreover have T: "S \<union> set (a # arr) = ?T" using a by auto
  ultimately show ?case unfolding T using IH(2) by blast
qed

section \<open>Properties\<close>

text \<open>
  C12.  An unordered stream delivers every message exactly once, as soon as it is complete.  Take any
  messages cut into non-empty pieces with consecutive numbers that do not overlap, and let their
  chunks arrive in any order, each at most once.  Then exactly the complete messages have been
  delivered, none of them twice, each as the concatenation of its pieces; and once every chunk has
  arrived, nothing is left in the buffer.
\<close>

theorem unordered_stream_delivers:
  assumes "\<forall>m \<in> set ms. sent_ok m" "tsns_disjoint ms" "arrivals_ok ms arr"
    and run: "Unordered_run (wire sid 0 True ms arr) new_unordered_stream = (out, s)"
  shows "\<exists>js. out = map (whole sid ms) js \<and> distinct js
    \<and> set js = {j. j < length ms \<and> is_complete (pieces ms) (set arr) j}
    \<and> ((\<forall>j < length ms. \<forall>i < pieces ms j. (j, i) \<in> set arr) \<longrightarrow> us_chunks s = [])"
proof -
  have none: "\<not> is_complete (pieces ms) {} j" if "j < length ms" for j
    using assms(1) nth_mem[OF that] by (auto simp: is_complete_def sent_ok_def pieces_def)
  have "holds_chunks sid ms (open_chunks ms {}) (us_chunks new_unordered_stream)"
    by (simp add: holds_chunks_def open_chunks_def new_unordered_stream_def)
  from Unordered_run_step[OF assms(2,1,3) _ _ this] run obtain js where js:
    "out = map (whole sid ms) js" "distinct js" "holds_chunks sid ms (open_chunks ms (set arr)) (us_chunks s)"
    "set js = {j. j < length ms \<and> is_complete (pieces ms) (set arr) j \<and> \<not> is_complete (pieces ms) {} j}"
    by auto
  have "open_chunks ms (set arr) = {}" if "\<forall>j < length ms. \<forall>i < pieces ms j. (j, i) \<in> set arr"
    using that assms(3) by (auto simp: open_chunks_def is_complete_def arrivals_ok_def)
  then show ?thesis
    using js none by (auto simp: holds_chunks_def intro!: exI[of _ js])
qed

theorem unordered_stream_delivers_witness:
  "\<exists>js. fst (Unordered_run (wire 3 0 True
      [\<lparr>sm_ppid = 51, sm_tsn = 10, sm_pieces = [[1], [2, 3]]\<rparr>, \<lparr>sm_ppid = 53, sm_tsn = 12, sm_pieces = [[4]]\<rparr>]
      [(1, 0), (0, 1), (0, 0)]) new_unordered_stream)
    = map (whole 3 [\<lparr>sm_ppid = 51, sm_tsn = 10, sm_pieces = [[1], [2, 3]]\<rparr>, \<lparr>sm_ppid = 53, sm_tsn = 12, sm_pieces = [[4]]\<rparr>]) js
    \<and> distinct js \<and> set js = {0, 1}"
proof -
  let ?ms = "[\<lparr>sm_ppid = 51, sm_tsn = 10, sm_pieces = [[1], [2, 3]]\<rparr>, \<lparr>sm_ppid = 53, sm_tsn = 12, sm_pieces = [[4]]\<rparr>]"
  let ?arr = "[(1, 0), (0, 1), (0, 0)] :: (nat \<times> nat) list"
  let ?run = "Unordered_run (wire 3 0 True ?ms ?arr) new_unordered_stream"
  have ok: "\<forall>m \<in> set ?ms. sent_ok m" "arrivals_ok ?ms ?arr"
    by (simp_all add: sent_ok_def arrivals_ok_def pieces_def)
  have "tsns_disjoint ?ms"
    by (auto simp: tsns_disjoint_def pieces_def chunk_tsn_def less_Suc_eq)
  from unordered_stream_delivers[OF ok(1) this ok(2), of 3 "fst ?run" "snd ?run"]
  obtain js where "fst ?run = map (whole 3 ?ms) js" "distinct js"
      "set js = {j. j < length ?ms \<and> is_complete (pieces ?ms) (set ?arr) j}"
    by (metis prod.collapse)
  moreover have "{j. j < length ?ms \<and> is_complete (pieces ?ms) (set ?arr) j} = {0, 1}"
    by (auto simp: is_complete_def pieces_def less_Suc_eq)
  ultimately show ?thesis by metis
qed

end
