(* ===== verification/Interleaved_Reassembly.thy ===== *)
theory Interleaved_Reassembly
  imports Reassembly_Streams "HOL-Library.Product_Lexorder"
begin

text \<open>
  Reassembly of I-DATA chunks, \<open>rx/interleaved_reassembly_streams.{h,cc}\<close>: the chunks of a message
  carry its message identifier (MID) and their position in it (FSN), so that chunks of different
  messages may be interleaved.  A stream is identified by whether it is ordered and by its number;
  pairs are compared in that order, as \<open>FullStreamId::operator<\<close> does.
\<close>

section \<open>Streams\<close>

type_synonym FsnMap = "(u32, int \<times> Data) omap"

type_synonym FullStreamId = "bool \<times> u16"

record InterleavedStream =
  is_stream_id :: FullStreamId
  is_chunks_by_mid :: "(int, FsnMap) omap"
  is_mid_unwrapper :: "32 SeqNumUnwrapper"
  is_next_mid :: int

definition new_interleaved_stream :: "FullStreamId \<Rightarrow> u32 \<Rightarrow> InterleavedStream" where
  "new_interleaved_stream stream_id next_mid =
     (case Unwrap new_unwrapper next_mid of (next, unwrapper) \<Rightarrow>
       \<lparr>is_stream_id = stream_id, is_chunks_by_mid = [], is_mid_unwrapper = unwrapper, is_next_mid = next\<rparr>)"

definition Interleaved_AssembleMessage :: "FsnMap \<Rightarrow> nat \<times> assembled" where
  "Interleaved_AssembleMessage tsn_chunks =
     (if length tsn_chunks = 1
      then AssembleMessage_single (fst (snd (hd tsn_chunks))) (snd (snd (hd tsn_chunks)))
      else (\<Sum>c\<leftarrow>tsn_chunks. Data_size (snd (snd c)),
        (map (\<lambda>c. fst (snd c)) tsn_chunks,
         \<lparr>msg_stream_id = d_stream_id (snd (snd (hd tsn_chunks))),
          msg_ppid = d_ppid (snd (snd (hd tsn_chunks))),
          msg_payload = concat (map (\<lambda>c. d_payload (snd (snd c))) tsn_chunks)\<rparr>)))"

definition Stream_TryToAssembleMessage ::
  "int \<Rightarrow> InterleavedStream \<Rightarrow> nat \<times> assembled list \<times> InterleavedStream" where
  "Stream_TryToAssembleMessage mid s =
     (case map_of (is_chunks_by_mid s) mid of
        None \<Rightarrow> (0, [], s)
      | Some chunks \<Rightarrow>
          if \<not> d_is_beginning (snd (snd (hd chunks))) \<or> \<not> d_is_end (snd (snd (last chunks)))
          then (0, [], s)
          else if uint (fst (last chunks)) - uint (fst (hd chunks)) \<noteq> int (length chunks) - 1
          then (0, [], s)
          else case Interleaved_AssembleMessage chunks of (removed_bytes, message) \<Rightarrow>
            (removed_bytes, [message], s\<lparr>is_chunks_by_mid := erase_key mid (is_chunks_by_mid s)\<rparr>))"

lemma erase_key_shorter: "map_of m k = Some v \<Longrightarrow> length (erase_key k m) < length m"
  using length_filter_less[of "(k, v)" m "\<lambda>e. fst e \<noteq> k"] by (simp add: erase_key_def map_of_SomeD)

function Stream_TryToAssembleMessages ::
  "InterleavedStream \<Rightarrow> nat \<times> assembled list \<times> InterleavedStream" where
  "Stream_TryToAssembleMessages s =
     (case Stream_TryToAssembleMessage (is_next_mid s) s of (removed_bytes_this_iter, messages, s') \<Rightarrow>
        if removed_bytes_this_iter = 0 then (0, messages, s')
        else case Stream_TryToAssembleMessages (s'\<lparr>is_next_mid := next_value (is_next_mid s')\<rparr>) of
          (removed_bytes, messages', s'') \<Rightarrow>
            (removed_bytes_this_iter + removed_bytes, messages @ messages', s''))"
  by auto
termination
  by (relation "measure (length \<circ> is_chunks_by_mid)")
    (auto simp: Stream_TryToAssembleMessage_def erase_key_shorter split: option.splits if_splits prod.splits)

declare Stream_TryToAssembleMessages.simps [simp del]

definition Stream_EraseTo :: "u32 \<Rightarrow> InterleavedStream \<Rightarrow> nat \<times> assembled list \<times> InterleavedStream" where
  "Stream_EraseTo mid s =
     (case Unwrap (is_mid_unwrapper s) mid of (unwrapped_mid, unwrapper) \<Rightarrow>
        let removed_bytes = msum (msum (Data_size \<circ> snd)) (up_to unwrapped_mid (is_chunks_by_mid s));
            s = s\<lparr>is_mid_unwrapper := unwrapper,
                  is_chunks_by_mid := after unwrapped_mid (is_chunks_by_mid s)\<rparr>
        in if \<not> fst (is_stream_id s)
           then case Stream_TryToAssembleMessages
                  (if unwrapped_mid \<ge> is_next_mid s
                   then s\<lparr>is_next_mid := next_value unwrapped_mid\<rparr> else s) of
             (assembled_bytes, messages, s) \<Rightarrow> (removed_bytes + assembled_bytes, messages, s)
           else (removed_bytes, [], s))"

definition Stream_Add :: "int \<Rightarrow> Data \<Rightarrow> InterleavedStream \<Rightarrow> int \<times> assembled list \<times> InterleavedStream" where
  "Stream_Add tsn data s =
     (case Unwrap (is_mid_unwrapper s) (d_mid data) of (mid, unwrapper) \<Rightarrow>
        case emplace_by mid (d_fsn data) (tsn, data) (is_chunks_by_mid s) of (inserted, by_mid) \<Rightarrow>
          let s = s\<lparr>is_mid_unwrapper := unwrapper, is_chunks_by_mid := by_mid\<rparr>
          in if \<not> inserted then (0, [], s)
             else if fst (is_stream_id s)
             then case Stream_TryToAssembleMessage mid s of (removed_bytes, messages, s) \<Rightarrow>
               (int (Data_size data) - int removed_bytes, messages, s)
             else if mid = is_next_mid s
             then case Stream_TryToAssembleMessages s of (removed_bytes, messages, s) \<Rightarrow>
               (int (Data_size data) - int removed_bytes, messages, s)
             else (int (Data_size data), [], s))"

definition Stream_Reset :: "InterleavedStream \<Rightarrow> InterleavedStream" where
  "Stream_Reset s =
     (case Unwrap (Reset_unwrapper (is_mid_unwrapper s)) 0 of (next, unwrapper) \<Rightarrow>
        s\<lparr>is_mid_unwrapper := unwrapper, is_next_mid := next\<rparr>)"

definition Stream_AddHandoverState :: "InterleavedStream \<Rightarrow> HandoverState \<Rightarrow> HandoverState" where
  "Stream_AddHandoverState s state =
     (let rx = hs_rx state in
      if fst (is_stream_id s)
      then state\<lparr>hs_rx := rx\<lparr>hrx_unordered_streams :=
             hrx_unordered_streams rx @ [\<lparr>hud_id = ucast (snd (is_stream_id s))\<rparr>]\<rparr>\<rparr>
      else state\<lparr>hs_rx := rx\<lparr>hrx_ordered_streams := hrx_ordered_streams rx @
             [\<lparr>hod_id = ucast (snd (is_stream_id s)), hod_next_ssn = Wrap (is_next_mid s)\<rparr>]\<rparr>\<rparr>)"

section \<open>All streams\<close>

type_synonym InterleavedStreams = "(FullStreamId, InterleavedStream) omap"

definition GetOrCreateStream :: "FullStreamId \<Rightarrow> InterleavedStreams \<Rightarrow> InterleavedStream" where
  "GetOrCreateStream stream_id streams = find_or (new_interleaved_stream stream_id 0) stream_id streams"

definition Interleaved_Add ::
  "int \<Rightarrow> Data \<Rightarrow> InterleavedStreams \<Rightarrow> int \<times> assembled list \<times> InterleavedStreams" where
  "Interleaved_Add tsn data streams =
     (let stream_id = (d_is_unordered data, d_stream_id data) in
      case Stream_Add tsn data (GetOrCreateStream stream_id streams) of (n, messages, s) \<Rightarrow>
        (n, messages, assign stream_id s streams))"

fun Interleaved_HandleForwardTsn ::
  "int \<Rightarrow> SkippedStream list \<Rightarrow> InterleavedStreams \<Rightarrow> nat \<times> assembled list \<times> InterleavedStreams" where
  "Interleaved_HandleForwardTsn new_cumulative_ack_tsn [] streams = (0, [], streams)"
| "Interleaved_HandleForwardTsn new_cumulative_ack_tsn (skipped # rest) streams =
     (let stream_id = (sk_unordered skipped, sk_stream_id skipped) in
      case Stream_EraseTo (sk_mid skipped) (GetOrCreateStream stream_id streams) of (n, messages, s) \<Rightarrow>
        (case Interleaved_HandleForwardTsn new_cumulative_ack_tsn rest (assign stream_id s streams) of
           (n', messages', streams') \<Rightarrow> (n + n', messages @ messages', streams')))"

definition reset_stream :: "FullStreamId \<Rightarrow> InterleavedStreams \<Rightarrow> InterleavedStreams" where
  "reset_stream stream_id streams =
     assign stream_id (Stream_Reset (GetOrCreateStream stream_id streams)) streams"

definition Interleaved_ResetStreams :: "u16 list \<Rightarrow> InterleavedStreams \<Rightarrow> InterleavedStreams" where
  "Interleaved_ResetStreams stream_ids streams =
     (if stream_ids = [] then map (\<lambda>(sid, s). (sid, Stream_Reset s)) streams
      else fold (\<lambda>sid streams. reset_stream (False, sid) (reset_stream (True, sid) streams))
             stream_ids streams)"

section \<open>Handover\<close>

definition Interleaved_GetHandoverReadiness :: "InterleavedStreams \<Rightarrow> HandoverReadinessStatus" where
  "Interleaved_GetHandoverReadiness streams =
     (case find (\<lambda>(sid, s). is_chunks_by_mid s \<noteq> []) streams of
        None \<Rightarrow> ready_status
      | Some (sid, s) \<Rightarrow> status_Add_reason ready_status
          (if fst sid then kUnorderedStreamHasUnassembledChunks else kOrderedStreamHasUnassembledChunks))"

definition Interleaved_AddHandoverState :: "InterleavedStreams \<Rightarrow> HandoverState \<Rightarrow> HandoverState" where
  "Interleaved_AddHandoverState streams state = fold (\<lambda>(sid, s). Stream_AddHandoverState s) streams state"

definition Interleaved_RestoreFromState :: "HandoverState \<Rightarrow> InterleavedStreams \<Rightarrow> InterleavedStreams" where
  "Interleaved_RestoreFromState state streams =
     fold (\<lambda>h streams. snd (emplace (True, ucast (hud_id h))
              (new_interleaved_stream (True, ucast (hud_id h)) 0) streams))
       (hrx_unordered_streams (hs_rx state))
       (fold (\<lambda>h streams. snd (emplace (False, ucast (hod_id h))
              (new_interleaved_stream (False, ucast (hod_id h)) (hod_next_ssn h)) streams))
         (hrx_ordered_streams (hs_rx state)) streams)"

section \<open>Byte accounting\<close>

abbreviation entry_size :: "int \<times> Data \<Rightarrow> nat" where
  "entry_size \<equiv> Data_size \<circ> snd"

definition stream_ok :: "InterleavedStream \<Rightarrow> bool" where
  "stream_ok s = (by_ok (is_chunks_by_mid s) \<and> unwrapper_ok (is_mid_unwrapper s))"

definition stream_held :: "InterleavedStream \<Rightarrow> nat" where
  "stream_held s = msum (msum entry_size) (is_chunks_by_mid s)"

lemma stream_frame [simp]:
  "stream_held (s\<lparr>is_next_mid := i\<rparr>) = stream_held s" "stream_ok (s\<lparr>is_next_mid := i\<rparr>) = stream_ok s"
  by (simp_all add: stream_held_def stream_ok_def)

lemma Interleaved_Assemble_eq:
  "chunks \<noteq> [] \<Longrightarrow> Interleaved_AssembleMessage chunks = AssembleMessage (map snd chunks)"
  by (cases chunks) (simp_all add: Interleaved_AssembleMessage_def AssembleMessage_def comp_def)

lemma msum_values: "msum f (map snd m) = msum (f \<circ> snd) m"
  by (induction m) auto

lemma Stream_Try_accounts:
  assumes "Stream_TryToAssembleMessage mid s = (n, ms, s')" "stream_ok s"
  shows "stream_held s' + n = stream_held s \<and> delivered_bytes ms = n \<and> stream_ok s'"
proof (cases "n = 0 \<and> ms = [] \<and> s' = s")
  case False
  then obtain chunks where c: "map_of (is_chunks_by_mid s) mid = Some chunks"
      "Interleaved_AssembleMessage chunks = (n, hd ms)" "ms = [hd ms]"
      "s' = s\<lparr>is_chunks_by_mid := erase_key mid (is_chunks_by_mid s)\<rparr>"
    using assms(1) by (auto simp: Stream_TryToAssembleMessage_def split: option.splits if_splits prod.splits)
  have bok: "by_ok (is_chunks_by_mid s)" using assms(2) by (simp add: stream_ok_def)
  then have "chunks \<noteq> []" using omap_all_lookup[OF _ c(1)] by (auto simp: by_ok_def)
  then have n: "n = msum entry_size chunks" "delivered_bytes [hd ms] = n"
    using AssembleMessage_bytes[of "map snd chunks"] c(2)
    by (simp_all add: Interleaved_Assemble_eq msum_values[symmetric])
  moreover have "msum (msum entry_size) (erase_key mid (is_chunks_by_mid s)) + msum entry_size chunks
      = stream_held s"
    using bok c(1) by (auto simp: stream_held_def by_ok_def intro: msum_erase_key)
  moreover have "by_ok (erase_key mid (is_chunks_by_mid s))"
    using bok by (auto simp: by_ok_def omap_all_def) (auto simp: erase_key_def)
  ultimately show ?thesis
    using assms(2) c(3,4) by (simp add: stream_held_def stream_ok_def)
qed (use assms(2) in auto)

lemma Stream_Trys_accounts:
  "Stream_TryToAssembleMessages s = (n, ms, s') \<Longrightarrow> stream_ok s \<Longrightarrow>
     stream_held s' + n = stream_held s \<and> delivered_bytes ms = n \<and> stream_ok s'"
proof (induction s arbitrary: n ms s' rule: Stream_TryToAssembleMessages.induct)
  case (1 s)
  obtain k m1 s1 where t1: "Stream_TryToAssembleMessage (is_next_mid s) s = (k, m1, s1)"
    by (metis prod_cases3)
  let ?s = "s1\<lparr>is_next_mid := next_value (is_next_mid s1)\<rparr>"
  obtain n2 m2 s2 where trys: "Stream_TryToAssembleMessages ?s = (n2, m2, s2)"
    by (metis prod_cases3)
  note step = Stream_Try_accounts[OF t1 1(3)]
  show ?case
  proof (cases "k = 0")
    case True
    then show ?thesis
      using 1(2) step by (subst (asm) Stream_TryToAssembleMessages.simps) (auto simp: t1)
  next
    case False
    then have "stream_held s2 + n2 = stream_held ?s \<and> delivered_bytes m2 = n2 \<and> stream_ok s2"
      using 1(1)[OF t1[symmetric] refl _ trys] step by simp
    then show ?thesis
      using 1(2) step False by (subst (asm) Stream_TryToAssembleMessages.simps) (auto simp: t1 trys)
  qed
qed

lemma Stream_Add_accounts:
  assumes "Stream_Add tsn d s = (n, ms, s')" "stream_ok s"
  shows "int (stream_held s') = int (stream_held s) + n \<and> stream_ok s'
    \<and> (n = int (Data_size d) - int (delivered_bytes ms) \<or> n = 0 \<and> ms = [])"
proof -
  obtain mid u where u: "Unwrap (is_mid_unwrapper s) (d_mid d) = (mid, u)" by fastforce
  obtain inserted m where e: "emplace_by mid (d_fsn d) (tsn, d) (is_chunks_by_mid s) = (inserted, m)"
    by fastforce
  define s1 where "s1 = s\<lparr>is_mid_unwrapper := u, is_chunks_by_mid := m\<rparr>"
  have "unwrapper_ok u"
    using assms(2) unwrapper_ok_Unwrap[of "is_mid_unwrapper s" "d_mid d"] u by (simp add: stream_ok_def)
  then have ok: "stream_ok s1" "stream_held s1 = stream_held s + (if inserted then Data_size d else 0)"
    using emplace_by_accounts[OF _ e, of entry_size] assms(2)
    by (auto simp: s1_def stream_ok_def stream_held_def)
  have add: "Stream_Add tsn d s = (if \<not> inserted then (0, [], s1)
      else if fst (is_stream_id s1) then case Stream_TryToAssembleMessage mid s1 of (removed_bytes, messages, s) \<Rightarrow>
        (int (Data_size d) - int removed_bytes, messages, s)
      else if mid = is_next_mid s1 then case Stream_TryToAssembleMessages s1 of (removed_bytes, messages, s) \<Rightarrow>
        (int (Data_size d) - int removed_bytes, messages, s)
      else (int (Data_size d), [], s1))"
    by (simp add: Stream_Add_def u e Let_def s1_def)
  obtain k1 m1 t1 where r1: "Stream_TryToAssembleMessage mid s1 = (k1, m1, t1)" by (metis prod_cases3)
  obtain k2 m2 t2 where r2: "Stream_TryToAssembleMessages s1 = (k2, m2, t2)" by (metis prod_cases3)
  show ?thesis
    using assms(1) ok Stream_Try_accounts[OF r1 ok(1)] Stream_Trys_accounts[OF r2 ok(1)]
    unfolding add by (auto simp: r1 r2 split: if_splits)
qed

lemma Stream_EraseTo_accounts:
  assumes "Stream_EraseTo mid s = (n, ms, s')" "stream_ok s"
  shows "stream_held s' + n = stream_held s \<and> delivered_bytes ms \<le> n \<and> stream_ok s'"
proof -
  obtain i u where u: "Unwrap (is_mid_unwrapper s) mid = (i, u)" by fastforce
  define s1 where "s1 = s\<lparr>is_mid_unwrapper := u, is_chunks_by_mid := after i (is_chunks_by_mid s)\<rparr>"
  define s2 where "s2 = (if i \<ge> is_next_mid s1 then s1\<lparr>is_next_mid := next_value i\<rparr> else s1)"
  let ?r = "msum (msum entry_size) (up_to i (is_chunks_by_mid s))"
  obtain k m1 t where t: "Stream_TryToAssembleMessages s2 = (k, m1, t)" by (metis prod_cases3)
  have "unwrapper_ok u"
    using assms(2) unwrapper_ok_Unwrap[of "is_mid_unwrapper s" mid] u by (simp add: stream_ok_def)
  then have ok: "stream_ok s1" "stream_held s1 + ?r = stream_held s" "stream_ok s2" "stream_held s2 = stream_held s1"
    using assms(2) msum_split[of "msum entry_size" i "is_chunks_by_mid s"]
    by (auto simp: s1_def s2_def stream_ok_def stream_held_def)
  have "Stream_EraseTo mid s = (if \<not> fst (is_stream_id s1) then (?r + k, m1, t) else (?r, [], s1))"
    unfolding Stream_EraseTo_def u Let_def prod.case s1_def[symmetric] s2_def[symmetric] t by simp
  then show ?thesis
    using assms(1) ok Stream_Trys_accounts[OF t ok(3)] by (auto split: if_splits)
qed

lemma new_interleaved_ok [simp]:
  "stream_ok (new_interleaved_stream i m)" "stream_held (new_interleaved_stream i m) = 0"
  using unwrapper_ok_Unwrap[OF unwrapper_ok_new, of m]
  by (auto simp: new_interleaved_stream_def stream_ok_def stream_held_def by_ok_def split: prod.splits)

lemma Stream_Reset_accounts [simp]:
  "stream_ok s \<Longrightarrow> stream_ok (Stream_Reset s)" "stream_held (Stream_Reset s) = stream_held s"
  using unwrapper_ok_Unwrap[OF unwrapper_ok_Reset, of "is_mid_unwrapper s" 0]
  by (auto simp: Stream_Reset_def stream_ok_def stream_held_def split: prod.splits)

lemma GetOrCreate_ok [simp]: "omap_all stream_ok m \<Longrightarrow> stream_ok (GetOrCreateStream i m)"
  by (simp add: GetOrCreateStream_def)

lemma held_assign:
  "omap_all stream_ok m \<Longrightarrow>
     msum stream_held (assign i s m) + stream_held (GetOrCreateStream i m) = msum stream_held m + stream_held s"
  unfolding GetOrCreateStream_def by (intro msum_assign_find_or) auto

lemma Interleaved_Add_accounts:
  assumes "Interleaved_Add tsn d m = (n, ms, m')" "omap_all stream_ok m"
  shows "omap_all stream_ok m' \<and> int (msum stream_held m') = int (msum stream_held m) + n
    \<and> (n = int (Data_size d) - int (delivered_bytes ms) \<or> n = 0 \<and> ms = [])"
proof -
  let ?i = "(d_is_unordered d, d_stream_id d)"
  obtain s' where a: "Stream_Add tsn d (GetOrCreateStream ?i m) = (n, ms, s')" "m' = assign ?i s' m"
    using assms(1) by (auto simp: Interleaved_Add_def Let_def split: prod.splits)
  show ?thesis
    using Stream_Add_accounts[OF a(1)] held_assign[OF assms(2), of ?i s'] assms(2) by (auto simp: a(2))
qed

lemma Interleaved_Forward_accounts:
  "Interleaved_HandleForwardTsn t sks m = (n, ms, m') \<Longrightarrow> omap_all stream_ok m \<Longrightarrow>
     omap_all stream_ok m' \<and> msum stream_held m' + n = msum stream_held m \<and> delivered_bytes ms \<le> n"
proof (induction t sks m arbitrary: n ms m' rule: Interleaved_HandleForwardTsn.induct)
  case (2 t sk sks m)
  let ?i = "(sk_unordered sk, sk_stream_id sk)"
  obtain k m1 s' where e: "Stream_EraseTo (sk_mid sk) (GetOrCreateStream ?i m) = (k, m1, s')"
    by (metis prod_cases3)
  obtain k2 m2 m'' where r: "Interleaved_HandleForwardTsn t sks (assign ?i s' m) = (k2, m2, m'')"
    by (metis prod_cases3)
  note s = Stream_EraseTo_accounts[OF e GetOrCreate_ok[OF "2.prems"(2)]]
  have "omap_all stream_ok m'' \<and> msum stream_held m'' + k2 = msum stream_held (assign ?i s' m) \<and> delivered_bytes m2 \<le> k2"
    using "2.IH"[OF refl e[symmetric] refl r] s "2.prems"(2) by simp
  then show ?case
    using "2.prems"(1) e r s held_assign[OF "2.prems"(2), of ?i s'] by auto
qed simp

lemma reset_stream_accounts:
  "omap_all stream_ok m \<Longrightarrow> omap_all stream_ok (reset_stream i m) \<and> msum stream_held (reset_stream i m) = msum stream_held m"
  using held_assign[of m i "Stream_Reset (GetOrCreateStream i m)"] by (simp add: reset_stream_def)

lemma Interleaved_Reset_accounts:
  assumes "omap_all stream_ok m"
  shows "omap_all stream_ok (Interleaved_ResetStreams ids m)
    \<and> msum stream_held (Interleaved_ResetStreams ids m) = msum stream_held m"
proof (cases "ids = []")
  case True
  then show ?thesis
    using omap_all_mono[OF assms, of "stream_ok \<circ> Stream_Reset"]
    by (simp add: Interleaved_ResetStreams_def msum_cong[of _ "stream_held \<circ> Stream_Reset" stream_held])
next
  case False
  have "omap_all stream_ok (fold (\<lambda>sid m. reset_stream (False, sid) (reset_stream (True, sid) m)) ids m)
    \<and> msum stream_held (fold (\<lambda>sid m. reset_stream (False, sid) (reset_stream (True, sid) m)) ids m) = msum stream_held m"
    using assms by (induction ids arbitrary: m) (auto simp: reset_stream_accounts)
  with False show ?thesis by (simp add: Interleaved_ResetStreams_def)
qed

interpretation interleaved: reassembly_streams Interleaved_Add Interleaved_HandleForwardTsn
  Interleaved_ResetStreams "omap_all stream_ok" "msum stream_held"
  by unfold_locales
    (use Interleaved_Add_accounts Interleaved_Forward_accounts Interleaved_Reset_accounts in blast)+

end
