(* ===== verification/Interleaved_Delivery.thy ===== *)
theory Interleaved_Delivery
  imports Interleaved_Reassembly Traditional_Delivery
begin

text \<open>
  What the reassembler for interleaved messages delivers on an ordered stream: the messages in the
  order of their identifiers, whatever the order in which their chunks arrive and whatever
  transmission sequence numbers the chunks have.
\<close>

section \<open>What the sender puts on the wire\<close>

text \<open>The field shared by payload protocol identifier and fragment number holds one of them.\<close>

definition idata_of :: "FullStreamId \<Rightarrow> int \<Rightarrow> sent_message list \<Rightarrow> nat \<Rightarrow> nat \<Rightarrow> Data" where
  "idata_of sid b ms j i =
     \<lparr>d_stream_id = snd sid, d_ssn = 0, d_mid = Wrap (b + int j), d_fsn = of_nat i,
      d_ppid = (if i = 0 then sm_ppid (ms ! j) else 0),
      d_payload = sm_pieces (ms ! j) ! i, d_is_beginning = (i = 0),
      d_is_end = (Suc i = pieces ms j), d_is_unordered = fst sid\<rparr>"

definition iwhole :: "(nat \<Rightarrow> nat \<Rightarrow> int) \<Rightarrow> u16 \<Rightarrow> sent_message list \<Rightarrow> nat \<Rightarrow> assembled" where
  "iwhole tsn sid ms j =
     (map (tsn j) [0..<pieces ms j],
      \<lparr>msg_stream_id = sid, msg_ppid = sm_ppid (ms ! j), msg_payload = concat (sm_pieces (ms ! j))\<rparr>)"

fun Stream_run :: "(int \<times> Data) list \<Rightarrow> InterleavedStream \<Rightarrow> assembled list \<times> InterleavedStream" where
  "Stream_run [] s = ([], s)"
| "Stream_run ((tsn, d) # cs) s =
     (case Stream_Add tsn d s of (n, out, s') \<Rightarrow>
        (case Stream_run cs s' of (out', s'') \<Rightarrow> (out @ out', s'')))"

definition fsn_of :: "nat \<Rightarrow> nat \<Rightarrow> u32" where
  "fsn_of j i = of_nat i"

definition entry_of :: "(nat \<Rightarrow> nat \<Rightarrow> int) \<Rightarrow> FullStreamId \<Rightarrow> int \<Rightarrow> sent_message list \<Rightarrow> nat \<Rightarrow> nat \<Rightarrow> int \<times> Data" where
  "entry_of tsn sid b ms j i = (tsn j i, idata_of sid b ms j i)"

lemma uint_fsn: "i < 2 ^ 32 \<Longrightarrow> uint (fsn_of j i) = int i"
  by (simp add: fsn_of_def unsigned_of_nat take_bit_nat_eq_self)

lemma fsn_mono:
  assumes "sent_ok (ms ! j)" "i < pieces ms j" "i' < pieces ms j" "i < i'"
  shows "fsn_of j i < fsn_of j i'"
proof -
  have "i < 2 ^ 32" "i' < 2 ^ 32"
    using assms(1-3) by (simp_all add: sent_ok_def pieces_def)
  then show ?thesis using assms(4) by (simp add: word_less_def uint_fsn)
qed

lemma Interleaved_Assemble_whole:
  assumes "sent_ok (ms ! j)"
  shows "Interleaved_AssembleMessage (entries (fsn_of j) (entry_of tsn sid b ms j) [0..<pieces ms j])
    = (length (concat (sm_pieces (ms ! j))), iwhole tsn (snd sid) ms j)"
proof -
  let ?c = "entries (fsn_of j) (entry_of tsn sid b ms j) [0..<pieces ms j]"
  let ?d = "map (entry_of tsn sid b ms j) [0..<pieces ms j]"
  have pos: "0 < pieces ms j" using assms by (simp add: sent_ok_def pieces_def)
  then have ne: "?c \<noteq> []" "?d \<noteq> []" by simp_all
  have snd: "map snd ?c = ?d" by (simp add: entries_def)
  have payload: "map (d_payload \<circ> snd) ?d = sm_pieces (ms ! j)"
    by (simp add: entry_of_def idata_of_def pieces_def comp_def map_nth)
  moreover have "snd (hd ?d) = idata_of sid b ms j 0"
    using pos by (simp add: hd_map entry_of_def)
  moreover have "map fst ?d = map (tsn j) [0..<pieces ms j]"
    by (simp add: entry_of_def)
  moreover have "msum Data_size ?d = length (concat (sm_pieces (ms ! j)))"
    using length_payloads[of ?d] unfolding payload by simp
  ultimately show ?thesis
    unfolding Interleaved_Assemble_eq[OF ne(1)] snd AssembleMessage_eq[OF ne(2)]
    by (simp add: iwhole_def idata_of_def)
qed

section \<open>Ordered streams\<close>

definition mid_buffer ::
  "(nat \<Rightarrow> nat \<Rightarrow> int) \<Rightarrow> FullStreamId \<Rightarrow> int \<Rightarrow> sent_message list \<Rightarrow> (nat \<times> nat) set \<Rightarrow> nat \<Rightarrow> (int, FsnMap) omap" where
  "mid_buffer tsn sid b ms S k =
     buffered b fsn_of (entry_of tsn sid b ms) (pieces ms) (length ms) S k"

lemma fsn_complete_test:
  assumes "sent_ok (ms ! j)" "arrived (pieces ms) S j \<noteq> []"
    and c: "c = entries (fsn_of j) (entry_of tsn sid b ms j) (arrived (pieces ms) S j)"
  shows "d_is_beginning (snd (snd (hd c))) \<and> d_is_end (snd (snd (last c)))
      \<and> uint (fst (last c)) - uint (fst (hd c)) = int (length c) - 1
    \<longleftrightarrow> is_complete (pieces ms) S j"
proof -
  let ?is = "arrived (pieces ms) S j"
  have in_range: "hd ?is < pieces ms j" "last ?is < pieces ms j"
    using hd_in_set[OF assms(2)] last_in_set[OF assms(2)] by auto
  then have small: "hd ?is < 2 ^ 32" "last ?is < 2 ^ 32"
    using assms(1) by (simp_all add: sent_ok_def pieces_def)
  have ends: "d_is_beginning (snd (snd (hd c))) \<longleftrightarrow> hd ?is = 0"
    "d_is_end (snd (snd (last c))) \<longleftrightarrow> Suc (last ?is) = pieces ms j"
    "uint (fst (last c)) - uint (fst (hd c)) = int (last ?is) - int (hd ?is)"
    using assms(2) small by (simp_all add: c entries_hd_last entry_of_def idata_of_def uint_fsn)
  have "is_complete (pieces ms) S j \<longleftrightarrow> length ?is = pieces ms j"
    using complete_indices[OF _ arrived_sub assms(2)] by (simp add: arrived_complete)
  moreover have "hd ?is = 0 \<and> Suc (last ?is) = pieces ms j" if "length ?is = pieces ms j"
    using that assms(2) complete_indices[OF _ arrived_sub assms(2)] upt_ends[of "pieces ms j"] by auto
  ultimately show ?thesis
    unfolding ends by (auto simp: c)
qed

lemma erase_mid_buffer:
  assumes "arrived (pieces ms) S k \<noteq> []" "k < length ms"
  shows "erase_key (b + int k) (mid_buffer tsn sid b ms S k) = mid_buffer tsn sid b ms S (Suc k)"
proof -
  have "\<forall>e \<in> set (mid_buffer tsn sid b ms S (Suc k)). fst e \<noteq> b + int k"
    using keys_buffered[of _ b _ _ _ _ S "Suc k"] by (force simp: mid_buffer_def)
  then have "filter (\<lambda>e. fst e \<noteq> b + int k) (mid_buffer tsn sid b ms S (Suc k)) = mid_buffer tsn sid b ms S (Suc k)"
    by (simp add: filter_id_conv)
  then show ?thesis
    using assms by (simp add: erase_key_def mid_buffer_def buffered_Cons)
qed

lemma map_of_mid_buffer:
  assumes "k < length ms"
  shows "map_of (mid_buffer tsn sid b ms S k) (b + int k) =
    (if arrived (pieces ms) S k = [] then None
     else Some (entries (fsn_of k) (entry_of tsn sid b ms k) (arrived (pieces ms) S k)))"
  using assms by (simp add: mid_buffer_def buffered_def map_of_entries[of "\<lambda>j. b + int j"] inj_def)

lemma STry_buffered:
  assumes "\<forall>m \<in> set ms. sent_ok m" "k \<le> length ms"
    and s: "is_chunks_by_mid s = mid_buffer tsn sid b ms S k"
  shows "Stream_TryToAssembleMessage (b + int k) s =
    (if k < length ms \<and> is_complete (pieces ms) S k
     then (length (concat (sm_pieces (ms ! k))), [iwhole tsn (snd sid) ms k],
           s\<lparr>is_chunks_by_mid := mid_buffer tsn sid b ms S (Suc k)\<rparr>)
     else (0, [], s))"
proof (cases "k < length ms \<and> arrived (pieces ms) S k \<noteq> []")
  case True
  let ?c = "entries (fsn_of k) (entry_of tsn sid b ms k) (arrived (pieces ms) S k)"
  have ok: "sent_ok (ms ! k)" using assms(1) True by simp
  note test = fsn_complete_test[OF ok conjunct2[OF True] refl, of tsn sid b]
  have "Interleaved_AssembleMessage ?c = (length (concat (sm_pieces (ms ! k))), iwhole tsn (snd sid) ms k)"
    if "is_complete (pieces ms) S k"
    using that Interleaved_Assemble_whole[OF ok] by (simp add: arrived_complete)
  then show ?thesis
    unfolding Stream_TryToAssembleMessage_def s
    using True test by (auto simp: map_of_mid_buffer erase_mid_buffer)
next
  case False
  have "is_complete (pieces ms) S k \<Longrightarrow> length (arrived (pieces ms) S k) = pieces ms k"
    by (simp add: arrived_complete)
  then have none: "\<not> (k < length ms \<and> is_complete (pieces ms) S k)"
    using False assms(1) by (auto simp: sent_ok_def pieces_def)
  have "map_of (mid_buffer tsn sid b ms S k) (b + int k) = None"
    using False assms(2) map_of_mid_buffer[of k ms] by (cases "k < length ms") (auto simp: mid_buffer_def buffered_def)
  then show ?thesis
    using none by (simp add: Stream_TryToAssembleMessage_def s)
qed

lemma STrys_buffered:
  assumes "\<forall>m \<in> set ms. sent_ok m" "k \<le> length ms"
    and "is_chunks_by_mid s = mid_buffer tsn sid b ms S k" "is_next_mid s = b + int k"
    and "g = first_gap (pieces ms) (length ms) S k"
  shows "snd (Stream_TryToAssembleMessages s) =
    (map (iwhole tsn (snd sid) ms) [k..<g],
     s\<lparr>is_chunks_by_mid := mid_buffer tsn sid b ms S g, is_next_mid := b + int g\<rparr>)"
  using assms(2-)
proof (induction "length ms - k" arbitrary: k s)
  case 0
  then show ?case
    using STry_buffered[OF assms(1), of k s tsn sid b S]
    by (subst Stream_TryToAssembleMessages.simps) (simp add: first_gap_rec[of _ _ _ k])
next
  case (Suc d)
  note t = STry_buffered[OF assms(1) Suc.prems(1,2)]
  show ?case
  proof (cases "is_complete (pieces ms) S k")
    case True
    let ?s = "s\<lparr>is_chunks_by_mid := mid_buffer tsn sid b ms S (Suc k), is_next_mid := b + int (Suc k)\<rparr>"
    have k: "k < length ms" "sent_ok (ms ! k)" using Suc assms(1) by auto
    have g: "g = first_gap (pieces ms) (length ms) S (Suc k)"
      using Suc.prems(4) k True by (subst (asm) first_gap_rec) simp
    then have "snd (Stream_TryToAssembleMessages ?s) = (map (iwhole tsn (snd sid) ms) [Suc k..<g],
        ?s\<lparr>is_chunks_by_mid := mid_buffer tsn sid b ms S g, is_next_mid := b + int g\<rparr>)"
      using Suc k by (intro Suc.hyps(1)) auto
    moreover have "Suc k \<le> g" using g first_gap_bounds[of "Suc k" "length ms" "pieces ms" S] k by simp
    ultimately show ?thesis
      using t k True whole_nonempty[OF k(2)] Suc.prems(3)
      by (subst Stream_TryToAssembleMessages.simps) (auto simp: case_prod_beta upt_conv_Cons next_value_def ac_simps)
  next
    case False
    then show ?thesis
      using t Suc.prems
      by (subst Stream_TryToAssembleMessages.simps) (simp add: first_gap_rec[of _ _ _ k])
  qed
qed

definition stream_after ::
  "(nat \<Rightarrow> nat \<Rightarrow> int) \<Rightarrow> FullStreamId \<Rightarrow> int \<Rightarrow> sent_message list \<Rightarrow> (nat \<times> nat) set \<Rightarrow> int \<Rightarrow> InterleavedStream" where
  "stream_after tsn sid b ms S u =
     \<lparr>is_stream_id = sid, is_chunks_by_mid = mid_buffer tsn sid b ms S (gap ms S),
      is_mid_unwrapper = \<lparr>last_unwrapped = u, last_value = Some (word_of_int u)\<rparr>,
      is_next_mid = b + int (gap ms S)\<rparr>"

lemma SAdd_after:
  assumes "\<forall>m \<in> set ms. sent_ok m" "j < length ms" "i < pieces ms j" "(j, i) \<notin> S" "\<not> fst sid"
    and "\<bar>b + int j - u\<bar> < 2 ^ 31"
  shows "snd (Stream_Add (tsn j i) (idata_of sid b ms j i) (stream_after tsn sid b ms S u))
    = (map (iwhole tsn (snd sid) ms) [gap ms S..<gap ms (insert (j, i) S)],
       stream_after tsn sid b ms (insert (j, i) S) (b + int j))"
proof -
  let ?S = "insert (j, i) S" and ?k = "gap ms S"
  let ?s = "stream_after tsn sid b ms S u"
  have k: "?k \<le> j" using missing_above_gap assms(2-4) by blast
  have unwrap: "Unwrap (is_mid_unwrapper ?s) (d_mid (idata_of sid b ms j i))
      = (b + int j, \<lparr>last_unwrapped = b + int j, last_value = Some (word_of_int (b + int j))\<rparr>)"
    using Unwrap_recover[of "is_mid_unwrapper ?s" "b + int j"] assms(6)
    by (simp add: stream_after_def idata_of_def unwrapper_ok_def)
  have "emplace_by (b + int j) (fsn_of j i) (entry_of tsn sid b ms j i) (mid_buffer tsn sid b ms S ?k)
      = (True, mid_buffer tsn sid b ms ?S ?k)"
    unfolding mid_buffer_def
    by (rule emplace_by_buffered, rule fsn_mono[of ms]) (use assms(1-4) k in auto)
  then have e: "emplace_by (b + int j) (d_fsn (idata_of sid b ms j i)) (tsn j i, idata_of sid b ms j i)
      (is_chunks_by_mid ?s) = (True, mid_buffer tsn sid b ms ?S ?k)"
    by (simp add: fsn_of_def entry_of_def idata_of_def stream_after_def)
  note g = gap_insert[OF refl k assms(2), of i]
  let ?s1 = "?s\<lparr>is_mid_unwrapper := \<lparr>last_unwrapped = b + int j, last_value = Some (word_of_int (b + int j))\<rparr>,
      is_chunks_by_mid := mid_buffer tsn sid b ms ?S ?k\<rparr>"
  show ?thesis
  proof (cases "j = ?k")
    case True
    have "is_chunks_by_mid ?s1 = mid_buffer tsn sid b ms ?S j" "is_next_mid ?s1 = b + int j"
      by (simp_all add: stream_after_def flip: True)
    from STrys_buffered[OF assms(1) _ this, of "gap ms ?S"] assms(2) g
    have "snd (Stream_TryToAssembleMessages ?s1) = (map (iwhole tsn (snd sid) ms) [j..<gap ms ?S],
        ?s1\<lparr>is_chunks_by_mid := mid_buffer tsn sid b ms ?S (gap ms ?S), is_next_mid := b + int (gap ms ?S)\<rparr>)"
      by (simp flip: True)
    then show ?thesis
      using unwrap e assms(5) True by (simp add: Stream_Add_def case_prod_beta stream_after_def Let_def)
  next
    case False
    have "?k < length ms" "\<not> is_complete (pieces ms) ?S ?k"
      using first_gap_at[of "pieces ms" "length ms" S 0] k assms(2) False by (auto simp: is_complete_def)
    then have "gap ms ?S = ?k"
      unfolding g by (subst first_gap_rec) simp
    then show ?thesis
      using False unwrap e assms(5) by (simp add: Stream_Add_def stream_after_def Let_def)
  qed
qed

definition iwire :: "(nat \<Rightarrow> nat \<Rightarrow> int) \<Rightarrow> FullStreamId \<Rightarrow> int \<Rightarrow> sent_message list \<Rightarrow> (nat \<times> nat) list \<Rightarrow> (int \<times> Data) list" where
  "iwire tsn sid b ms arr = map (\<lambda>(j, i). (tsn j i, idata_of sid b ms j i)) arr"

lemma Stream_run_after:
  assumes "\<forall>m \<in> set ms. sent_ok m" "\<not> fst sid" "arrivals_ok ms arr" "set arr \<inter> S = {}"
    and "steps_below (2 ^ 31) (u # map (\<lambda>(j, i). b + int j) arr)"
  shows "\<exists>u'. Stream_run (iwire tsn sid b ms arr) (stream_after tsn sid b ms S u)
    = (map (iwhole tsn (snd sid) ms) [gap ms S..<gap ms (S \<union> set arr)], stream_after tsn sid b ms (S \<union> set arr) u')"
  using assms(3-)
proof (induction arr arbitrary: S u)
  case Nil
  then show ?case by (auto simp: iwire_def)
next
  case (Cons a arr)
  obtain j i where a: "a = (j, i)" by fastforce
  let ?S = "insert (j, i) S" and ?w = "iwhole tsn (snd sid) ms"
  have "snd (Stream_Add (tsn j i) (idata_of sid b ms j i) (stream_after tsn sid b ms S u))
      = (map ?w [gap ms S..<gap ms ?S], stream_after tsn sid b ms ?S (b + int j))"
    using Cons.prems a by (intro SAdd_after assms(1,2)) (auto simp: arrivals_ok_def)
  then obtain n where add: "Stream_Add (tsn j i) (idata_of sid b ms j i) (stream_after tsn sid b ms S u)
      = (n, map ?w [gap ms S..<gap ms ?S], stream_after tsn sid b ms ?S (b + int j))"
    by (metis prod.collapse)
  have "\<exists>u'. Stream_run (iwire tsn sid b ms arr) (stream_after tsn sid b ms ?S (b + int j))
      = (map ?w [gap ms ?S..<gap ms (?S \<union> set arr)], stream_after tsn sid b ms (?S \<union> set arr) u')"
    using Cons.prems a by (intro Cons.IH) (auto simp: arrivals_ok_def)
  moreover have "gap ms S \<le> gap ms ?S" "gap ms ?S \<le> gap ms (?S \<union> set arr)"
    by (auto intro: gap_mono)
  moreover have "S \<union> set (a # arr) = ?S \<union> set arr" using a by auto
  ultimately show ?case
    using a add upt_split[of "gap ms S" "gap ms ?S" "gap ms (?S \<union> set arr)"]
    by (auto simp: iwire_def)
qed

section \<open>Properties\<close>

text \<open>
  C11.  An ordered stream of interleaved messages delivers in order, whatever the arrival order and
  whatever the numbers of the chunks.  Let the chunks of any messages cut into non-empty pieces
  arrive in any order, each at most once, such that consecutive arrivals are less than \<open>2^31\<close>
  messages apart.  Then exactly the messages of the longest complete prefix have been delivered, in
  the order of sending; and once every chunk has arrived all messages have been delivered and
  nothing is left in the buffer.
\<close>

theorem interleaved_stream_delivers:
  assumes "\<forall>m \<in> set ms. sent_ok m" "arrivals_ok ms arr"
    and "steps_below (2 ^ 31) (uint mid # map (\<lambda>(j, i). uint mid + int j) arr)"
    and run: "Stream_run (iwire tsn (False, sid) (uint mid) ms arr) (new_interleaved_stream (False, sid) mid) = (out, s)"
  shows "out = map (iwhole tsn sid ms) [0..<first_gap (pieces ms) (length ms) (set arr) 0]
    \<and> ((\<forall>j < length ms. \<forall>i < pieces ms j. (j, i) \<in> set arr) \<longrightarrow>
          out = map (iwhole tsn sid ms) [0..<length ms] \<and> is_chunks_by_mid s = [])"
proof -
  have new: "new_interleaved_stream (False, sid) mid = stream_after tsn (False, sid) (uint mid) ms {} (uint mid)"
    by (simp add: new_interleaved_stream_def Unwrap_def new_unwrapper_def stream_after_def
        gap_empty[OF assms(1)] mid_buffer_def buffered_def arrived_def Let_def)
  obtain u where "out = map (iwhole tsn sid ms) [0..<gap ms (set arr)]"
      "s = stream_after tsn (False, sid) (uint mid) ms (set arr) u"
    using run Stream_run_after[OF assms(1) _ assms(2) _ assms(3), of "(False, sid)" "{}" tsn]
    unfolding new by (auto simp: gap_empty[OF assms(1)])
  then show ?thesis
    using gap_full[of ms "set arr"] by (auto simp: stream_after_def mid_buffer_def buffered_def)
qed

theorem interleaved_stream_delivers_witness:
  "fst (Stream_run (iwire (\<lambda>j i. int (10 + 3 * i + j)) (False, 3) 4294967295
      [\<lparr>sm_ppid = 51, sm_tsn = 0, sm_pieces = [[1], [2, 3]]\<rparr>, \<lparr>sm_ppid = 53, sm_tsn = 0, sm_pieces = [[4]]\<rparr>]
      [(1, 0), (0, 1), (0, 0)]) (new_interleaved_stream (False, 3) 4294967295))
   = [([10, 13], \<lparr>msg_stream_id = 3, msg_ppid = 51, msg_payload = [1, 2, 3]\<rparr>),
      ([11], \<lparr>msg_stream_id = 3, msg_ppid = 53, msg_payload = [4]\<rparr>)]"
proof -
  let ?ms = "[\<lparr>sm_ppid = 51, sm_tsn = 0, sm_pieces = [[1], [2, 3]]\<rparr>, \<lparr>sm_ppid = 53, sm_tsn = 0, sm_pieces = [[4]]\<rparr>]"
  let ?arr = "[(1, 0), (0, 1), (0, 0)] :: (nat \<times> nat) list" and ?tsn = "\<lambda>j i. int (10 + 3 * i + j)"
  let ?run = "Stream_run (iwire ?tsn (False, 3) 4294967295 ?ms ?arr) (new_interleaved_stream (False, 3) 4294967295)"
  have ok: "\<forall>m \<in> set ?ms. sent_ok m" "arrivals_ok ?ms ?arr"
    by (simp_all add: sent_ok_def arrivals_ok_def pieces_def)
  have steps: "steps_below (2 ^ 31) (uint (4294967295 :: u32) # map (\<lambda>(j, i). uint (4294967295 :: u32) + int j) ?arr)"
    by simp
  have all: "\<forall>j < length ?ms. \<forall>i < pieces ?ms j. (j, i) \<in> set ?arr"
    by (auto simp: less_Suc_eq pieces_def)
  have "uint (4294967295 :: u32) = 4294967295" by simp
  note interleaved_stream_delivers[OF ok steps, of ?tsn 3 "fst ?run" "snd ?run", unfolded this]
  with all have "fst ?run = map (iwhole ?tsn 3 ?ms) [0..<length ?ms]" by (metis prod.collapse)
  then show ?thesis
    by (simp add: iwhole_def pieces_def upt_rec)
qed

end
