(* ===== verification/Reassembly_Queue.thy ===== *)
theory Reassembly_Queue
  imports Traditional_Reassembly Interleaved_Reassembly
begin

text \<open>
  The reassembly queue, \<open>rx/reassembly_queue.{h,cc}\<close>: it feeds received chunks to one of the two
  reassemblers, keeps the assembled messages until they are flushed, counts the buffered bytes and
  postpones chunks while a stream reset waits for data that is still missing.
\<close>

section \<open>The reassembler behind the virtual interface\<close>

datatype ReassemblyStreams = Traditional TraditionalStreams | Interleaved InterleavedStreams

definition CreateStreams :: "bool \<Rightarrow> ReassemblyStreams" where
  "CreateStreams use_message_interleaving =
     (if use_message_interleaving then Interleaved [] else Traditional new_traditional_streams)"

fun streams_Add :: "int \<Rightarrow> Data \<Rightarrow> ReassemblyStreams \<Rightarrow> int \<times> assembled list \<times> ReassemblyStreams" where
  "streams_Add tsn data (Traditional s) =
     (case Traditional_Add tsn data s of (n, messages, s) \<Rightarrow> (n, messages, Traditional s))"
| "streams_Add tsn data (Interleaved s) =
     (case Interleaved_Add tsn data s of (n, messages, s) \<Rightarrow> (n, messages, Interleaved s))"

fun streams_HandleForwardTsn ::
  "int \<Rightarrow> SkippedStream list \<Rightarrow> ReassemblyStreams \<Rightarrow> nat \<times> assembled list \<times> ReassemblyStreams" where
  "streams_HandleForwardTsn tsn skipped (Traditional s) =
     (case Traditional_HandleForwardTsn tsn skipped s of (n, messages, s) \<Rightarrow> (n, messages, Traditional s))"
| "streams_HandleForwardTsn tsn skipped (Interleaved s) =
     (case Interleaved_HandleForwardTsn tsn skipped s of (n, messages, s) \<Rightarrow> (n, messages, Interleaved s))"

fun streams_ResetStreams :: "u16 list \<Rightarrow> ReassemblyStreams \<Rightarrow> ReassemblyStreams" where
  "streams_ResetStreams ids (Traditional s) = Traditional (Traditional_ResetStreams ids s)"
| "streams_ResetStreams ids (Interleaved s) = Interleaved (Interleaved_ResetStreams ids s)"

fun streams_GetHandoverReadiness :: "ReassemblyStreams \<Rightarrow> HandoverReadinessStatus" where
  "streams_GetHandoverReadiness (Traditional s) = Traditional_GetHandoverReadiness s"
| "streams_GetHandoverReadiness (Interleaved s) = Interleaved_GetHandoverReadiness s"

fun streams_AddHandoverState :: "ReassemblyStreams \<Rightarrow> HandoverState \<Rightarrow> HandoverState" where
  "streams_AddHandoverState (Traditional s) state = Traditional_AddHandoverState s state"
| "streams_AddHandoverState (Interleaved s) state = Interleaved_AddHandoverState s state"

fun streams_RestoreFromState :: "HandoverState \<Rightarrow> ReassemblyStreams \<Rightarrow> ReassemblyStreams" where
  "streams_RestoreFromState state (Traditional s) = Traditional (Traditional_RestoreFromState state s)"
| "streams_RestoreFromState state (Interleaved s) = Interleaved (Interleaved_RestoreFromState state s)"

section \<open>The watermark\<close>

text \<open>
  \<open>max_size_bytes * kHighWatermarkLimit\<close> is computed in single precision: the size is rounded to 24
  significant bits, multiplied with \<open>0.9f = 15099494 / 2^24\<close>, the product is rounded to 24
  significant bits and truncated.  Rounding is to nearest, ties to even.
\<close>

fun excess_bits :: "nat \<Rightarrow> nat" where
  "excess_bits n = (if n < 2 ^ 24 then 0 else Suc (excess_bits (n div 2)))"

declare excess_bits.simps [simp del]

definition float_round :: "nat \<Rightarrow> nat" where
  "float_round n =
     (let s = excess_bits n; q = n div 2 ^ s; r = 2 * (n mod 2 ^ s) in
      (if r > 2 ^ s \<or> r = 2 ^ s \<and> odd q then q + 1 else q) * 2 ^ s)"

definition watermark_of :: "u64 \<Rightarrow> u64" where
  "watermark_of max_size_bytes =
     of_nat (float_round (float_round (unat max_size_bytes) * 15099494) div 2 ^ 24)"

section \<open>The queue\<close>

datatype DeferredAction = DeferredAdd u32 Data | DeferredForwardTsn u32 "SkippedStream list"

record DeferredResetStreams =
  drs_sender_last_assigned_tsn :: int
  drs_streams :: "u16 list"
  drs_deferred_actions :: "DeferredAction list"

record ReassemblyQueue =
  rq_max_size_bytes :: u64
  rq_watermark_bytes :: u64
  rq_tsn_unwrapper :: "32 SeqNumUnwrapper"
  rq_reassembled_messages :: "DcSctpMessage list"
  rq_deferred_reset_streams :: "DeferredResetStreams option"
  rq_last_completed_reset_req_seq_nbr :: u32
  rq_queued_bytes :: u64
  rq_streams :: ReassemblyStreams

definition new_reassembly_queue :: "u64 \<Rightarrow> bool \<Rightarrow> ReassemblyQueue" where
  "new_reassembly_queue max_size_bytes use_message_interleaving =
     \<lparr>rq_max_size_bytes = max_size_bytes, rq_watermark_bytes = watermark_of max_size_bytes,
      rq_tsn_unwrapper = new_unwrapper, rq_reassembled_messages = [],
      rq_deferred_reset_streams = None, rq_last_completed_reset_req_seq_nbr = 0,
      rq_queued_bytes = 0, rq_streams = CreateStreams use_message_interleaving\<rparr>"

text \<open>The callback of the reassembler, called once for every message in \<open>messages\<close>.\<close>

definition AddReassembledMessages :: "assembled list \<Rightarrow> ReassemblyQueue \<Rightarrow> ReassemblyQueue" where
  "AddReassembledMessages messages q =
     q\<lparr>rq_reassembled_messages := rq_reassembled_messages q @ map snd messages\<rparr>"

definition Queue_Add :: "u32 \<Rightarrow> Data \<Rightarrow> ReassemblyQueue \<Rightarrow> ReassemblyQueue" where
  "Queue_Add tsn data q =
     (case Unwrap (rq_tsn_unwrapper q) tsn of (unwrapped_tsn, unwrapper) \<Rightarrow>
        let q = q\<lparr>rq_tsn_unwrapper := unwrapper\<rparr>;
            direct = (case streams_Add unwrapped_tsn data (rq_streams q) of (n, messages, s) \<Rightarrow>
              AddReassembledMessages messages
                (q\<lparr>rq_streams := s, rq_queued_bytes := rq_queued_bytes q + word_of_int n\<rparr>))
        in case rq_deferred_reset_streams q of
             None \<Rightarrow> direct
           | Some drs \<Rightarrow>
               if unwrapped_tsn > drs_sender_last_assigned_tsn drs \<and> d_stream_id data \<in> set (drs_streams drs)
               then q\<lparr>rq_queued_bytes := rq_queued_bytes q + of_nat (Data_size data),
                      rq_deferred_reset_streams :=
                        Some (drs\<lparr>drs_deferred_actions := drs_deferred_actions drs @ [DeferredAdd tsn data]\<rparr>)\<rparr>
               else direct)"

definition Queue_HandleForwardTsn :: "u32 \<Rightarrow> SkippedStream list \<Rightarrow> ReassemblyQueue \<Rightarrow> ReassemblyQueue" where
  "Queue_HandleForwardTsn new_cumulative_tsn skipped_streams q =
     (case Unwrap (rq_tsn_unwrapper q) new_cumulative_tsn of (tsn, unwrapper) \<Rightarrow>
        let q = q\<lparr>rq_tsn_unwrapper := unwrapper\<rparr>;
            perform = (case streams_HandleForwardTsn tsn skipped_streams (rq_streams q) of (n, messages, s) \<Rightarrow>
              AddReassembledMessages messages
                (q\<lparr>rq_streams := s, rq_queued_bytes := rq_queued_bytes q - of_nat n\<rparr>))
        in case rq_deferred_reset_streams q of
             None \<Rightarrow> perform
           | Some drs \<Rightarrow>
               if tsn > drs_sender_last_assigned_tsn drs
               then q\<lparr>rq_deferred_reset_streams :=
                        Some (drs\<lparr>drs_deferred_actions :=
                          drs_deferred_actions drs @ [DeferredForwardTsn new_cumulative_tsn skipped_streams]\<rparr>)\<rparr>
               else perform)"

fun run_action :: "DeferredAction \<Rightarrow> ReassemblyQueue \<Rightarrow> ReassemblyQueue" where
  "run_action (DeferredAdd tsn data) q =
     Queue_Add tsn data (q\<lparr>rq_queued_bytes := rq_queued_bytes q - of_nat (Data_size data)\<rparr>)"
| "run_action (DeferredForwardTsn tsn streams) q = Queue_HandleForwardTsn tsn streams q"

definition ResetStreamsAndLeaveDeferredReset :: "u16 list \<Rightarrow> ReassemblyQueue \<Rightarrow> ReassemblyQueue" where
  "ResetStreamsAndLeaveDeferredReset stream_ids q =
     (let q = q\<lparr>rq_streams := streams_ResetStreams stream_ids (rq_streams q)\<rparr> in
      case rq_deferred_reset_streams q of
        None \<Rightarrow> q
      | Some drs \<Rightarrow> fold run_action (drs_deferred_actions drs) (q\<lparr>rq_deferred_reset_streams := None\<rparr>))"

definition EnterDeferredReset :: "u32 \<Rightarrow> u16 list \<Rightarrow> ReassemblyQueue \<Rightarrow> ReassemblyQueue" where
  "EnterDeferredReset sender_last_assigned_tsn streams q =
     (if rq_deferred_reset_streams q = None
      then case Unwrap (rq_tsn_unwrapper q) sender_last_assigned_tsn of (tsn, unwrapper) \<Rightarrow>
        q\<lparr>rq_tsn_unwrapper := unwrapper,
          rq_deferred_reset_streams :=
            Some \<lparr>drs_sender_last_assigned_tsn = tsn, drs_streams = sset_of streams, drs_deferred_actions = []\<rparr>\<rparr>
      else q)"

definition FlushMessages :: "ReassemblyQueue \<Rightarrow> DcSctpMessage list \<times> ReassemblyQueue" where
  "FlushMessages q = (rq_reassembled_messages q, q\<lparr>rq_reassembled_messages := []\<rparr>)"

definition HasMessages :: "ReassemblyQueue \<Rightarrow> bool" where
  "HasMessages q = (rq_reassembled_messages q \<noteq> [])"

definition remaining_bytes :: "ReassemblyQueue \<Rightarrow> u64" where
  "remaining_bytes q = rq_watermark_bytes q - rq_queued_bytes q"

definition Queue_is_full :: "ReassemblyQueue \<Rightarrow> bool" where
  "Queue_is_full q = (rq_queued_bytes q \<ge> rq_max_size_bytes q)"

definition is_above_watermark :: "ReassemblyQueue \<Rightarrow> bool" where
  "is_above_watermark q = (rq_queued_bytes q \<ge> rq_watermark_bytes q)"

definition Queue_IsConsistent :: "ReassemblyQueue \<Rightarrow> bool" where
  "Queue_IsConsistent q = (rq_queued_bytes q \<le> 2 * rq_max_size_bytes q)"

definition Queue_GetHandoverReadiness :: "ReassemblyQueue \<Rightarrow> HandoverReadinessStatus" where
  "Queue_GetHandoverReadiness q =
     (let status = streams_GetHandoverReadiness (rq_streams q) in
      if rq_deferred_reset_streams q \<noteq> None then status_Add_reason status kStreamResetDeferred else status)"

definition Queue_AddHandoverState :: "ReassemblyQueue \<Rightarrow> HandoverState \<Rightarrow> HandoverState" where
  "Queue_AddHandoverState q state =
     streams_AddHandoverState (rq_streams q)
       (state\<lparr>hs_rx := (hs_rx state)\<lparr>hrx_last_completed_deferred_reset_req_sn :=
          rq_last_completed_reset_req_seq_nbr q\<rparr>\<rparr>)"

definition Queue_RestoreFromState :: "HandoverState \<Rightarrow> ReassemblyQueue \<Rightarrow> ReassemblyQueue" where
  "Queue_RestoreFromState state q =
     q\<lparr>rq_last_completed_reset_req_seq_nbr := hrx_last_completed_deferred_reset_req_sn (hs_rx state),
       rq_streams := streams_RestoreFromState state (rq_streams q)\<rparr>"

section \<open>The interface\<close>

fun streams_ok :: "ReassemblyStreams \<Rightarrow> bool" where
  "streams_ok (Traditional s) = traditional_ok s"
| "streams_ok (Interleaved s) = omap_all stream_ok s"

fun streams_held :: "ReassemblyStreams \<Rightarrow> nat" where
  "streams_held (Traditional s) = traditional_held s"
| "streams_held (Interleaved s) = msum stream_held s"

text \<open>The dispatching operations satisfy the contract because both implementations do.\<close>

interpretation streams: reassembly_streams streams_Add streams_HandleForwardTsn streams_ResetStreams
  streams_ok streams_held
proof
  fix s s' :: ReassemblyStreams and tsn d n ms
  assume ok: "streams_ok s" and add: "streams_Add tsn d s = (n, ms, s')"
  have "streams_ok s' \<and> int (streams_held s') = int (streams_held s) + n
      \<and> (n = int (Data_size d) - int (delivered_bytes ms) \<or> n = 0 \<and> ms = [])"
    using ok add Traditional_Add_accounts Interleaved_Add_accounts
    by (cases s) (fastforce split: prod.splits)+
  then show "streams_ok s'" "int (streams_held s') = int (streams_held s) + n"
    "n = int (Data_size d) - int (delivered_bytes ms) \<or> n = 0 \<and> ms = []" by auto
next
  fix s s' :: ReassemblyStreams and t sk k ms
  assume ok: "streams_ok s" and fwd: "streams_HandleForwardTsn t sk s = (k, ms, s')"
  have "streams_ok s' \<and> streams_held s' + k = streams_held s \<and> delivered_bytes ms \<le> k"
    using ok fwd Traditional_Forward_accounts Interleaved_Forward_accounts
    by (cases s) (fastforce split: prod.splits)+
  then show "streams_ok s'" "streams_held s' + k = streams_held s \<and> delivered_bytes ms \<le> k" by auto
next
  fix s :: ReassemblyStreams and ids
  assume "streams_ok s"
  then show "streams_ok (streams_ResetStreams ids s)" "streams_held (streams_ResetStreams ids s) = streams_held s"
    using Traditional_Reset_accounts Interleaved_Reset_accounts by (cases s; simp)+
qed

section \<open>Accounting\<close>

fun action_bytes :: "DeferredAction \<Rightarrow> nat" where
  "action_bytes (DeferredAdd tsn d) = Data_size d"
| "action_bytes (DeferredForwardTsn tsn sks) = 0"

definition deferred_bytes :: "ReassemblyQueue \<Rightarrow> nat" where
  "deferred_bytes q = (case rq_deferred_reset_streams q of
     None \<Rightarrow> 0 | Some drs \<Rightarrow> \<Sum>a\<leftarrow>drs_deferred_actions drs. action_bytes a)"

definition buffered_bytes :: "ReassemblyQueue \<Rightarrow> nat" where
  "buffered_bytes q = streams_held (rq_streams q) + deferred_bytes q"

definition message_bytes :: "DcSctpMessage list \<Rightarrow> nat" where
  "message_bytes ms = (\<Sum>m\<leftarrow>ms. length (msg_payload m))"

lemma message_bytes_simps [simp]:
  "message_bytes [] = 0" "message_bytes (xs @ ys) = message_bytes xs + message_bytes ys"
  "message_bytes (map snd ms) = delivered_bytes ms"
  by (simp_all add: message_bytes_def delivered_bytes_def comp_def)

text \<open>
  \<open>extra\<close> are bytes that are counted but whose postponed action has already been taken off the list,
  \<open>put_in\<close> bounds what has been put in.
\<close>

definition queue_ok :: "nat \<Rightarrow> nat \<Rightarrow> ReassemblyQueue \<Rightarrow> bool" where
  "queue_ok extra put_in q = (streams_ok (rq_streams q)
     \<and> rq_queued_bytes q = of_nat (buffered_bytes q + extra)
     \<and> message_bytes (rq_reassembled_messages q) + buffered_bytes q + extra \<le> put_in)"

lemma queue_ok_unwrapper [simp]: "queue_ok e n (q\<lparr>rq_tsn_unwrapper := u\<rparr>) = queue_ok e n q"
  by (simp add: queue_ok_def buffered_bytes_def deferred_bytes_def)

lemma direct_ok:
  assumes "queue_ok e n q" "streams_Add t d (rq_streams q) = (k, ms, s)"
  shows "queue_ok e (n + Data_size d)
    (AddReassembledMessages ms (q\<lparr>rq_streams := s, rq_queued_bytes := rq_queued_bytes q + word_of_int k\<rparr>))"
proof -
  have ok: "streams_ok (rq_streams q)" using assms(1) by (simp add: queue_ok_def)
  note held = streams.add_bytes[OF ok assms(2)]
  have "(of_nat (streams_held s) :: u64) = of_nat (streams_held (rq_streams q)) + word_of_int k"
    using arg_cong[OF held, of "word_of_int :: int \<Rightarrow> u64"] by simp
  then show ?thesis
    using assms(1) streams.add_inv[OF ok assms(2)] streams.add_conserves[OF ok assms(2)]
    by (simp add: queue_ok_def buffered_bytes_def deferred_bytes_def AddReassembledMessages_def)
qed

lemma Queue_Add_ok:
  assumes "queue_ok e n q"
  shows "queue_ok e (n + Data_size d) (Queue_Add tsn d q)"
proof -
  obtain t u where u: "Unwrap (rq_tsn_unwrapper q) tsn = (t, u)" by fastforce
  define q1 where "q1 = q\<lparr>rq_tsn_unwrapper := u\<rparr>"
  obtain k ms s where add: "streams_Add t d (rq_streams q1) = (k, ms, s)" by (metis prod_cases3)
  have q1: "queue_ok e n q1" using assms by (simp add: q1_def)
  note direct = direct_ok[OF q1 add]
  show ?thesis
  proof (cases "rq_deferred_reset_streams q1")
    case None
    then show ?thesis
      using direct add by (simp add: Queue_Add_def u Let_def q1_def)
  next
    case (Some drs)
    have "queue_ok e (n + Data_size d) (q1\<lparr>rq_queued_bytes := rq_queued_bytes q1 + of_nat (Data_size d),
        rq_deferred_reset_streams :=
          Some (drs\<lparr>drs_deferred_actions := drs_deferred_actions drs @ [DeferredAdd tsn d]\<rparr>)\<rparr>)"
      using q1 Some by (simp add: queue_ok_def buffered_bytes_def deferred_bytes_def)
    then show ?thesis
      using Some direct add by (simp add: Queue_Add_def u Let_def q1_def)
  qed
qed

lemma Queue_Forward_ok:
  assumes "queue_ok e n q"
  shows "queue_ok e n (Queue_HandleForwardTsn tsn sks q)"
proof -
  obtain t u where u: "Unwrap (rq_tsn_unwrapper q) tsn = (t, u)" by fastforce
  define q1 where "q1 = q\<lparr>rq_tsn_unwrapper := u\<rparr>"
  obtain k ms s where f: "streams_HandleForwardTsn t sks (rq_streams q1) = (k, ms, s)" by (metis prod_cases3)
  have q1: "queue_ok e n q1" using assms by (simp add: q1_def)
  then have ok: "streams_ok (rq_streams q1)" by (simp add: queue_ok_def)
  note held = conjunct1[OF streams.forward_bytes[OF ok f]]
  have "(of_nat (streams_held s) :: u64) = of_nat (streams_held (rq_streams q1)) - of_nat k"
    using arg_cong[OF held, of "of_nat :: nat \<Rightarrow> u64"] by (simp add: eq_diff_eq)
  then have perform: "queue_ok e n (AddReassembledMessages ms
      (q1\<lparr>rq_streams := s, rq_queued_bytes := rq_queued_bytes q1 - of_nat k\<rparr>))"
    using q1 streams.forward_inv[OF ok f] streams.forward_conserves[OF ok f]
    by (simp add: queue_ok_def buffered_bytes_def deferred_bytes_def AddReassembledMessages_def)
  show ?thesis
  proof (cases "rq_deferred_reset_streams q1")
    case None
    then show ?thesis
      using perform f by (simp add: Queue_HandleForwardTsn_def u Let_def q1_def)
  next
    case (Some drs)
    have "queue_ok e n (q1\<lparr>rq_deferred_reset_streams :=
        Some (drs\<lparr>drs_deferred_actions := drs_deferred_actions drs @ [DeferredForwardTsn tsn sks]\<rparr>)\<rparr>)"
      using q1 Some by (simp add: queue_ok_def buffered_bytes_def deferred_bytes_def)
    then show ?thesis
      using Some perform f by (simp add: Queue_HandleForwardTsn_def u Let_def q1_def)
  qed
qed

lemma run_action_ok:
  assumes "queue_ok (action_bytes a + e) n q"
  shows "queue_ok e n (run_action a q)"
proof (cases a)
  case (DeferredAdd tsn d)
  then have "queue_ok e (n - Data_size d) (q\<lparr>rq_queued_bytes := rq_queued_bytes q - of_nat (Data_size d)\<rparr>)"
    and "Data_size d \<le> n"
    using assms by (auto simp: queue_ok_def buffered_bytes_def deferred_bytes_def)
  from Queue_Add_ok[OF this(1), of d tsn] this(2) show ?thesis
    by (simp add: DeferredAdd)
next
  case (DeferredForwardTsn tsn sks)
  then show ?thesis using assms Queue_Forward_ok by simp
qed

lemma run_actions_ok:
  "queue_ok ((\<Sum>a\<leftarrow>as. action_bytes a) + e) n q \<Longrightarrow> queue_ok e n (fold run_action as q)"
proof (induction as arbitrary: q)
  case (Cons a as)
  then have "queue_ok (action_bytes a + ((\<Sum>a\<leftarrow>as. action_bytes a) + e)) n q"
    by (simp add: add.assoc)
  from Cons.IH[OF run_action_ok[OF this]] show ?case by simp
qed simp

lemma Reset_ok:
  assumes "queue_ok e n q"
  shows "queue_ok e n (ResetStreamsAndLeaveDeferredReset ids q)"
proof (cases "rq_deferred_reset_streams q")
  case None
  then show ?thesis
    using assms streams.reset_inv streams.reset_bytes
    by (auto simp: ResetStreamsAndLeaveDeferredReset_def Let_def queue_ok_def buffered_bytes_def deferred_bytes_def)
next
  case (Some drs)
  let ?q = "q\<lparr>rq_streams := streams_ResetStreams ids (rq_streams q), rq_deferred_reset_streams := None\<rparr>"
  have "queue_ok ((\<Sum>a\<leftarrow>drs_deferred_actions drs. action_bytes a) + e) n ?q"
    using assms Some streams.reset_inv streams.reset_bytes
    by (auto simp: queue_ok_def buffered_bytes_def deferred_bytes_def)
  from run_actions_ok[OF this] Some show ?thesis
    by (simp add: ResetStreamsAndLeaveDeferredReset_def)
qed

lemma Enter_ok: "queue_ok e n q \<Longrightarrow> queue_ok e n (EnterDeferredReset t ids q)"
  by (auto simp: EnterDeferredReset_def queue_ok_def buffered_bytes_def deferred_bytes_def split: prod.splits)

section \<open>Runs\<close>

datatype QueueOp = OpAdd u32 Data | OpForwardTsn u32 "SkippedStream list" | OpReset "u16 list"
  | OpEnterDeferred u32 "u16 list" | OpFlush

fun queue_step :: "QueueOp \<Rightarrow> ReassemblyQueue \<Rightarrow> DcSctpMessage list \<times> ReassemblyQueue" where
  "queue_step (OpAdd tsn d) q = ([], Queue_Add tsn d q)"
| "queue_step (OpForwardTsn tsn sks) q = ([], Queue_HandleForwardTsn tsn sks q)"
| "queue_step (OpReset ids) q = ([], ResetStreamsAndLeaveDeferredReset ids q)"
| "queue_step (OpEnterDeferred tsn ids) q = ([], EnterDeferredReset tsn ids q)"
| "queue_step OpFlush q = FlushMessages q"

fun queue_run :: "QueueOp list \<Rightarrow> ReassemblyQueue \<Rightarrow> DcSctpMessage list \<times> ReassemblyQueue" where
  "queue_run [] q = ([], q)"
| "queue_run (op # ops) q =
     (case queue_step op q of (out, q') \<Rightarrow> (case queue_run ops q' of (out', q'') \<Rightarrow> (out @ out', q'')))"

fun op_bytes :: "QueueOp \<Rightarrow> nat" where
  "op_bytes (OpAdd tsn d) = Data_size d"
| "op_bytes _ = 0"

lemma queue_step_ok:
  "queue_ok 0 n q \<Longrightarrow> queue_step op q = (out, q') \<Longrightarrow>
     message_bytes out \<le> n + op_bytes op \<and> queue_ok 0 (n + op_bytes op - message_bytes out) q'"
proof (cases op)
  case OpFlush
  assume "queue_ok 0 n q" "queue_step op q = (out, q')"
  then show ?thesis
    using OpFlush by (auto simp: FlushMessages_def queue_ok_def buffered_bytes_def deferred_bytes_def)
qed (auto simp: Queue_Add_ok Queue_Forward_ok Reset_ok Enter_ok)

lemma queue_run_ok:
  "queue_ok 0 n q \<Longrightarrow> queue_run ops q = (out, q') \<Longrightarrow>
     message_bytes out \<le> n + (\<Sum>op\<leftarrow>ops. op_bytes op)
     \<and> queue_ok 0 (n + (\<Sum>op\<leftarrow>ops. op_bytes op) - message_bytes out) q'"
proof (induction ops arbitrary: n q out)
  case (Cons op ops)
  obtain o1 q1 where s: "queue_step op q = (o1, q1)" by fastforce
  obtain o2 where r: "queue_run ops q1 = (o2, q')" "out = o1 @ o2"
    using Cons.prems(2) s by (auto split: prod.splits)
  note step = queue_step_ok[OF Cons.prems(1) s]
  have "n + (\<Sum>op\<leftarrow>op # ops. op_bytes op) - message_bytes out
      = n + op_bytes op - message_bytes o1 + (\<Sum>op\<leftarrow>ops. op_bytes op) - message_bytes o2"
    using step r(2) by simp
  then show ?case
    using Cons.IH[OF conjunct2[OF step] r(1)] step r(2) by auto
qed auto

section \<open>The watermark\<close>

lemma excess_bits_normal: "excess_bits n = 0 \<or> 2 ^ 23 \<le> n div 2 ^ excess_bits n"
proof (induction n rule: excess_bits.induct)
  case (1 n)
  show ?case
  proof (cases "n < 2 ^ 24")
    case False
    then have step: "excess_bits n = Suc (excess_bits (n div 2))" by (simp add: excess_bits.simps[of n])
    from False have "2 ^ 23 \<le> n div 2" by simp
    then have "2 ^ 23 \<le> n div 2 div 2 ^ excess_bits (n div 2)" using 1[OF False] by auto
    then show ?thesis by (simp add: step div_mult2_eq)
  qed (simp add: excess_bits.simps[of n])
qed

text \<open>Rounding to 24 significant bits is off by at most one part in \<open>2^24\<close>.\<close>

lemma float_round_error:
  "2 ^ 24 * float_round n \<le> (2 ^ 24 + 1) * n \<and> (2 ^ 24 - 1) * n \<le> 2 ^ 24 * float_round n"
proof (cases "excess_bits n = 0")
  case True
  then show ?thesis by (simp add: float_round_def)
next
  case False
  define p q r where "p = 2 ^ excess_bits n" and "q = n div p" and "r = n mod p"
  have n: "n = q * p + r" by (simp add: q_def r_def)
  have r: "r < p" by (simp add: r_def p_def)
  have q: "2 ^ 23 \<le> q" using excess_bits_normal[of n] False by (simp add: p_def q_def)
  have big: "2 ^ 23 * p \<le> n" using mult_le_mono1[OF q, of p] n by linarith
  have f: "float_round n = (if p < 2 * r \<or> 2 * r = p \<and> odd q then q + 1 else q) * p"
    by (simp add: float_round_def p_def q_def r_def Let_def)
  have "2 * float_round n \<le> 2 * n + p" "2 * n \<le> 2 * float_round n + p"
    using r unfolding f by (subst n, auto simp: algebra_simps)+
  then show ?thesis using big by simp
qed

lemma watermark_between:
  assumes "0 < m"
  shows "unat (watermark_of m) < unat m \<and> 89 * unat m \<le> 100 * unat (watermark_of m) + 100"
proof -
  define n a b where "n = unat m" and "a = float_round n" and "b = float_round (a * 15099494)"
  have n: "0 < n" "n < 2 ^ 64"
    using assms unsigned_less[of m] by (simp_all add: n_def word_greater_zero_iff unat_gt_0)
  have a: "2 ^ 24 * a \<le> (2 ^ 24 + 1) * n" "(2 ^ 24 - 1) * n \<le> 2 ^ 24 * a"
    using float_round_error[of n] by (simp_all add: a_def)
  have b: "2 ^ 24 * b \<le> (2 ^ 24 + 1) * (a * 15099494)" "(2 ^ 24 - 1) * (a * 15099494) \<le> 2 ^ 24 * b"
    using float_round_error[of "a * 15099494"] by (simp_all only: b_def)
  have up: "b < 2 ^ 24 * n" using a b n by simp
  then have less: "b div 2 ^ 24 < n" by (simp add: less_mult_imp_div_less mult.commute)
  then have w: "unat (watermark_of m) = b div 2 ^ 24"
    using n by (simp add: watermark_of_def b_def a_def n_def unsigned_of_nat take_bit_nat_eq_self)
  have "89 * n * 2 ^ 24 \<le> 100 * b" using a b by simp
  also have "b \<le> 2 ^ 24 * (b div 2 ^ 24) + 2 ^ 24"
    using mult_div_mod_eq[of "2 ^ 24" b] mod_less_divisor[of "2 ^ 24" b, OF zero_less_power] by simp
  finally have "89 * n \<le> 100 * (b div 2 ^ 24) + 100" by simp
  then show ?thesis using less by (simp add: w n_def)
qed

section \<open>Deferred resets\<close>

text \<open>The unwrapper has seen a number of the window \<open>V\<close>, so it recovers every number of the window.\<close>

definition in_window :: "int set \<Rightarrow> 32 SeqNumUnwrapper \<Rightarrow> bool" where
  "in_window V u = (unwrapper_ok u \<and> last_value u \<noteq> None \<and> last_unwrapped u \<in> V
     \<and> (\<forall>x \<in> V. \<forall>y \<in> V. \<bar>x - y\<bar> < 2 ^ 31))"

lemma in_window_Unwrap:
  assumes "in_window V u" "x \<in> V"
  shows "\<exists>u'. Unwrap u (word_of_int x) = (x, u') \<and> in_window V u'"
  using Unwrap_recover[of u x] assms by (auto simp: in_window_def unwrapper_ok_def)

definition same_content :: "int set \<Rightarrow> nat \<Rightarrow> ReassemblyQueue \<Rightarrow> ReassemblyQueue \<Rightarrow> bool" where
  "same_content V e q r = (rq_streams q = rq_streams r
     \<and> rq_reassembled_messages q = rq_reassembled_messages r
     \<and> rq_queued_bytes q = rq_queued_bytes r + of_nat e
     \<and> rq_deferred_reset_streams q = None \<and> rq_deferred_reset_streams r = None
     \<and> in_window V (rq_tsn_unwrapper q) \<and> in_window V (rq_tsn_unwrapper r))"

lemma same_content_step:
  assumes "same_content V (Data_size d + e) q r" "x \<in> V"
  shows "same_content V e (run_action (DeferredAdd (word_of_int x) d) q) (Queue_Add (word_of_int x) d r)"
proof -
  obtain u where u: "Unwrap (rq_tsn_unwrapper q) (word_of_int x) = (x, u)" "in_window V u"
    using in_window_Unwrap assms by (metis same_content_def)
  obtain v where v: "Unwrap (rq_tsn_unwrapper r) (word_of_int x) = (x, v)" "in_window V v"
    using in_window_Unwrap assms by (metis same_content_def)
  obtain k ms s where add: "streams_Add x d (rq_streams r) = (k, ms, s)" by (metis prod_cases3)
  show ?thesis
    using assms(1) u v add
    by (simp add: same_content_def Queue_Add_def Let_def AddReassembledMessages_def)
qed

lemma same_content_run:
  "same_content V ((\<Sum>c\<leftarrow>cs. Data_size (snd c)) + e) q r \<Longrightarrow> fst ` set cs \<subseteq> V \<Longrightarrow>
     same_content V e (fold run_action (map (\<lambda>(x, d). DeferredAdd (word_of_int x) d) cs) q)
       (fold (\<lambda>(x, d). Queue_Add (word_of_int x) d) cs r)"
proof (induction cs arbitrary: q r)
  case (Cons c cs)
  obtain x d where c: "c = (x, d)" by fastforce
  have "same_content V (Data_size d + ((\<Sum>c\<leftarrow>cs. Data_size (snd c)) + e)) q r"
    using Cons.prems(1) by (simp add: c add.assoc)
  then show ?case
    using Cons same_content_step[of V d _ q r x] by (simp add: c)
qed simp

lemma deferred_adds:
  assumes "rq_deferred_reset_streams q = Some drs" "in_window V (rq_tsn_unwrapper q)" "fst ` set cs \<subseteq> V"
    and "\<forall>(x, d) \<in> set cs. drs_sender_last_assigned_tsn drs < x \<and> d_stream_id d \<in> set (drs_streams drs)"
  shows "\<exists>u. in_window V u \<and> fold (\<lambda>(x, d). Queue_Add (word_of_int x) d) cs q =
    q\<lparr>rq_tsn_unwrapper := u, rq_queued_bytes := rq_queued_bytes q + of_nat (\<Sum>c\<leftarrow>cs. Data_size (snd c)),
      rq_deferred_reset_streams := Some (drs\<lparr>drs_deferred_actions :=
        drs_deferred_actions drs @ map (\<lambda>(x, d). DeferredAdd (word_of_int x) d) cs\<rparr>)\<rparr>"
  using assms
proof (induction cs arbitrary: q drs)
  case Nil
  then show ?case by (intro exI[of _ "rq_tsn_unwrapper q"]) simp
next
  case (Cons c cs)
  obtain x d where c: "c = (x, d)" by fastforce
  obtain u where u: "Unwrap (rq_tsn_unwrapper q) (word_of_int x) = (x, u)" "in_window V u"
    using in_window_Unwrap[OF Cons.prems(2), of x] Cons.prems(3) c by auto
  define drs1 where "drs1 = drs\<lparr>drs_deferred_actions := drs_deferred_actions drs @ [DeferredAdd (word_of_int x) d]\<rparr>"
  define q1 where "q1 = q\<lparr>rq_tsn_unwrapper := u, rq_queued_bytes := rq_queued_bytes q + of_nat (Data_size d),
    rq_deferred_reset_streams := Some drs1\<rparr>"
  have "Queue_Add (word_of_int x) d q = q1"
    using Cons.prems(1,4) u(1) by (simp add: Queue_Add_def Let_def c q1_def drs1_def)
  moreover have "\<exists>u. in_window V u \<and> fold (\<lambda>(x, d). Queue_Add (word_of_int x) d) cs q1 =
    q1\<lparr>rq_tsn_unwrapper := u, rq_queued_bytes := rq_queued_bytes q1 + of_nat (\<Sum>c\<leftarrow>cs. Data_size (snd c)),
      rq_deferred_reset_streams := Some (drs1\<lparr>drs_deferred_actions :=
        drs_deferred_actions drs1 @ map (\<lambda>(x, d). DeferredAdd (word_of_int x) d) cs\<rparr>)\<rparr>"
    using Cons.prems u(2) c by (intro Cons.IH) (auto simp: q1_def drs1_def)
  ultimately show ?case
    by (auto simp: c q1_def drs1_def add.assoc)
qed

text \<open>What evaluating one \<open>Add\<close> on a traditional queue unfolds.\<close>

lemmas evaluate_queue = Queue_Add_def new_reassembly_queue_def CreateStreams_def new_traditional_streams_def
  Unwrap_def new_unwrapper_def Traditional_Add_def find_or_def new_ordered_stream_def Ordered_Add_def
  Ordered_TryToAssembleMessagesFastpath_def emplace_by_def Ordered_TryToAssembleMessages.simps
  Ordered_TryToAssembleMessage_def Let_def Delta_def ForwardDiff_def AheadOrAt_def maxDist_def
  AddReassembledMessages_def AssembleMessage_single_def traditional_held_def ordered_held_def
  Data_size_def deferred_bytes_def

section \<open>Properties\<close>

text \<open>
  C8.  The byte counter of the queue is exact and bytes are conserved.  After any sequence of
  operations on a new queue, with either reassembler, the counter is the number of bytes buffered
  in the reassembler and in the postponed actions; and the bytes handed out, waiting to be handed
  out and buffered together never exceed the bytes put in.  So the counter never wraps below zero.
\<close>

theorem queue_bytes_exact:
  assumes "queue_run ops (new_reassembly_queue max_size interleaving) = (out, q)"
  shows "rq_queued_bytes q = of_nat (streams_held (rq_streams q) + deferred_bytes q)
    \<and> message_bytes out + message_bytes (rq_reassembled_messages q)
        + streams_held (rq_streams q) + deferred_bytes q \<le> (\<Sum>op\<leftarrow>ops. op_bytes op)"
proof -
  have "queue_ok 0 0 (new_reassembly_queue max_size interleaving)"
    by (simp add: queue_ok_def new_reassembly_queue_def buffered_bytes_def deferred_bytes_def
        CreateStreams_def new_traditional_streams_def traditional_ok_def traditional_held_def)
  from queue_run_ok[OF this assms] show ?thesis
    by (auto simp: queue_ok_def buffered_bytes_def)
qed

theorem queue_bytes_exact_witness:
  "rq_queued_bytes (snd (queue_run
     [OpAdd 7 \<lparr>d_stream_id = 1, d_ssn = 0, d_mid = 0, d_fsn = 0, d_ppid = 53, d_payload = [1, 2, 3],
        d_is_beginning = True, d_is_end = False, d_is_unordered = False\<rparr>]
     (new_reassembly_queue 1000 False))) = 3"
proof -
  let ?ops = "[OpAdd 7 \<lparr>d_stream_id = 1, d_ssn = 0, d_mid = 0, d_fsn = 0, d_ppid = 53, d_payload = [1, 2, 3],
        d_is_beginning = True, d_is_end = False, d_is_unordered = False\<rparr>]"
  let ?q = "snd (queue_run ?ops (new_reassembly_queue 1000 False))"
  have "streams_held (rq_streams ?q) = 3 \<and> deferred_bytes ?q = 0"
    by (simp add: evaluate_queue)
  then show ?thesis
    using queue_bytes_exact[OF surjective_pairing[of "queue_run ?ops (new_reassembly_queue 1000 False)"]] by simp
qed

text \<open>
  C15.  Postponing chunks while a stream reset is pending has the effect of receiving them after the
  reset.  Let a queue enter deferred reset processing and then receive chunks of the streams to be
  reset, all numbered after the last number the sender assigned before the reset.  Nothing is
  delivered until the reset; after it, the reassembler, the delivered messages and the byte counter
  are those of a queue that was reset first and received the chunks, in the same order, afterwards.
\<close>

theorem deferred_reset_replays:
  assumes "rq_deferred_reset_streams q = None"
    and window: "in_window V (rq_tsn_unwrapper q)" "a \<in> V" "fst ` set cs \<subseteq> V"
    and after: "\<forall>(x, d) \<in> set cs. a < x \<and> d_stream_id d \<in> set ids"
    and q1: "q1 = fold (\<lambda>(x, d). Queue_Add (word_of_int x) d) cs (EnterDeferredReset (word_of_int a) ids q)"
    and r: "r = fold (\<lambda>(x, d). Queue_Add (word_of_int x) d) cs (ResetStreamsAndLeaveDeferredReset ids q)"
    and q2: "q2 = ResetStreamsAndLeaveDeferredReset ids q1"
  shows "rq_streams q1 = rq_streams q \<and> rq_reassembled_messages q1 = rq_reassembled_messages q
    \<and> rq_streams q2 = rq_streams r \<and> rq_reassembled_messages q2 = rq_reassembled_messages r
    \<and> rq_queued_bytes q2 = rq_queued_bytes r \<and> rq_deferred_reset_streams q2 = None"
proof -
  obtain u where u: "Unwrap (rq_tsn_unwrapper q) (word_of_int a) = (a, u)" "in_window V u"
    using in_window_Unwrap[OF window(1,2)] by blast
  define drs where "drs = \<lparr>drs_sender_last_assigned_tsn = a, drs_streams = sset_of ids, drs_deferred_actions = []\<rparr>"
  let ?e = "EnterDeferredReset (word_of_int a) ids q"
  have e: "?e = q\<lparr>rq_tsn_unwrapper := u, rq_deferred_reset_streams := Some drs\<rparr>"
    using assms(1) u(1) by (simp add: EnterDeferredReset_def drs_def)
  obtain v where v: "in_window V v" "q1 = ?e\<lparr>rq_tsn_unwrapper := v,
      rq_queued_bytes := rq_queued_bytes ?e + of_nat (\<Sum>c\<leftarrow>cs. Data_size (snd c)),
      rq_deferred_reset_streams := Some (drs\<lparr>drs_deferred_actions :=
        drs_deferred_actions drs @ map (\<lambda>(x, d). DeferredAdd (word_of_int x) d) cs\<rparr>)\<rparr>"
    using deferred_adds[of ?e drs V cs] u(2) window(3) after unfolding q1 by (auto simp: e drs_def)
  let ?s = "streams_ResetStreams ids (rq_streams q)"
  have q2': "q2 = fold run_action (map (\<lambda>(x, d). DeferredAdd (word_of_int x) d) cs)
      (q1\<lparr>rq_streams := ?s, rq_deferred_reset_streams := None\<rparr>)"
    by (simp add: q2 ResetStreamsAndLeaveDeferredReset_def v(2) e drs_def)
  have "same_content V ((\<Sum>c\<leftarrow>cs. Data_size (snd c)) + 0) (q1\<lparr>rq_streams := ?s, rq_deferred_reset_streams := None\<rparr>)
      (ResetStreamsAndLeaveDeferredReset ids q)"
    using assms(1) window(1) v(1)
    by (simp add: same_content_def v(2) e ResetStreamsAndLeaveDeferredReset_def)
  from same_content_run[OF this window(3)] show ?thesis
    unfolding q2'[symmetric] r[symmetric] by (simp add: same_content_def v(2) e)
qed

theorem deferred_reset_replays_witness:
  "\<exists>q1. rq_reassembled_messages q1 = []
    \<and> q1 = Queue_Add 11 \<lparr>d_stream_id = 1, d_ssn = 0, d_mid = 0, d_fsn = 0, d_ppid = 53, d_payload = [9],
        d_is_beginning = True, d_is_end = True, d_is_unordered = False\<rparr>
      (EnterDeferredReset 10 [1] ((new_reassembly_queue 1000 False)
        \<lparr>rq_tsn_unwrapper := \<lparr>last_unwrapped = 9, last_value = Some 9\<rparr>\<rparr>))
    \<and> rq_deferred_reset_streams (ResetStreamsAndLeaveDeferredReset [1] q1) = None"
proof -
  let ?d = "\<lparr>d_stream_id = 1, d_ssn = 0, d_mid = 0, d_fsn = 0, d_ppid = 53, d_payload = [9],
        d_is_beginning = True, d_is_end = True, d_is_unordered = False\<rparr>"
  let ?q = "(new_reassembly_queue 1000 False)\<lparr>rq_tsn_unwrapper := \<lparr>last_unwrapped = 9, last_value = Some 9\<rparr>\<rparr>"
  have "rq_deferred_reset_streams ?q = None" "in_window {9, 10, 11} (rq_tsn_unwrapper ?q)"
    by (simp_all add: new_reassembly_queue_def in_window_def unwrapper_ok_def)
  moreover have "(10 :: int) \<in> {9, 10, 11}" "fst ` set [(11, ?d)] \<subseteq> ({9, 10, 11} :: int set)"
      "\<forall>(x, d) \<in> set [(11 :: int, ?d)]. 10 < x \<and> d_stream_id d \<in> set [1]"
    by simp_all
  ultimately show ?thesis
    using deferred_reset_replays[of ?q "{9, 10, 11}" 10 "[(11, ?d)]" "[1]", OF _ _ _ _ _ refl refl refl]
    by (simp add: new_reassembly_queue_def)
qed

text \<open>
  C27.  Above the watermark the reported remaining size wraps around.  \<open>remaining_bytes\<close> subtracts the
  buffered bytes from the watermark without a check: when more is buffered than the watermark
  allows, which the queue permits up to its maximum size, the result is close to \<open>2^64\<close>, and the
  32 bits that a SACK carries of it announce almost 4 GiB of free space instead of none.
\<close>

theorem remaining_bytes_wraps:
  assumes "rq_watermark_bytes q < rq_queued_bytes q"
    and "unat (rq_queued_bytes q) - unat (rq_watermark_bytes q) \<le> 2 ^ 31"
  shows "is_above_watermark q
    \<and> unat (remaining_bytes q) = 2 ^ 64 - (unat (rq_queued_bytes q) - unat (rq_watermark_bytes q))
    \<and> unat (ucast (remaining_bytes q) :: u32) = 2 ^ 32 - (unat (rq_queued_bytes q) - unat (rq_watermark_bytes q))
    \<and> 2 ^ 31 \<le> unat (ucast (remaining_bytes q) :: u32)"
proof -
  let ?w = "unat (rq_watermark_bytes q)" and ?n = "unat (rq_queued_bytes q)"
  have less: "?w < ?n" and bound: "?n < 2 ^ 64"
    using assms(1) unsigned_less[of "rq_queued_bytes q"] by (simp_all add: word_less_nat_alt)
  have "remaining_bytes q = word_of_nat (2 ^ 64 - (?n - ?w))"
    using less bound by (simp add: remaining_bytes_def of_nat_diff)
  then have big: "unat (remaining_bytes q) = 2 ^ 64 - (?n - ?w)"
    using less by (simp add: unsigned_of_nat take_bit_nat_eq_self)
  have "unat (ucast (remaining_bytes q) :: u32) = unat (remaining_bytes q) mod 2 ^ 32"
    by (simp add: unsigned_ucast_eq take_bit_eq_mod)
  also have "\<dots> = (2 ^ 32 - (?n - ?w) + (2 ^ 32 - 1) * 2 ^ 32) mod 2 ^ 32"
    using big assms(2) by simp
  also have "\<dots> = 2 ^ 32 - (?n - ?w)"
    using less by (simp only: mod_mult_self1) simp
  finally have small: "unat (ucast (remaining_bytes q) :: u32) = 2 ^ 32 - (?n - ?w)" .
  moreover have "2 ^ 31 \<le> 2 ^ 32 - (?n - ?w)" using assms(2) by simp
  ultimately show ?thesis
    using big assms(1) by (simp only: is_above_watermark_def order_less_imp_le simp_thms)
qed

theorem remaining_bytes_wraps_witness:
  "unat (ucast (remaining_bytes ((new_reassembly_queue 1000 False)\<lparr>rq_queued_bytes := 950\<rparr>)) :: u32) = 2 ^ 32 - 50"
proof -
  have "rq_watermark_bytes (new_reassembly_queue 1000 False) = 900"
    by (simp add: new_reassembly_queue_def watermark_of_def float_round_def excess_bits.simps Let_def)
  then show ?thesis
    using remaining_bytes_wraps[of "(new_reassembly_queue 1000 False)\<lparr>rq_queued_bytes := 950\<rparr>"] by simp
qed

text \<open>
  C26.  The watermark of every queue of a non-zero size lies strictly below the maximum size, and at
  least at 89 percent of it up to one byte, although the source computes it in single precision:
  the two roundings of the product of the size and \<open>0.9f\<close> never carry it past the size, even for
  sizes close to \<open>2^64\<close>, so that a full queue is always above its watermark.
\<close>

theorem watermark_bounds:
  assumes "0 < m"
  shows "unat (rq_watermark_bytes (new_reassembly_queue m il)) < unat m
    \<and> 89 * unat m \<le> 100 * unat (rq_watermark_bytes (new_reassembly_queue m il)) + 100
    \<and> (Queue_is_full ((new_reassembly_queue m il)\<lparr>rq_queued_bytes := n\<rparr>)
        \<longrightarrow> is_above_watermark ((new_reassembly_queue m il)\<lparr>rq_queued_bytes := n\<rparr>))"
  using watermark_between[OF assms]
  by (simp add: new_reassembly_queue_def Queue_is_full_def is_above_watermark_def word_le_nat_alt)

theorem watermark_bounds_witness:
  "unat (rq_watermark_bytes (new_reassembly_queue 5242880 True)) < 5242880
    \<and> 4666162 \<le> unat (rq_watermark_bytes (new_reassembly_queue 5242880 True))"
  using watermark_bounds[of 5242880 True 0] by simp

text \<open>
  C28.  A pending reset of all streams postpones nothing.  A peer asks for a reset of all its streams
  with an empty list, and \<open>ResetStreams\<close> of an empty list does reset every stream; but while that
  reset is pending, \<open>Add\<close> looks the stream up in the empty list, so every chunk numbered after the
  last one before the reset is put into the reassembler at once, as if no reset were pending.
\<close>

theorem deferred_reset_of_all_streams:
  assumes "rq_deferred_reset_streams q = None"
    and "in_window V (rq_tsn_unwrapper q)" "a \<in> V" "x \<in> V"
  shows "Queue_Add (word_of_int x) d (EnterDeferredReset (word_of_int a) [] q) =
    (Queue_Add (word_of_int x) d q)\<lparr>rq_deferred_reset_streams := Some
      \<lparr>drs_sender_last_assigned_tsn = a, drs_streams = [], drs_deferred_actions = []\<rparr>\<rparr>"
proof -
  obtain u where u: "Unwrap (rq_tsn_unwrapper q) (word_of_int a) = (a, u)" "in_window V u"
    using in_window_Unwrap assms(2,3) by blast
  obtain v where v: "Unwrap u (word_of_int x) = (x, v)"
    using in_window_Unwrap[OF u(2) assms(4)] by blast
  obtain w where w: "Unwrap (rq_tsn_unwrapper q) (word_of_int x) = (x, w)"
    using in_window_Unwrap[OF assms(2,4)] by blast
  have "v = w" using v w by (cases u; cases "rq_tsn_unwrapper q") (auto simp: Unwrap_def Let_def)
  obtain k ms s where add: "streams_Add x d (rq_streams q) = (k, ms, s)" by (metis prod_cases3)
  show ?thesis
    using assms(1) u(1) v w add \<open>v = w\<close>
    by (simp add: EnterDeferredReset_def Queue_Add_def Let_def AddReassembledMessages_def sset_of_def)
qed

theorem deferred_reset_of_all_streams_witness:
  "\<exists>q. rq_reassembled_messages q = [\<lparr>msg_stream_id = 1, msg_ppid = 53, msg_payload = [9]\<rparr>]
    \<and> q = Queue_Add 11 \<lparr>d_stream_id = 1, d_ssn = 0, d_mid = 0, d_fsn = 0, d_ppid = 53, d_payload = [9],
        d_is_beginning = True, d_is_end = True, d_is_unordered = False\<rparr>
      (EnterDeferredReset 10 [] ((new_reassembly_queue 1000 False)
        \<lparr>rq_tsn_unwrapper := \<lparr>last_unwrapped = 9, last_value = Some 9\<rparr>\<rparr>))"
proof -
  let ?d = "\<lparr>d_stream_id = 1, d_ssn = 0, d_mid = 0, d_fsn = 0, d_ppid = 53, d_payload = [9],
        d_is_beginning = True, d_is_end = True, d_is_unordered = False\<rparr>"
  let ?q = "(new_reassembly_queue 1000 False)\<lparr>rq_tsn_unwrapper := \<lparr>last_unwrapped = 9, last_value = Some 9\<rparr>\<rparr>"
  have "rq_deferred_reset_streams ?q = None" "in_window {9, 10, 11} (rq_tsn_unwrapper ?q)"
    by (simp_all add: new_reassembly_queue_def in_window_def unwrapper_ok_def)
  then have "Queue_Add 11 ?d (EnterDeferredReset 10 [] ?q) = (Queue_Add 11 ?d ?q)\<lparr>rq_deferred_reset_streams :=
      Some \<lparr>drs_sender_last_assigned_tsn = 10, drs_streams = [], drs_deferred_actions = []\<rparr>\<rparr>"
    using deferred_reset_of_all_streams[of ?q "{9, 10, 11}" 10 11 ?d] by simp
  then show ?thesis
    by (simp add: evaluate_queue)
qed

end
