(* ===== verification/Time_Units.thy ===== *)
theory Time_Units
  imports Options
begin

text \<open>
  Durations and points in time, \<open>api/units/time_delta.h\<close>, \<open>api/units/timestamp.h\<close> and their base
  \<open>rtc_base/units/unit_base.h\<close>: a 64-bit number of microseconds whose extreme values stand for plus
  and minus infinity; comparison is that of the numbers.  The debug checks that a finite value stays
  between the extremes are left out.
\<close>

type_synonym TimeDelta = int
type_synonym Timestamp = int

definition PlusInfinity :: int where
  "PlusInfinity = 2 ^ 63 - 1"

definition MinusInfinity :: int where
  "MinusInfinity = - (2 ^ 63)"

definition Millis :: "int \<Rightarrow> int" where
  "Millis value = value * 1000"

text \<open>Division in C++ truncates towards zero.\<close>

definition DivideRoundToNearest :: "int \<Rightarrow> int \<Rightarrow> int" where
  "DivideRoundToNearest dividend divisor =
     (if dividend < 0 then
        (let quotient = - ((- dividend) div divisor); remainder = - ((- dividend) mod divisor) in
         if - remainder > divisor div 2 then quotient - 1 else quotient)
      else
        (let quotient = dividend div divisor; remainder = dividend mod divisor in
         if remainder > (divisor - 1) div 2 then quotient + 1 else quotient))"

definition to_ms :: "TimeDelta \<Rightarrow> int" where
  "to_ms d = DivideRoundToNearest d 1000"

definition time_plus :: "int \<Rightarrow> int \<Rightarrow> int" where
  "time_plus a b =
     (if a = PlusInfinity \<or> b = PlusInfinity then PlusInfinity
      else if a = MinusInfinity \<or> b = MinusInfinity then MinusInfinity
      else a + b)"

definition time_minus :: "int \<Rightarrow> int \<Rightarrow> int" where
  "time_minus a b =
     (if a = PlusInfinity \<or> b = MinusInfinity then PlusInfinity
      else if a = MinusInfinity \<or> b = PlusInfinity then MinusInfinity
      else a - b)"

definition InfiniteDuration :: int where
  "InfiniteDuration = 2 ^ 31 - 1"

definition ToTimeDelta :: "int \<Rightarrow> TimeDelta" where
  "ToTimeDelta d = (if d = InfiniteDuration then PlusInfinity else Millis d)"

lemma to_ms_Millis [simp]: "to_ms (Millis v) = v"
  by (cases "v < 0") (auto simp: to_ms_def Millis_def DivideRoundToNearest_def Let_def simp flip: mult_minus_left)

lemma to_ms_eq:
  assumes "0 \<le> d"
  shows "to_ms d = (d + 500) div 1000"
proof -
  define q r where "q = d div 1000" and "r = d mod 1000"
  have d: "d + 500 = (r + 500) + q * 1000" by (simp add: q_def r_def)
  have "(d + 500) div 1000 = (r + 500) div 1000 + q" unfolding d by (subst div_mult_self1) simp_all
  moreover have "(r + 500) div 1000 = (if r > 499 then 1 else 0)"
    by (cases "r > 499") (simp_all add: r_def div_pos_pos_trivial div_pos_geq)
  ultimately show ?thesis
    using assms by (simp add: to_ms_def DivideRoundToNearest_def Let_def q_def r_def)
qed

lemma to_ms_nonneg: "0 \<le> d \<Longrightarrow> 0 \<le> to_ms d"
  by (simp add: to_ms_eq pos_imp_zdiv_nonneg_iff)

lemma to_ms_le_Millis: "0 \<le> d \<Longrightarrow> d \<le> Millis v \<Longrightarrow> to_ms d \<le> v"
  using zdiv_mono1[of "d + 500" "Millis v + 500" 1000] by (simp add: to_ms_eq Millis_def)

end
