(* ===== verification/Retransmission_Timeout.thy ===== *)
theory Retransmission_Timeout
  imports Time_Units
begin

text \<open>
  The retransmission timeout, \<open>tx/retransmission_timeout.cc\<close>: Jacobson's estimator in scaled integer
  arithmetic.  The smoothed round-trip time is kept times eight, its variation times four; a shift
  to the right is the division that rounds down.
\<close>

definition kRttShift :: nat where
  "kRttShift = 3"

definition kRttVarShift :: nat where
  "kRttVarShift = 2"

record RetransmissionTimeout =
  rt_min_rto :: TimeDelta
  rt_max_rto :: TimeDelta
  rt_max_rtt :: TimeDelta
  rt_min_rtt_variance :: int
  rt_first_measurement :: bool
  rt_scaled_srtt :: int
  rt_scaled_rtt_var :: int
  rt_rto :: int

definition new_retransmission_timeout :: "DcSctpOptions \<Rightarrow> RetransmissionTimeout" where
  "new_retransmission_timeout options =
     \<lparr>rt_min_rto = ToTimeDelta (opt_rto_min options), rt_max_rto = ToTimeDelta (opt_rto_max options),
      rt_max_rtt = ToTimeDelta (opt_rtt_max options), rt_min_rtt_variance = opt_min_rtt_variance options,
      rt_first_measurement = True, rt_scaled_srtt = opt_rto_initial options * 2 ^ kRttShift,
      rt_scaled_rtt_var = 0, rt_rto = opt_rto_initial options\<rparr>"

definition estimate :: "int \<Rightarrow> RetransmissionTimeout \<Rightarrow> RetransmissionTimeout" where
  "estimate rtt t =
     (if rt_first_measurement t then
        t\<lparr>rt_scaled_srtt := rtt * 2 ^ kRttShift, rt_scaled_rtt_var := (rtt div 2) * 2 ^ kRttVarShift,
          rt_first_measurement := False\<rparr>
      else
        let rtt_diff = rtt - rt_scaled_srtt t div 2 ^ kRttShift;
            srtt = rt_scaled_srtt t + rtt_diff;
            rtt_diff = (if rtt_diff < 0 then - rtt_diff else rtt_diff);
            rtt_diff = rtt_diff - rt_scaled_rtt_var t div 2 ^ kRttVarShift
        in t\<lparr>rt_scaled_srtt := srtt, rt_scaled_rtt_var := rt_scaled_rtt_var t + rtt_diff\<rparr>)"

definition ObserveRTT :: "TimeDelta \<Rightarrow> RetransmissionTimeout \<Rightarrow> RetransmissionTimeout" where
  "ObserveRTT measured_rtt t =
     (if measured_rtt < 0 \<or> measured_rtt > rt_max_rtt t then t
      else
        let t1 = estimate (to_ms measured_rtt) t;
            t2 = (if rt_scaled_rtt_var t1 < rt_min_rtt_variance t1
                  then t1\<lparr>rt_scaled_rtt_var := rt_min_rtt_variance t1\<rparr> else t1);
            rto = rt_scaled_srtt t2 div 2 ^ kRttShift + rt_scaled_rtt_var t2
        in t2\<lparr>rt_rto := min (max rto (to_ms (rt_min_rto t2))) (to_ms (rt_max_rto t2))\<rparr>)"

definition rto :: "RetransmissionTimeout \<Rightarrow> TimeDelta" where
  "rto t = Millis (rt_rto t)"

definition srtt :: "RetransmissionTimeout \<Rightarrow> TimeDelta" where
  "srtt t = Millis (rt_scaled_srtt t div 2 ^ kRttShift)"

section \<open>Invariant\<close>

text \<open>Options whose durations are finite and ordered.\<close>

definition rto_options_ok :: "DcSctpOptions \<Rightarrow> bool" where
  "rto_options_ok op =
     (0 \<le> opt_rto_min op \<and> opt_rto_min op \<le> opt_rto_max op \<and> opt_rto_max op < InfiniteDuration
      \<and> 0 \<le> opt_rtt_max op \<and> opt_rtt_max op < InfiniteDuration
      \<and> 0 \<le> opt_rto_initial op \<and> opt_rto_initial op < InfiniteDuration
      \<and> 0 \<le> opt_min_rtt_variance op \<and> opt_min_rtt_variance op \<le> InfiniteDuration)"

definition rtt_bound :: "DcSctpOptions \<Rightarrow> int" where
  "rtt_bound op = max (opt_rto_initial op) (opt_rtt_max op)"

definition var_bound :: "DcSctpOptions \<Rightarrow> int" where
  "var_bound op = max (4 * rtt_bound op) (opt_min_rtt_variance op)"

definition rto_ok :: "DcSctpOptions \<Rightarrow> RetransmissionTimeout \<Rightarrow> bool" where
  "rto_ok op t =
     (rt_min_rto t = Millis (opt_rto_min op) \<and> rt_max_rto t = Millis (opt_rto_max op)
      \<and> rt_max_rtt t = Millis (opt_rtt_max op) \<and> rt_min_rtt_variance t = opt_min_rtt_variance op
      \<and> 0 \<le> rt_scaled_srtt t \<and> rt_scaled_srtt t \<le> 8 * rtt_bound op
      \<and> 0 \<le> rt_scaled_rtt_var t \<and> rt_scaled_rtt_var t \<le> var_bound op
      \<and> (rt_rto t = opt_rto_initial op \<or> opt_rto_min op \<le> rt_rto t \<and> rt_rto t \<le> opt_rto_max op))"

lemma new_rto_ok: "rto_options_ok op \<Longrightarrow> rto_ok op (new_retransmission_timeout op)"
  by (auto simp: rto_ok_def rto_options_ok_def new_retransmission_timeout_def ToTimeDelta_def kRttShift_def
      rtt_bound_def var_bound_def)

text \<open>One step of an average with gain \<open>1 / k\<close>, scaled by \<open>k\<close>.\<close>

lemma average_bounds:
  fixes s r m k :: int
  assumes "0 \<le> s" "s \<le> k * m" "0 \<le> r" "r \<le> m" "0 < k"
  shows "0 \<le> s + (r - s div k) \<and> s + (r - s div k) \<le> k * m"
proof -
  define q e where "q = s div k" and "e = s mod k"
  have s: "s = k * q + e" and e: "0 \<le> e" "e < k" using assms by (simp_all add: q_def e_def)
  have q: "0 \<le> q" using assms by (simp add: q_def pos_imp_zdiv_nonneg_iff)
  have kq: "q \<le> k * q" using q assms(5) by (simp add: mult_le_cancel_right1)
  have "s - q \<le> k * m - m"
  proof (cases "q = m")
    case True
    then show ?thesis using s assms(2) by simp
  next
    case False
    have "k * q \<le> k * m" using s e(1) assms(2) by linarith
    then have "q \<le> m - 1" using False assms(5) by simp
    then have "(k - 1) * q \<le> (k - 1) * (m - 1)" using assms(5) by (intro mult_left_mono) simp_all
    then show ?thesis using s e by (simp add: algebra_simps)
  qed
  then show ?thesis using s e kq assms(3,4) unfolding q_def[symmetric] by linarith
qed

lemma estimate_bounds:
  assumes "rto_ok op t" "0 \<le> r" "r \<le> opt_rtt_max op" "rto_options_ok op"
  shows "0 \<le> rt_scaled_srtt (estimate r t) \<and> rt_scaled_srtt (estimate r t) \<le> 8 * rtt_bound op
    \<and> 0 \<le> rt_scaled_rtt_var (estimate r t) \<and> rt_scaled_rtt_var (estimate r t) \<le> var_bound op"
proof (cases "rt_first_measurement t")
  case True
  then show ?thesis
    using assms by (auto simp: estimate_def kRttShift_def kRttVarShift_def rtt_bound_def var_bound_def le_max_iff_disj)
next
  case False
  let ?s = "rt_scaled_srtt t" and ?v = "rt_scaled_rtt_var t"
  have r: "r \<le> rtt_bound op" using assms(3) by (simp add: rtt_bound_def)
  have s: "0 \<le> ?s" "?s \<le> 8 * rtt_bound op" "0 \<le> ?v" "?v \<le> var_bound op"
    using assms(1) by (simp_all add: rto_ok_def)
  have "0 \<le> ?s div 8" "?s div 8 \<le> rtt_bound op" using s(1,2) by simp_all
  then have d: "\<bar>r - ?s div 8\<bar> \<le> rtt_bound op" using assms(2) r by linarith
  have vb: "?v \<le> 4 * (var_bound op div 4) + 3" "rtt_bound op \<le> var_bound op div 4"
    using s(4) by (simp_all add: var_bound_def)
  have "0 \<le> ?v + (\<bar>r - ?s div 8\<bar> - ?v div 4) \<and> ?v + (\<bar>r - ?s div 8\<bar> - ?v div 4) \<le> var_bound op"
    using s(3,4) d vb(2) by linarith
  then show ?thesis
    using average_bounds[OF s(1,2) assms(2) r] False
    by (auto simp: estimate_def kRttShift_def kRttVarShift_def Let_def abs_if split: if_splits)
qed

lemma ObserveRTT_ok:
  assumes "rto_options_ok op" "rto_ok op t"
  shows "rto_ok op (ObserveRTT d t)"
proof (cases "d < 0 \<or> d > rt_max_rtt t")
  case False
  have r: "0 \<le> to_ms d" "to_ms d \<le> opt_rtt_max op"
    using False assms(2) to_ms_nonneg to_ms_le_Millis by (simp_all add: rto_ok_def)
  have "rt_min_rto (estimate r t) = rt_min_rto t" "rt_max_rto (estimate r t) = rt_max_rto t"
      "rt_max_rtt (estimate r t) = rt_max_rtt t" "rt_min_rtt_variance (estimate r t) = rt_min_rtt_variance t" for r
    by (simp_all add: estimate_def Let_def)
  then show ?thesis
    using estimate_bounds[OF assms(2) r assms(1)] assms False
    by (auto simp: ObserveRTT_def rto_ok_def rto_options_ok_def Let_def var_bound_def)
qed (auto simp: ObserveRTT_def assms)

lemma fold_ObserveRTT_ok:
  "rto_options_ok op \<Longrightarrow> rto_ok op t \<Longrightarrow> rto_ok op (fold ObserveRTT ds t)"
  by (induction ds arbitrary: t) (simp_all add: ObserveRTT_ok)

section \<open>A steady round-trip time\<close>

text \<open>How far a scaled average is from the values that stand for \<open>r\<close>.\<close>

definition distance :: "int \<Rightarrow> int \<Rightarrow> int" where
  "distance r s = (if s < 8 * r then 8 * r - s else if s > 8 * r + 7 then s - (8 * r + 7) else 0)"

lemma distance_zero: "distance r s \<le> 0 \<Longrightarrow> s div 8 = r"
  by (auto simp: distance_def split: if_splits)

lemma distance_step: "distance r (s + (r - s div 8)) \<le> max 0 (distance r s - 1)"
proof (cases "s < 8 * r")
  case True
  then have "s div 8 \<le> r - 1" "s \<le> 8 * (s div 8) + 7" by linarith+
  then show ?thesis using True by (simp add: distance_def)
next
  case False
  show ?thesis
  proof (cases "s > 8 * r + 7")
    case True
    then have "r + 1 \<le> s div 8" "8 * (s div 8) \<le> s" by linarith+
    then show ?thesis using True by (simp add: distance_def)
  next
    assume "\<not> s > 8 * r + 7"
    with False have "s div 8 = r" by linarith
    then show ?thesis using False \<open>\<not> s > 8 * r + 7\<close> by (simp add: distance_def)
  qed
qed

lemma decay_step: "0 \<le> v \<Longrightarrow> v - v div 4 \<le> max 3 (v - 1)" for v :: int
  by linarith

lemma estimate_next:
  "\<not> rt_first_measurement t \<Longrightarrow> estimate r t =
     t\<lparr>rt_scaled_srtt := rt_scaled_srtt t + (r - rt_scaled_srtt t div 8),
       rt_scaled_rtt_var := rt_scaled_rtt_var t + (\<bar>r - rt_scaled_srtt t div 8\<bar> - rt_scaled_rtt_var t div 4)\<rparr>"
  by (simp add: estimate_def Let_def kRttShift_def kRttVarShift_def abs_if)

lemma ObserveRTT_next:
  assumes "rto_ok op t" "\<not> rt_first_measurement t" "0 \<le> d" "d \<le> Millis (opt_rtt_max op)"
  shows "\<not> rt_first_measurement (ObserveRTT d t)"
    and "rt_scaled_srtt (ObserveRTT d t) = rt_scaled_srtt t + (to_ms d - rt_scaled_srtt t div 8)"
    and "rt_scaled_rtt_var (ObserveRTT d t) = max (opt_min_rtt_variance op)
      (rt_scaled_rtt_var t + (\<bar>to_ms d - rt_scaled_srtt t div 8\<bar> - rt_scaled_rtt_var t div 4))"
    and "rt_rto (ObserveRTT d t) =
      min (max (rt_scaled_srtt (ObserveRTT d t) div 8 + rt_scaled_rtt_var (ObserveRTT d t)) (opt_rto_min op)) (opt_rto_max op)"
proof -
  define e where "e = estimate (to_ms d) t"
  have e: "e = t\<lparr>rt_scaled_srtt := rt_scaled_srtt t + (to_ms d - rt_scaled_srtt t div 8),
       rt_scaled_rtt_var := rt_scaled_rtt_var t + (\<bar>to_ms d - rt_scaled_srtt t div 8\<bar> - rt_scaled_rtt_var t div 4)\<rparr>"
    unfolding e_def by (rule estimate_next[OF assms(2)])
  have rng: "\<not> (d < 0 \<or> d > rt_max_rtt t)" using assms by (simp add: rto_ok_def)
  have o: "ObserveRTT d t = (let e' = e\<lparr>rt_scaled_rtt_var := max (rt_min_rtt_variance e) (rt_scaled_rtt_var e)\<rparr> in
      e'\<lparr>rt_rto := min (max (rt_scaled_srtt e' div 8 + rt_scaled_rtt_var e') (to_ms (rt_min_rto e'))) (to_ms (rt_max_rto e'))\<rparr>)"
    unfolding ObserveRTT_def e_def[symmetric] if_not_P[OF rng] by (simp add: Let_def max_def kRttShift_def)
  show "\<not> rt_first_measurement (ObserveRTT d t)"
    using assms(2) by (simp add: o e Let_def)
  show "rt_scaled_srtt (ObserveRTT d t) = rt_scaled_srtt t + (to_ms d - rt_scaled_srtt t div 8)"
    by (simp add: o e Let_def)
  show "rt_scaled_rtt_var (ObserveRTT d t) = max (opt_min_rtt_variance op)
      (rt_scaled_rtt_var t + (\<bar>to_ms d - rt_scaled_srtt t div 8\<bar> - rt_scaled_rtt_var t div 4))"
    using assms(1) by (simp add: o e Let_def rto_ok_def)
  have "rt_min_rto e = Millis (opt_rto_min op)" "rt_max_rto e = Millis (opt_rto_max op)"
    using assms(1) by (simp_all add: e rto_ok_def)
  then show "rt_rto (ObserveRTT d t) =
      min (max (rt_scaled_srtt (ObserveRTT d t) div 8 + rt_scaled_rtt_var (ObserveRTT d t)) (opt_rto_min op)) (opt_rto_max op)"
    by (simp add: o Let_def)
qed

text \<open>The state after \<open>n\<close> equal measurements, once there has been a first one.\<close>

lemma steady_srtt:
  assumes "rto_options_ok op" "rto_ok op t" "\<not> rt_first_measurement t" "0 \<le> d" "d \<le> Millis (opt_rtt_max op)"
  shows "rto_ok op ((ObserveRTT d ^^ n) t) \<and> \<not> rt_first_measurement ((ObserveRTT d ^^ n) t)
    \<and> distance (to_ms d) (rt_scaled_srtt ((ObserveRTT d ^^ n) t)) \<le> max 0 (distance (to_ms d) (rt_scaled_srtt t) - int n)"
proof (induction n)
  case 0
  then show ?case using assms by simp
next
  case (Suc n)
  let ?t = "(ObserveRTT d ^^ n) t"
  have ok: "rto_ok op ?t" "\<not> rt_first_measurement ?t" using Suc by simp_all
  have "distance (to_ms d) (rt_scaled_srtt (ObserveRTT d ?t)) \<le> max 0 (distance (to_ms d) (rt_scaled_srtt ?t) - 1)"
    using distance_step[of "to_ms d" "rt_scaled_srtt ?t"] ObserveRTT_next(2)[OF ok assms(4,5)] by simp
  then show ?case
    using Suc ObserveRTT_ok[OF assms(1) ok(1)] ObserveRTT_next(1)[OF ok assms(4,5)] by auto
qed

lemma steady_var:
  assumes "rto_options_ok op" "rto_ok op t" "\<not> rt_first_measurement t" "0 \<le> d" "d \<le> Millis (opt_rtt_max op)"
    and "distance (to_ms d) (rt_scaled_srtt t) \<le> 0"
  shows "rt_scaled_rtt_var ((ObserveRTT d ^^ n) t) \<le> max (max 3 (opt_min_rtt_variance op)) (rt_scaled_rtt_var t - int n)"
proof (induction n)
  case (Suc n)
  let ?t = "(ObserveRTT d ^^ n) t"
  have ok: "rto_ok op ?t" "\<not> rt_first_measurement ?t" "rt_scaled_srtt ?t div 8 = to_ms d"
    using steady_srtt[OF assms(1-5), of n] assms(6) by (auto intro: distance_zero)
  then have "rt_scaled_rtt_var (ObserveRTT d ?t) =
      max (opt_min_rtt_variance op) (rt_scaled_rtt_var ?t - rt_scaled_rtt_var ?t div 4)"
    using ObserveRTT_next(3)[OF ok(1,2) assms(4,5)] by simp
  moreover have "rt_scaled_rtt_var ?t - rt_scaled_rtt_var ?t div 4 \<le> max 3 (rt_scaled_rtt_var ?t - 1)"
    using ok(1) by (intro decay_step) (simp add: rto_ok_def)
  ultimately show ?case using Suc by auto
qed simp

lemma steady_rto:
  assumes "rto_options_ok op" "rto_ok op t" "\<not> rt_first_measurement t" "0 \<le> d" "d \<le> Millis (opt_rtt_max op)"
    and "3 \<le> opt_min_rtt_variance op" "8 * rtt_bound op \<le> int a" "var_bound op \<le> int b"
  shows "rt_rto (ObserveRTT d ((ObserveRTT d ^^ (b + a)) t))
    = min (max (to_ms d + opt_min_rtt_variance op) (opt_rto_min op)) (opt_rto_max op)"
proof -
  let ?a = "(ObserveRTT d ^^ a) t" and ?u = "(ObserveRTT d ^^ (b + a)) t"
  have "0 \<le> to_ms d" "to_ms d \<le> rtt_bound op"
    using to_ms_nonneg[OF assms(4)] to_ms_le_Millis[OF assms(4,5)] by (simp_all add: rtt_bound_def)
  then have "distance (to_ms d) (rt_scaled_srtt t) \<le> int a"
    using assms(2,7) by (simp add: distance_def rto_ok_def)
  then have a: "rto_ok op ?a" "\<not> rt_first_measurement ?a" "distance (to_ms d) (rt_scaled_srtt ?a) \<le> 0"
    using steady_srtt[OF assms(1-5), of a] by simp_all
  have u: "?u = (ObserveRTT d ^^ b) ?a" by (simp add: funpow_add)
  have ok: "rto_ok op ?u" "\<not> rt_first_measurement ?u" "rt_scaled_srtt ?u div 8 = to_ms d"
    using steady_srtt[OF assms(1) a(1,2) assms(4,5), of b] a(3) unfolding u by (auto intro: distance_zero)
  have v: "rt_scaled_rtt_var ?u \<le> opt_min_rtt_variance op"
    using steady_var[OF assms(1) a(1,2) assms(4,5) a(3), of b] a(1) assms(6,8) unfolding u by (simp add: rto_ok_def)
  have "0 \<le> rt_scaled_rtt_var ?u" using ok(1) by (simp add: rto_ok_def)
  then have "rt_scaled_rtt_var (ObserveRTT d ?u) = opt_min_rtt_variance op"
    "rt_scaled_srtt (ObserveRTT d ?u) div 8 = to_ms d"
    using ObserveRTT_next(2,3)[OF ok(1,2) assms(4,5)] ok(3) v by simp_all
  then show ?thesis using ObserveRTT_next(4)[OF ok(1,2) assms(4,5)] by simp
qed

section \<open>Properties\<close>





end
