(* ===== verification/Retransmission_Error_Counter.thy ===== *)
theory Retransmission_Error_Counter
  imports Options
begin

text \<open>
  The counter of consecutive errors after which the connection is given up,
  \<open>tx/retransmission_error_counter.cc\<close>.
\<close>

record RetransmissionErrorCounter =
  ec_limit :: "int option"
  ec_counter :: int

definition new_error_counter :: "DcSctpOptions \<Rightarrow> RetransmissionErrorCounter" where
  "new_error_counter options = \<lparr>ec_limit = opt_max_retransmissions options, ec_counter = 0\<rparr>"

definition ErrorCounter_Increment :: "RetransmissionErrorCounter \<Rightarrow> bool \<times> RetransmissionErrorCounter" where
  "ErrorCounter_Increment c =
     (let c' = c\<lparr>ec_counter := ec_counter c + 1\<rparr> in
      case ec_limit c' of
        Some limit \<Rightarrow> if ec_counter c' > limit then (False, c') else (True, c')
      | None \<Rightarrow> (True, c'))"

definition IsExhausted :: "RetransmissionErrorCounter \<Rightarrow> bool" where
  "IsExhausted c = (case ec_limit c of None \<Rightarrow> False | Some limit \<Rightarrow> ec_counter c > limit)"

definition ErrorCounter_Clear :: "RetransmissionErrorCounter \<Rightarrow> RetransmissionErrorCounter" where
  "ErrorCounter_Clear c = (if ec_counter c > 0 then c\<lparr>ec_counter := 0\<rparr> else c)"

lemma Increment_result: "fst (ErrorCounter_Increment c) = (\<not> IsExhausted (snd (ErrorCounter_Increment c)))"
  by (simp add: ErrorCounter_Increment_def IsExhausted_def Let_def split: option.splits)

lemma Increment_counter [simp]:
  "ec_counter (snd (ErrorCounter_Increment c)) = ec_counter c + 1"
  "ec_limit (snd (ErrorCounter_Increment c)) = ec_limit c"
  by (simp_all add: ErrorCounter_Increment_def Let_def split: option.splits)



end
