(* ===== verification/Outcome_Logic.thy ===== *)
theory Outcome_Logic
  imports Dcsctp_Prelude
begin

text \<open>
  Reasoning about code that may fail a check: \<open>returns m P\<close> says that \<open>m\<close> ends with a value of which
  \<open>P\<close> holds.  It distributes over sequential composition, so the simplifier turns a goal about an
  operation into its preconditions.  \<open>fold_outcome\<close> is a loop over a list whose body may fail.
\<close>

definition returns :: "'a outcome \<Rightarrow> ('a \<Rightarrow> bool) \<Rightarrow> bool" where
  "returns m P = (\<exists>x. m = Value x \<and> P x)"

lemma returns_simps [simp]:
  "returns (Value x) P = P x" "\<not> returns Abort P" "\<not> returns Nullopt P"
  "returns (rtc_check b) Q = (b \<and> Q ())"
  by (auto simp: returns_def rtc_check_def)

lemma returns_bind [simp]: "returns (bind_outcome m f) P = returns m (\<lambda>x. returns (f x) P)"
  by (cases m) (auto simp: returns_def)

lemma returns_mono: "returns m P \<Longrightarrow> (\<And>x. m = Value x \<Longrightarrow> P x \<Longrightarrow> Q x) \<Longrightarrow> returns m Q"
  by (auto simp: returns_def)

lemma returns_conj: "returns m P \<Longrightarrow> returns m Q \<Longrightarrow> returns m (\<lambda>x. P x \<and> Q x)"
  by (auto simp: returns_def)

lemma returns_if [simp]: "returns (if b then m else n) P = (if b then returns m P else returns n P)"
  by simp

text \<open>No check fails, and where a value is returned the predicate holds of it.\<close>

definition safe :: "'a outcome \<Rightarrow> ('a \<Rightarrow> bool) \<Rightarrow> bool" where
  "safe m P = (m \<noteq> Abort \<and> (\<forall>x. m = Value x \<longrightarrow> P x))"

lemma returns_safe: "returns m P \<Longrightarrow> safe m P"
  by (auto simp: returns_def safe_def)

lemma safe_guard [simp]: "safe (bind_outcome (guard_opt b) f) P = (b \<longrightarrow> safe (f ()) P)"
  by (cases b) (auto simp: safe_def guard_opt_def)

lemma safe_bind: "safe m P \<Longrightarrow> (\<And>x. P x \<Longrightarrow> safe (f x) Q) \<Longrightarrow> safe (bind_outcome m f) Q"
  by (cases m) (auto simp: safe_def)

lemma bind_outcome_cong [fundef_cong]:
  "m = n \<Longrightarrow> (\<And>x. n = Value x \<Longrightarrow> f x = g x) \<Longrightarrow> bind_outcome m f = bind_outcome n g"
  by (cases n) auto

fun fold_outcome :: "('x \<Rightarrow> 's \<Rightarrow> 's outcome) \<Rightarrow> 'x list \<Rightarrow> 's \<Rightarrow> 's outcome" where
  "fold_outcome f [] s = Value s"
| "fold_outcome f (x # xs) s = bind_outcome (f x s) (fold_outcome f xs)"

lemma fold_outcome_returns:
  assumes "P s" "\<And>x s. x \<in> set xs \<Longrightarrow> P s \<Longrightarrow> returns (f x s) P"
  shows "returns (fold_outcome f xs s) P"
  using assms
proof (induction xs arbitrary: s)
  case (Cons x xs)
  have "returns (f x s) P" using Cons.prems by simp
  then show ?case
    by (simp, elim returns_mono) (intro Cons.IH, simp_all add: Cons.prems)
qed simp

end
