(* ===== verification/Outstanding_Data.thy ===== *)
theory Outstanding_Data
  imports Outcome_Logic Reassembly_Streams Time_Units "HOL-Library.Product_Lexorder"
begin

text \<open>
  The chunks that have been sent and are not yet acknowledged, \<open>tx/outstanding_data.cc\<close>.  Every debug
  check of the source is a check of the model.  The call that discards the rest of a message from the
  send queue is the parameter \<open>discard\<close>, whose state \<open>'q\<close> the operations thread through.
\<close>

definition kNumberOfNacksForRetransmission :: u8 where
  "kNumberOfNacksForRetransmission = 3"

definition NoLimit :: u16 where
  "NoLimit = 65535"

section \<open>Items\<close>

datatype Lifecycle = kActive | kToBeRetransmitted | kAbandoned

datatype ItemAckState = kUnacked | kAcked | kNacked

datatype NackAction = kNothing | kRetransmit | kAbandon

record Item =
  it_message_id :: u32
  it_time_sent :: Timestamp
  it_max_retransmissions :: u16
  it_lifecycle :: Lifecycle
  it_ack_state :: ItemAckState
  it_nack_count :: u8
  it_num_retransmissions :: u16
  it_expires_at :: Timestamp
  it_lifecycle_id :: u64
  it_data :: Data

definition new_item :: "u32 \<Rightarrow> Data \<Rightarrow> Timestamp \<Rightarrow> u16 \<Rightarrow> Timestamp \<Rightarrow> u64 \<Rightarrow> Item" where
  "new_item message_id data time_sent max_retransmissions expires_at lifecycle_id =
     \<lparr>it_message_id = message_id, it_time_sent = time_sent, it_max_retransmissions = max_retransmissions,
      it_lifecycle = kActive, it_ack_state = kUnacked, it_nack_count = 0, it_num_retransmissions = 0,
      it_expires_at = expires_at, it_lifecycle_id = lifecycle_id, it_data = data\<rparr>"

definition is_outstanding :: "Item \<Rightarrow> bool" where
  "is_outstanding item = (it_ack_state item = kUnacked)"

definition is_acked :: "Item \<Rightarrow> bool" where
  "is_acked item = (it_ack_state item = kAcked)"

definition is_nacked :: "Item \<Rightarrow> bool" where
  "is_nacked item = (it_ack_state item = kNacked)"

definition is_abandoned :: "Item \<Rightarrow> bool" where
  "is_abandoned item = (it_lifecycle item = kAbandoned)"

definition should_be_retransmitted :: "Item \<Rightarrow> bool" where
  "should_be_retransmitted item = (it_lifecycle item = kToBeRetransmitted)"

definition has_been_retransmitted :: "Item \<Rightarrow> bool" where
  "has_been_retransmitted item = (it_num_retransmissions item > 0)"

definition has_expired :: "Timestamp \<Rightarrow> Item \<Rightarrow> bool" where
  "has_expired now item = (it_expires_at item \<le> now)"

definition Item_Ack :: "Item \<Rightarrow> Item" where
  "Item_Ack item =
     (if it_lifecycle item \<noteq> kAbandoned then item\<lparr>it_lifecycle := kActive\<rparr> else item)\<lparr>it_ack_state := kAcked\<rparr>"

definition Item_Abandon :: "Item \<Rightarrow> Item outcome" where
  "Item_Abandon item =
     bind_outcome (rtc_check (it_expires_at item \<noteq> PlusInfinity \<or> it_max_retransmissions item \<noteq> NoLimit))
       (\<lambda>_. Value (item\<lparr>it_lifecycle := kAbandoned\<rparr>))"

definition Item_Nack :: "bool \<Rightarrow> Item \<Rightarrow> (NackAction \<times> Item) outcome" where
  "Item_Nack retransmit_now item0 =
     (let item = item0\<lparr>it_ack_state := kNacked, it_nack_count := it_nack_count item0 + 1\<rparr> in
      if \<not> should_be_retransmitted item \<and> \<not> is_abandoned item
         \<and> (retransmit_now \<or> it_nack_count item \<ge> kNumberOfNacksForRetransmission)
      then if it_num_retransmissions item < it_max_retransmissions item
           then Value (kRetransmit, item\<lparr>it_lifecycle := kToBeRetransmitted\<rparr>)
           else bind_outcome (Item_Abandon item) (\<lambda>item. Value (kAbandon, item))
      else Value (kNothing, item))"

definition Item_MarkAsRetransmitted :: "Item \<Rightarrow> Item" where
  "Item_MarkAsRetransmitted item =
     item\<lparr>it_lifecycle := kActive, it_ack_state := kUnacked, it_nack_count := 0,
       it_num_retransmissions := it_num_retransmissions item + 1\<rparr>"

section \<open>State\<close>

record OutstandingData =
  od_data_chunk_header_size :: u64
  od_last_cumulative_tsn_ack :: int
  od_outstanding_data :: "Item list"
  od_unacked_bytes :: u64
  od_unacked_items :: u64
  od_to_be_fast_retransmitted :: "int list"
  od_to_be_retransmitted :: "int list"
  od_stream_reset_breakpoint_tsns :: "int list"

definition new_outstanding_data :: "u64 \<Rightarrow> int \<Rightarrow> OutstandingData" where
  "new_outstanding_data data_chunk_header_size last_cumulative_tsn_ack =
     \<lparr>od_data_chunk_header_size = data_chunk_header_size, od_last_cumulative_tsn_ack = last_cumulative_tsn_ack,
      od_outstanding_data = [], od_unacked_bytes = 0, od_unacked_items = 0, od_to_be_fast_retransmitted = [],
      od_to_be_retransmitted = [], od_stream_reset_breakpoint_tsns = []\<rparr>"

definition GetSerializedChunkSize :: "OutstandingData \<Rightarrow> Data \<Rightarrow> u64" where
  "GetSerializedChunkSize od data = RoundUpTo4 (od_data_chunk_header_size od + of_nat (Data_size data))"

definition highest_outstanding_tsn :: "OutstandingData \<Rightarrow> int" where
  "highest_outstanding_tsn od = AddTo (od_last_cumulative_tsn_ack od) (int (length (od_outstanding_data od)))"

definition next_tsn :: "OutstandingData \<Rightarrow> int" where
  "next_tsn od = next_value (highest_outstanding_tsn od)"

definition has_data_to_be_fast_retransmitted :: "OutstandingData \<Rightarrow> bool" where
  "has_data_to_be_fast_retransmitted od = (od_to_be_fast_retransmitted od \<noteq> [])"

definition has_data_to_be_retransmitted :: "OutstandingData \<Rightarrow> bool" where
  "has_data_to_be_retransmitted od = (od_to_be_retransmitted od \<noteq> [] \<or> od_to_be_fast_retransmitted od \<noteq> [])"

text \<open>The items with their numbers, in the order of the queue.\<close>

definition numbered :: "OutstandingData \<Rightarrow> (int \<times> Item) list" where
  "numbered od = map (\<lambda>(i, item). (od_last_cumulative_tsn_ack od + 1 + int i, item)) (enumerate 0 (od_outstanding_data od))"

definition OD_IsConsistent :: "OutstandingData \<Rightarrow> bool" where
  "OD_IsConsistent od =
     (sum_list (map (\<lambda>item. GetSerializedChunkSize od (it_data item)) (filter is_outstanding (od_outstanding_data od)))
        = od_unacked_bytes od
      \<and> of_nat (length (filter is_outstanding (od_outstanding_data od))) = od_unacked_items od
      \<and> sset_of (map fst (filter (\<lambda>(tsn, item). should_be_retransmitted item) (numbered od)))
        = sset_of (od_to_be_retransmitted od @ od_to_be_fast_retransmitted od))"

text \<open>The source returns a reference to the item, the model its index.\<close>

definition GetItem :: "int \<Rightarrow> OutstandingData \<Rightarrow> nat outcome" where
  "GetItem tsn od =
     bind_outcome (rtc_check (tsn > od_last_cumulative_tsn_ack od)) (\<lambda>_.
     bind_outcome (rtc_check (tsn < next_tsn od)) (\<lambda>_.
     let index = sint (Difference tsn (od_last_cumulative_tsn_ack od) - 1 :: u32) in
     bind_outcome (rtc_check (index \<ge> 0)) (\<lambda>_.
     bind_outcome (rtc_check (index < int (length (od_outstanding_data od)))) (\<lambda>_.
     Value (nat index)))))"

section \<open>Acknowledging\<close>

record AckInfo =
  ai_bytes_acked :: u64
  ai_has_packet_loss :: bool
  ai_highest_tsn_acked :: int
  ai_acked_lifecycle_ids :: "u64 list"
  ai_abandoned_lifecycle_ids :: "u64 list"

definition new_ack_info :: "int \<Rightarrow> AckInfo" where
  "new_ack_info cumulative_tsn_ack =
     \<lparr>ai_bytes_acked = 0, ai_has_packet_loss = False, ai_highest_tsn_acked = cumulative_tsn_ack,
      ai_acked_lifecycle_ids = [], ai_abandoned_lifecycle_ids = []\<rparr>"

definition AckChunk :: "int \<Rightarrow> nat \<Rightarrow> AckInfo \<times> OutstandingData \<Rightarrow> (AckInfo \<times> OutstandingData) outcome" where
  "AckChunk tsn index = (\<lambda>(ack_info, od).
     let item = od_outstanding_data od ! index;
         serialized_size = GetSerializedChunkSize od (it_data item)
     in if is_acked item then Value (ack_info, od)
     else
       let od1 = (if is_outstanding item
                  then od\<lparr>od_unacked_bytes := od_unacked_bytes od - serialized_size,
                          od_unacked_items := od_unacked_items od - 1\<rparr> else od)
       in bind_outcome
            (if should_be_retransmitted item
             then bind_outcome (rtc_check (tsn \<notin> set (od_to_be_fast_retransmitted od1)))
                    (\<lambda>_. Value (od1\<lparr>od_to_be_retransmitted := remove1 tsn (od_to_be_retransmitted od1)\<rparr>))
             else Value od1)
            (\<lambda>od2. Value
              (ack_info\<lparr>ai_bytes_acked := ai_bytes_acked ack_info + serialized_size,
                 ai_highest_tsn_acked := max (ai_highest_tsn_acked ack_info) tsn\<rparr>,
               od2\<lparr>od_outstanding_data := (od_outstanding_data od2)[index := Item_Ack item]\<rparr>)))"

lemma AckChunk_length:
  "AckChunk tsn i (a, od) = Value (a', od') \<Longrightarrow> length (od_outstanding_data od') = length (od_outstanding_data od)"
  by (auto simp: AckChunk_def Let_def split: if_splits)

definition report_lifecycle :: "Item \<Rightarrow> AckInfo \<Rightarrow> AckInfo outcome" where
  "report_lifecycle item ack_info =
     (if it_lifecycle_id item \<noteq> 0 then
        bind_outcome (rtc_check (d_is_end (it_data item))) (\<lambda>_. Value
          (if is_abandoned item
           then ack_info\<lparr>ai_abandoned_lifecycle_ids := ai_abandoned_lifecycle_ids ack_info @ [it_lifecycle_id item]\<rparr>
           else ack_info\<lparr>ai_acked_lifecycle_ids := ai_acked_lifecycle_ids ack_info @ [it_lifecycle_id item]\<rparr>))
      else Value ack_info)"

function RemoveAcked_loop :: "int \<Rightarrow> AckInfo \<Rightarrow> OutstandingData \<Rightarrow> (AckInfo \<times> OutstandingData) outcome" where
  "RemoveAcked_loop cumulative_tsn_ack ack_info od =
     (if od_outstanding_data od \<noteq> [] \<and> od_last_cumulative_tsn_ack od < cumulative_tsn_ack then
        bind_outcome (AckChunk (next_value (od_last_cumulative_tsn_ack od)) 0 (ack_info, od)) (\<lambda>s1.
        bind_outcome (report_lifecycle (hd (od_outstanding_data (snd s1))) (fst s1)) (\<lambda>ack_info2.
        RemoveAcked_loop cumulative_tsn_ack ack_info2
          (snd s1\<lparr>od_outstanding_data := tl (od_outstanding_data (snd s1)),
             od_last_cumulative_tsn_ack := next_value (od_last_cumulative_tsn_ack (snd s1))\<rparr>)))
      else Value (ack_info, od))"
  by pat_completeness auto
termination
proof (relation "measure (\<lambda>(c, a, od). length (od_outstanding_data od))", goal_cases)
  case (2 c a od s1 a2)
  then have "length (od_outstanding_data (snd s1)) = length (od_outstanding_data od)"
    using AckChunk_length[of _ 0 a od "fst s1" "snd s1"] by simp
  then show ?case using 2 by (cases "od_outstanding_data od") auto
qed simp

declare RemoveAcked_loop.simps [simp del]

definition RemoveAcked :: "int \<Rightarrow> AckInfo \<times> OutstandingData \<Rightarrow> (AckInfo \<times> OutstandingData) outcome" where
  "RemoveAcked cumulative_tsn_ack = (\<lambda>(ack_info, od).
     bind_outcome (RemoveAcked_loop cumulative_tsn_ack ack_info od) (\<lambda>(ack_info, od).
     Value (ack_info, od\<lparr>od_stream_reset_breakpoint_tsns :=
       filter (\<lambda>tsn. next_value cumulative_tsn_ack < tsn) (od_stream_reset_breakpoint_tsns od)\<rparr>)))"

definition ack_in_range :: "int \<Rightarrow> AckInfo \<times> OutstandingData \<Rightarrow> (AckInfo \<times> OutstandingData) outcome" where
  "ack_in_range tsn = (\<lambda>(ack_info, od).
     if tsn > od_last_cumulative_tsn_ack od \<and> tsn < next_tsn od
     then bind_outcome (GetItem tsn od) (\<lambda>index. AckChunk tsn index (ack_info, od))
     else Value (ack_info, od))"

definition AckGapBlocks ::
  "int \<Rightarrow> GapAckBlock list \<Rightarrow> AckInfo \<times> OutstandingData \<Rightarrow> (AckInfo \<times> OutstandingData) outcome" where
  "AckGapBlocks cumulative_tsn_ack =
     fold_outcome (\<lambda>block. fold_outcome ack_in_range
       [AddTo cumulative_tsn_ack (uint (gab_start block)) .. AddTo cumulative_tsn_ack (uint (gab_end block))])"

section \<open>Abandoning\<close>

fun abandon_loop ::
  "Item \<Rightarrow> int \<Rightarrow> Item list \<Rightarrow> int list \<times> int list \<Rightarrow> (Item list \<times> int list \<times> int list) outcome" where
  "abandon_loop item tsn [] sets = Value ([], sets)"
| "abandon_loop item tsn (other # others) sets =
     (let tsn = next_value tsn in
      if \<not> is_abandoned other \<and> d_stream_id (it_data other) = d_stream_id (it_data item)
         \<and> it_message_id other = it_message_id item
      then
        let sets' = (if should_be_retransmitted other
                     then (remove1 tsn (fst sets), remove1 tsn (snd sets)) else sets)
        in bind_outcome (Item_Abandon other) (\<lambda>other'.
           bind_outcome (abandon_loop item tsn others sets') (\<lambda>(others', sets''). Value (other' # others', sets'')))
      else bind_outcome (abandon_loop item tsn others sets) (\<lambda>(others', sets''). Value (other # others', sets'')))"

definition message_end :: "Item \<Rightarrow> Data" where
  "message_end item = (it_data item)\<lparr>d_payload := [], d_is_beginning := False, d_is_end := True\<rparr>"

definition AbandonAllFor ::
  "(u16 \<Rightarrow> u32 \<Rightarrow> 'q \<Rightarrow> bool \<times> 'q) \<Rightarrow> Item \<Rightarrow> OutstandingData \<times> 'q \<Rightarrow> (OutstandingData \<times> 'q) outcome" where
  "AbandonAllFor discard item = (\<lambda>(od, q).
     case discard (d_stream_id (it_data item)) (it_message_id item) q of (discarded, q') \<Rightarrow>
       let od1 = (if discarded
                  then od\<lparr>od_outstanding_data := od_outstanding_data od @
                    [Item_Ack (new_item (it_message_id item) (message_end item) 0 0 PlusInfinity 0)]\<rparr>
                  else od)
       in bind_outcome
            (abandon_loop item (od_last_cumulative_tsn_ack od1) (od_outstanding_data od1)
               (od_to_be_fast_retransmitted od1, od_to_be_retransmitted od1))
            (\<lambda>(items, fast, retransmit). Value
              (od1\<lparr>od_outstanding_data := items, od_to_be_fast_retransmitted := fast,
                 od_to_be_retransmitted := retransmit\<rparr>, q')))"

section \<open>Missing chunks\<close>

definition NackItem ::
  "(u16 \<Rightarrow> u32 \<Rightarrow> 'q \<Rightarrow> bool \<times> 'q) \<Rightarrow> int \<Rightarrow> bool \<Rightarrow> bool \<Rightarrow> OutstandingData \<times> 'q
    \<Rightarrow> (bool \<times> OutstandingData \<times> 'q) outcome" where
  "NackItem discard tsn retransmit_now do_fast_retransmit = (\<lambda>(od, q).
     bind_outcome (GetItem tsn od) (\<lambda>index.
     let item = od_outstanding_data od ! index;
         od1 = (if is_outstanding item
                then od\<lparr>od_unacked_bytes := od_unacked_bytes od - GetSerializedChunkSize od (it_data item),
                        od_unacked_items := od_unacked_items od - 1\<rparr> else od)
     in bind_outcome (Item_Nack retransmit_now item) (\<lambda>(action, item').
        let od2 = od1\<lparr>od_outstanding_data := (od_outstanding_data od1)[index := item']\<rparr> in
        case action of
          kNothing \<Rightarrow> Value (False, od2, q)
        | kRetransmit \<Rightarrow> Value (True,
            if do_fast_retransmit
            then od2\<lparr>od_to_be_fast_retransmitted := sset_insert tsn (od_to_be_fast_retransmitted od2)\<rparr>
            else od2\<lparr>od_to_be_retransmitted := sset_insert tsn (od_to_be_retransmitted od2)\<rparr>, q)
        | kAbandon \<Rightarrow> bind_outcome (AbandonAllFor discard item' (od2, q)) (\<lambda>s. Value (True, s)))))"

function nack_between ::
  "(u16 \<Rightarrow> u32 \<Rightarrow> 'q \<Rightarrow> bool \<times> 'q) \<Rightarrow> bool \<Rightarrow> int \<Rightarrow> int \<Rightarrow> int \<Rightarrow> bool \<times> OutstandingData \<times> 'q
    \<Rightarrow> (bool \<times> OutstandingData \<times> 'q) outcome" where
  "nack_between discard fast cur_block_first_acked max_tsn_to_nack tsn (loss, od, q) =
     (if tsn < cur_block_first_acked \<and> tsn \<le> max_tsn_to_nack \<and> tsn < next_tsn od then
        bind_outcome (NackItem discard tsn False fast (od, q)) (\<lambda>(nacked, s).
        nack_between discard fast cur_block_first_acked max_tsn_to_nack (next_value tsn) (loss \<or> nacked, s))
      else Value (loss, od, q))"
  by pat_completeness auto
termination
  by (relation "measure (\<lambda>(d, f, c, m, tsn, s). nat (c - tsn))") (auto simp: next_value_def)

declare nack_between.simps [simp del]

fun nack_blocks ::
  "(u16 \<Rightarrow> u32 \<Rightarrow> 'q \<Rightarrow> bool \<times> 'q) \<Rightarrow> bool \<Rightarrow> int \<Rightarrow> int \<Rightarrow> int \<Rightarrow> GapAckBlock list
    \<Rightarrow> bool \<times> OutstandingData \<times> 'q \<Rightarrow> (bool \<times> OutstandingData \<times> 'q) outcome" where
  "nack_blocks discard fast cum max_tsn_to_nack prev_block_last_acked [] s = Value s"
| "nack_blocks discard fast cum max_tsn_to_nack prev_block_last_acked (b # bs) s =
     bind_outcome (nack_between discard fast (AddTo cum (uint (gab_start b))) max_tsn_to_nack
        (next_value prev_block_last_acked) s)
       (nack_blocks discard fast cum max_tsn_to_nack (AddTo cum (uint (gab_end b))) bs)"

definition NackBetweenAckBlocks ::
  "(u16 \<Rightarrow> u32 \<Rightarrow> 'q \<Rightarrow> bool \<times> 'q) \<Rightarrow> int \<Rightarrow> GapAckBlock list \<Rightarrow> bool \<Rightarrow> AckInfo \<times> OutstandingData \<times> 'q
    \<Rightarrow> (AckInfo \<times> OutstandingData \<times> 'q) outcome" where
  "NackBetweenAckBlocks discard cumulative_tsn_ack gap_ack_blocks is_in_fast_recovery = (\<lambda>(ack_info, od, q).
     let max_tsn_to_nack =
           (if is_in_fast_recovery \<and> cumulative_tsn_ack > od_last_cumulative_tsn_ack od
            then AddTo cumulative_tsn_ack (if gap_ack_blocks = [] then 0 else uint (gab_end (last gap_ack_blocks)))
            else ai_highest_tsn_acked ack_info)
     in bind_outcome (nack_blocks discard (\<not> is_in_fast_recovery) cumulative_tsn_ack max_tsn_to_nack
          cumulative_tsn_ack gap_ack_blocks (ai_has_packet_loss ack_info, od, q)) (\<lambda>(loss, s).
        Value (ack_info\<lparr>ai_has_packet_loss := loss\<rparr>, s)))"

definition OD_HandleSack ::
  "(u16 \<Rightarrow> u32 \<Rightarrow> 'q \<Rightarrow> bool \<times> 'q) \<Rightarrow> int \<Rightarrow> GapAckBlock list \<Rightarrow> bool \<Rightarrow> OutstandingData \<times> 'q
    \<Rightarrow> (AckInfo \<times> OutstandingData \<times> 'q) outcome" where
  "OD_HandleSack discard cumulative_tsn_ack gap_ack_blocks is_in_fast_recovery = (\<lambda>(od, q).
     bind_outcome (RemoveAcked cumulative_tsn_ack (new_ack_info cumulative_tsn_ack, od)) (\<lambda>s.
     bind_outcome (AckGapBlocks cumulative_tsn_ack gap_ack_blocks s) (\<lambda>(ack_info, od).
     bind_outcome (NackBetweenAckBlocks discard cumulative_tsn_ack gap_ack_blocks is_in_fast_recovery (ack_info, od, q))
       (\<lambda>(ack_info, od, q).
     bind_outcome (rtc_check (OD_IsConsistent od)) (\<lambda>_. Value (ack_info, od, q))))))"

section \<open>Retransmitting, expiring and inserting\<close>

definition fits_check :: "Item \<Rightarrow> bool" where
  "fits_check item =
     (should_be_retransmitted item \<and> \<not> is_outstanding item \<and> \<not> is_abandoned item \<and> \<not> is_acked item)"

text \<open>The result is the list of extracted chunks, the numbers left in the set and the new state.\<close>

fun ExtractChunksThatCanFit ::
  "int list \<Rightarrow> u64 \<Rightarrow> OutstandingData \<Rightarrow> ((u32 \<times> Data) list \<times> int list \<times> OutstandingData) outcome" where
  "ExtractChunksThatCanFit [] max_size od = Value ([], [], od)"
| "ExtractChunksThatCanFit (tsn # chunks) max_size od =
     bind_outcome (GetItem tsn od) (\<lambda>index.
     let item = od_outstanding_data od ! index;
         serialized_size = GetSerializedChunkSize od (it_data item);
         fits = serialized_size \<le> max_size;
         extracted = (if fits then [(Wrap tsn, it_data item)] else []);
         left = (if fits then [] else [tsn]);
         max_size' = (if fits then max_size - serialized_size else max_size);
         od' = (if fits
                then od\<lparr>od_outstanding_data := (od_outstanding_data od)[index := Item_MarkAsRetransmitted item],
                        od_unacked_bytes := od_unacked_bytes od + serialized_size,
                        od_unacked_items := od_unacked_items od + 1\<rparr>
                else od)
     in bind_outcome (rtc_check (fits_check item)) (\<lambda>_.
        if max_size' \<le> od_data_chunk_header_size od then Value (extracted, left @ chunks, od')
        else bind_outcome (ExtractChunksThatCanFit chunks max_size' od') (\<lambda>(extracted', left', od'').
             Value (extracted @ extracted', left @ left', od''))))"

definition GetChunksToBeFastRetransmitted :: "u64 \<Rightarrow> OutstandingData \<Rightarrow> ((u32 \<times> Data) list \<times> OutstandingData) outcome" where
  "GetChunksToBeFastRetransmitted max_size od =
     bind_outcome (ExtractChunksThatCanFit (od_to_be_fast_retransmitted od) max_size od) (\<lambda>(extracted, left, od1).
     let od2 = od1\<lparr>od_to_be_fast_retransmitted := left\<rparr>;
         od3 = (if left \<noteq> []
                then od2\<lparr>od_to_be_retransmitted := fold sset_insert left (od_to_be_retransmitted od2),
                         od_to_be_fast_retransmitted := []\<rparr>
                else od2)
     in bind_outcome (rtc_check (OD_IsConsistent od3)) (\<lambda>_. Value (extracted, od3)))"

definition GetChunksToBeRetransmitted :: "u64 \<Rightarrow> OutstandingData \<Rightarrow> ((u32 \<times> Data) list \<times> OutstandingData) outcome" where
  "GetChunksToBeRetransmitted max_size od =
     bind_outcome (rtc_check (od_to_be_fast_retransmitted od = [])) (\<lambda>_.
     bind_outcome (ExtractChunksThatCanFit (od_to_be_retransmitted od) max_size od) (\<lambda>(extracted, left, od1).
     Value (extracted, od1\<lparr>od_to_be_retransmitted := left\<rparr>)))"

text \<open>
  The loop goes over the items that were there when it began; the items that abandoning appends are
  not visited.
\<close>

fun expire_loop ::
  "(u16 \<Rightarrow> u32 \<Rightarrow> 'q \<Rightarrow> bool \<times> 'q) \<Rightarrow> Timestamp \<Rightarrow> nat list \<Rightarrow> OutstandingData \<times> 'q \<Rightarrow> (OutstandingData \<times> 'q) outcome" where
  "expire_loop discard now [] s = Value s"
| "expire_loop discard now (i # rest) (od, q) =
     (let item = od_outstanding_data od ! i in
      if is_abandoned item then expire_loop discard now rest (od, q)
      else if is_nacked item \<and> has_expired now item
      then bind_outcome (AbandonAllFor discard item (od, q)) (expire_loop discard now rest)
      else Value (od, q))"

definition ExpireOutstandingChunks ::
  "(u16 \<Rightarrow> u32 \<Rightarrow> 'q \<Rightarrow> bool \<times> 'q) \<Rightarrow> Timestamp \<Rightarrow> OutstandingData \<times> 'q \<Rightarrow> (OutstandingData \<times> 'q) outcome" where
  "ExpireOutstandingChunks discard now = (\<lambda>(od, q).
     bind_outcome (expire_loop discard now [0..<length (od_outstanding_data od)] (od, q)) (\<lambda>(od, q).
     bind_outcome (rtc_check (OD_IsConsistent od)) (\<lambda>_. Value (od, q))))"

definition OD_Insert ::
  "(u16 \<Rightarrow> u32 \<Rightarrow> 'q \<Rightarrow> bool \<times> 'q) \<Rightarrow> u32 \<Rightarrow> Data \<Rightarrow> Timestamp \<Rightarrow> u16 \<Rightarrow> Timestamp \<Rightarrow> u64
    \<Rightarrow> OutstandingData \<times> 'q \<Rightarrow> (int option \<times> OutstandingData \<times> 'q) outcome" where
  "OD_Insert discard message_id data time_sent max_retransmissions expires_at lifecycle_id = (\<lambda>(od, q).
     let chunk_size = GetSerializedChunkSize od data;
         tsn = next_tsn od;
         item = new_item message_id data time_sent max_retransmissions expires_at lifecycle_id;
         od1 = od\<lparr>od_unacked_bytes := od_unacked_bytes od + chunk_size,
                   od_unacked_items := od_unacked_items od + 1,
                   od_outstanding_data := od_outstanding_data od @ [item]\<rparr>
     in if has_expired time_sent item
        then bind_outcome (AbandonAllFor discard item (od1, q)) (\<lambda>(od2, q2).
             bind_outcome (rtc_check (OD_IsConsistent od2)) (\<lambda>_. Value (None, od2, q2)))
        else bind_outcome (rtc_check (OD_IsConsistent od1)) (\<lambda>_. Value (Some tsn, od1, q)))"

definition NackAll ::
  "(u16 \<Rightarrow> u32 \<Rightarrow> 'q \<Rightarrow> bool \<times> 'q) \<Rightarrow> OutstandingData \<times> 'q \<Rightarrow> (OutstandingData \<times> 'q) outcome" where
  "NackAll discard = (\<lambda>(od, q).
     let tsns_to_nack = map fst (filter (\<lambda>(tsn, item). \<not> is_acked item) (numbered od))
     in bind_outcome
          (fold_outcome (\<lambda>tsn s. bind_outcome (NackItem discard tsn True False s) (\<lambda>(nacked, s'). Value s'))
             tsns_to_nack (od, q)) (\<lambda>(od, q).
        bind_outcome (rtc_check (OD_IsConsistent od)) (\<lambda>_. Value (od, q))))"

section \<open>Queries\<close>

definition MeasureRTT :: "Timestamp \<Rightarrow> int \<Rightarrow> OutstandingData \<Rightarrow> TimeDelta outcome" where
  "MeasureRTT now tsn od =
     (if tsn > od_last_cumulative_tsn_ack od \<and> tsn < next_tsn od then
        bind_outcome (GetItem tsn od) (\<lambda>index.
        let item = od_outstanding_data od ! index in
        if \<not> has_been_retransmitted item then Value (time_minus now (it_time_sent item)) else Value PlusInfinity)
      else Value PlusInfinity)"

datatype ChunkState = InFlight | NackedOnce | ToBeRetransmitted | ChunkAcked | ChunkAbandoned

definition item_state :: "Item \<Rightarrow> ChunkState" where
  "item_state item =
     (if is_abandoned item then ChunkAbandoned
      else if should_be_retransmitted item then ToBeRetransmitted
      else if is_acked item then ChunkAcked
      else if is_outstanding item then InFlight
      else NackedOnce)"

definition GetChunkStatesForTesting :: "OutstandingData \<Rightarrow> (u32 \<times> ChunkState) list" where
  "GetChunkStatesForTesting od =
     (Wrap (od_last_cumulative_tsn_ack od), ChunkAcked) # map (\<lambda>(tsn, item). (Wrap tsn, item_state item)) (numbered od)"

definition ShouldSendForwardTsn :: "OutstandingData \<Rightarrow> bool" where
  "ShouldSendForwardTsn od =
     (case od_outstanding_data od of [] \<Rightarrow> False | item # _ \<Rightarrow> is_abandoned item)"

text \<open>
  Both loops stop at a breakpoint or at an item that is not abandoned; they differ in the key of the
  map of skipped streams.  Looking a key up with \<open>operator[]\<close> inserts zero where there is none.
\<close>

fun forward_loop ::
  "(Data \<Rightarrow> ('k::linorder \<times> 'v::{linorder,zero}) option) \<Rightarrow> int list \<Rightarrow> int \<Rightarrow> int \<Rightarrow> Item list
    \<Rightarrow> ('k, 'v) omap \<Rightarrow> int \<times> ('k, 'v) omap" where
  "forward_loop key breakpoints tsn new_cumulative_ack [] skipped = (new_cumulative_ack, skipped)"
| "forward_loop key breakpoints tsn new_cumulative_ack (item # items) skipped =
     (let tsn = next_value tsn in
      if tsn \<in> set breakpoints \<or> tsn \<noteq> next_value new_cumulative_ack \<or> \<not> is_abandoned item
      then (new_cumulative_ack, skipped)
      else forward_loop key breakpoints tsn tsn items
        (case key (it_data item) of
           None \<Rightarrow> skipped
         | Some (k, v) \<Rightarrow>
             let skipped' = snd (emplace k 0 skipped)
             in if v > find_or 0 k skipped' then assign k v skipped' else skipped'))"

definition CreateForwardTsn :: "OutstandingData \<Rightarrow> chunk" where
  "CreateForwardTsn od =
     (let (new_cumulative_ack, skipped_per_ordered_stream) =
            forward_loop (\<lambda>data. if d_is_unordered data then None else Some (d_stream_id data, d_ssn data))
              (od_stream_reset_breakpoint_tsns od) (od_last_cumulative_tsn_ack od) (od_last_cumulative_tsn_ack od)
              (od_outstanding_data od) []
      in ForwardTsnChunk (Wrap new_cumulative_ack)
           (map (\<lambda>(stream_id, ssn). \<lparr>sk_stream_id = stream_id, sk_ssn = ssn, sk_unordered = False, sk_mid = 0\<rparr>)
             skipped_per_ordered_stream))"

definition CreateIForwardTsn :: "OutstandingData \<Rightarrow> chunk" where
  "CreateIForwardTsn od =
     (let (new_cumulative_ack, skipped_per_stream) =
            forward_loop (\<lambda>data. Some ((d_is_unordered data, d_stream_id data), d_mid data))
              (od_stream_reset_breakpoint_tsns od) (od_last_cumulative_tsn_ack od) (od_last_cumulative_tsn_ack od)
              (od_outstanding_data od) []
      in IForwardTsnChunk (Wrap new_cumulative_ack)
           (map (\<lambda>((unordered, stream_id), mid). \<lparr>sk_stream_id = stream_id, sk_ssn = 0, sk_unordered = unordered, sk_mid = mid\<rparr>)
             skipped_per_stream))"

definition ResetSequenceNumbers :: "int \<Rightarrow> OutstandingData \<Rightarrow> OutstandingData outcome" where
  "ResetSequenceNumbers last_cumulative_tsn od =
     bind_outcome (rtc_check (od_outstanding_data od = [])) (\<lambda>_.
     Value (od\<lparr>od_last_cumulative_tsn_ack := last_cumulative_tsn\<rparr>))"

definition OD_BeginResetStreams :: "OutstandingData \<Rightarrow> OutstandingData" where
  "OD_BeginResetStreams od =
     od\<lparr>od_stream_reset_breakpoint_tsns := sset_insert (next_tsn od) (od_stream_reset_breakpoint_tsns od)\<rparr>"

end
