(* ===== verification/Outstanding_Consistency.thy ===== *)
theory Outstanding_Consistency
  imports Outstanding_Data
begin

text \<open>
  The bookkeeping of the outstanding data: the counters of bytes and chunks in flight and the two
  sets of chunks to be retransmitted always agree with the states of the items, and no debug check of
  \<open>tx/outstanding_data.cc\<close> fails.
\<close>

section \<open>Invariant\<close>

text \<open>An item counts while it is in flight, with the size of the chunk that carries it.\<close>

definition weight :: "u64 \<Rightarrow> Item \<Rightarrow> u64" where
  "weight header item = (if is_outstanding item then RoundUpTo4 (header + of_nat (Data_size (it_data item))) else 0)"

definition in_flight :: "Item \<Rightarrow> u64" where
  "in_flight item = (if is_outstanding item then 1 else 0)"

definition counts_ok :: "OutstandingData \<Rightarrow> bool" where
  "counts_ok od =
     (od_unacked_bytes od = (\<Sum>item\<leftarrow>od_outstanding_data od. weight (od_data_chunk_header_size od) item)
      \<and> od_unacked_items od = (\<Sum>item\<leftarrow>od_outstanding_data od. in_flight item))"

definition pending :: "OutstandingData \<Rightarrow> int set" where
  "pending od = set (od_to_be_retransmitted od) \<union> set (od_to_be_fast_retransmitted od)"

text \<open>The number of the item at index \<open>i\<close>.\<close>

abbreviation tsn_at :: "OutstandingData \<Rightarrow> nat \<Rightarrow> int" where
  "tsn_at od i \<equiv> od_last_cumulative_tsn_ack od + 1 + int i"

definition marks_ok :: "OutstandingData \<Rightarrow> bool" where
  "marks_ok od =
     (pending od = {tsn_at od i | i. i < length (od_outstanding_data od) \<and> should_be_retransmitted (od_outstanding_data od ! i)}
      \<and> sorted_wrt (<) (od_to_be_retransmitted od) \<and> sorted_wrt (<) (od_to_be_fast_retransmitted od)
      \<and> set (od_to_be_retransmitted od) \<inter> set (od_to_be_fast_retransmitted od) = {})"

text \<open>A message without limits on its lifetime and its retransmissions may not be abandoned.\<close>

definition reliable :: "Item \<Rightarrow> bool" where
  "reliable item = (it_expires_at item = PlusInfinity \<and> it_max_retransmissions item = NoLimit)"

text \<open>
  \<open>R\<close> tells of every message, by its stream and identifier, whether it is reliable; \<open>n\<close> bounds the
  number of times a reliable chunk has been retransmitted.
\<close>

definition item_ok :: "(u16 \<Rightarrow> u32 \<Rightarrow> bool) \<Rightarrow> nat \<Rightarrow> Item \<Rightarrow> bool" where
  "item_ok R n item =
     ((should_be_retransmitted item \<longrightarrow> is_nacked item)
      \<and> (it_lifecycle_id item \<noteq> 0 \<longrightarrow> d_is_end (it_data item))
      \<and> R (d_stream_id (it_data item)) (it_message_id item) = reliable item
      \<and> (reliable item \<longrightarrow> unat (it_num_retransmissions item) \<le> n))"

text \<open>An abandoned item weighs one, any other two: what abandoning an item may append to the queue.\<close>

definition load :: "OutstandingData \<Rightarrow> nat" where
  "load od = (\<Sum>item\<leftarrow>od_outstanding_data od. if is_abandoned item then 1 else 2)"

definition od_inv :: "(u16 \<Rightarrow> u32 \<Rightarrow> bool) \<Rightarrow> nat \<Rightarrow> nat \<Rightarrow> OutstandingData \<Rightarrow> bool" where
  "od_inv R n B od =
     (counts_ok od \<and> marks_ok od \<and> (\<forall>item \<in> set (od_outstanding_data od). item_ok R n item)
      \<and> load od \<le> B \<and> B < 2 ^ 31)"

section \<open>Sums and sets\<close>

lemma sum_list_map_update:
  fixes f :: "'x \<Rightarrow> 'y::ab_group_add"
  shows "i < length xs \<Longrightarrow> sum_list (map f (xs[i := y])) = sum_list (map f xs) - f (xs ! i) + f y"
  by (induction xs arbitrary: i) (auto split: nat.splits)

lemma sum_list_filter:
  fixes f :: "'x \<Rightarrow> 'y::comm_monoid_add"
  shows "sum_list (map f (filter P xs)) = (\<Sum>x\<leftarrow>xs. if P x then f x else 0)"
  by (induction xs) simp_all

lemma of_nat_length_filter: "(of_nat (length (filter P xs)) :: 'y::comm_semiring_1) = (\<Sum>x\<leftarrow>xs. if P x then 1 else 0)"
  by (induction xs) simp_all

lemma set_remove1_sorted: "sorted_wrt (<) (xs :: 'x::linorder list) \<Longrightarrow> set (remove1 x xs) = set xs - {x}"
  by (simp add: set_remove1_eq strict_sorted_iff)

lemma sorted_remove1 [simp]: "sorted_wrt (<) (xs :: 'x::linorder list) \<Longrightarrow> sorted_wrt (<) (remove1 x xs)"
  by (induction xs) (auto dest: in_set_remove1[THEN iffD1, rotated] notin_set_remove1)

lemma sorted_eqI:
  "sorted_wrt (<) xs \<Longrightarrow> sorted_wrt (<) ys \<Longrightarrow> set xs = set ys \<Longrightarrow> xs = (ys :: 'x::linorder list)"
  by (rule strict_sorted_equal)

section \<open>Consequences of the invariant\<close>

lemma set_numbered:
  "set (numbered od) = {(tsn_at od i, od_outstanding_data od ! i) | i. i < length (od_outstanding_data od)}"
  by (auto simp: numbered_def in_set_enumerate_eq image_iff)

lemma consistent:
  assumes "counts_ok od" "marks_ok od"
  shows "OD_IsConsistent od"
proof -
  have "set (map fst (filter (\<lambda>(tsn, item). should_be_retransmitted item) (numbered od))) = pending od"
    using assms(2) by (force simp: marks_ok_def set_numbered image_iff)
  then have "sset_of (map fst (filter (\<lambda>(tsn, item). should_be_retransmitted item) (numbered od)))
      = sset_of (od_to_be_retransmitted od @ od_to_be_fast_retransmitted od)"
    by (intro sorted_eqI) (simp_all add: pending_def)
  then show ?thesis
    using assms(1) by (simp add: OD_IsConsistent_def counts_ok_def sum_list_filter of_nat_length_filter
        weight_def[abs_def] in_flight_def[abs_def] GetSerializedChunkSize_def)
qed

lemma length_le_load: "length (od_outstanding_data od) \<le> load od"
proof -
  have "length xs \<le> (\<Sum>item\<leftarrow>xs. if is_abandoned item then 1 else 2)" for xs
    by (induction xs) auto
  then show ?thesis by (simp add: load_def)
qed

lemma od_inv_length: "od_inv R n B od \<Longrightarrow> length (od_outstanding_data od) < 2 ^ 31"
  using length_le_load[of od] by (simp add: od_inv_def)

lemma next_tsn_eq: "next_tsn od = tsn_at od (length (od_outstanding_data od))"
  by (simp add: next_tsn_def highest_outstanding_tsn_def next_value_def AddTo_def)

lemma GetItem_ok:
  assumes "length (od_outstanding_data od) < 2 ^ 31" "i < length (od_outstanding_data od)"
  shows "GetItem (tsn_at od i) od = Value i"
proof -
  have "sint (word_of_int (1 + int i) - 1 :: u32) = int i"
    using assms by (simp add: signed_of_nat signed_take_bit_int_eq_self)
  then show ?thesis
    using assms by (simp add: GetItem_def next_tsn_eq Difference_def Let_def rtc_check_def)
qed

lemma in_range_index:
  assumes "od_last_cumulative_tsn_ack od < tsn" "tsn < next_tsn od"
  obtains i where "i < length (od_outstanding_data od)" "tsn = tsn_at od i"
  using assms that[of "nat (tsn - od_last_cumulative_tsn_ack od - 1)"] by (simp add: next_tsn_eq)

section \<open>Changing one item\<close>

lemma load_update_le:
  assumes "i < length xs" "is_abandoned (xs ! i) \<longrightarrow> is_abandoned item"
  shows "(\<Sum>x\<leftarrow>xs[i := item]. if is_abandoned x then 1 else 2) \<le> (\<Sum>x\<leftarrow>xs. if is_abandoned x then 1 else (2 :: nat))"
  using assms by (induction xs arbitrary: i) (auto split: nat.splits)

lemma item_update_inv:
  assumes inv: "od_inv R n B od" and i: "i < length (od_outstanding_data od)"
    and item: "item_ok R n item" "is_abandoned (od_outstanding_data od ! i) \<longrightarrow> is_abandoned item"
    and fields: "od_data_chunk_header_size od' = od_data_chunk_header_size od"
      "od_last_cumulative_tsn_ack od' = od_last_cumulative_tsn_ack od"
      "od_outstanding_data od' = (od_outstanding_data od)[i := item]"
    and bytes: "od_unacked_bytes od' = od_unacked_bytes od
        - weight (od_data_chunk_header_size od) (od_outstanding_data od ! i) + weight (od_data_chunk_header_size od) item"
      "od_unacked_items od' = od_unacked_items od - in_flight (od_outstanding_data od ! i) + in_flight item"
    and pend: "pending od' = pending od - {tsn_at od i} \<union> (if should_be_retransmitted item then {tsn_at od i} else {})"
      "sorted_wrt (<) (od_to_be_retransmitted od')" "sorted_wrt (<) (od_to_be_fast_retransmitted od')"
      "set (od_to_be_retransmitted od') \<inter> set (od_to_be_fast_retransmitted od') = {}"
  shows "od_inv R n B od'"
proof -
  have "counts_ok od'"
    using inv i fields bytes by (simp add: od_inv_def counts_ok_def sum_list_map_update)
  moreover have "{tsn_at od' j | j. j < length (od_outstanding_data od') \<and> should_be_retransmitted (od_outstanding_data od' ! j)} = pending od'"
  proof (rule set_eqI)
    fix t
    have old: "pending od = {tsn_at od j | j. j < length (od_outstanding_data od) \<and> should_be_retransmitted (od_outstanding_data od ! j)}"
      using inv by (simp add: od_inv_def marks_ok_def)
    show "t \<in> {tsn_at od' j | j. j < length (od_outstanding_data od') \<and> should_be_retransmitted (od_outstanding_data od' ! j)}
        \<longleftrightarrow> t \<in> pending od'"
      unfolding pend(1) old fields using i by (auto simp: nth_list_update split: if_splits)
  qed
  moreover have "load od' \<le> B"
    using inv i item(2) fields(3) load_update_le[of i "od_outstanding_data od" item] by (simp add: od_inv_def load_def)
  moreover have "\<forall>x \<in> set (od_outstanding_data od'). item_ok R n x"
    using inv item(1) fields(3) set_update_subset_insert[of "od_outstanding_data od" i item]
    by (auto simp: od_inv_def)
  ultimately show ?thesis
    using inv pend by (simp add: od_inv_def marks_ok_def)
qed

lemma pending_index:
  assumes "od_inv R n B od" "i < length (od_outstanding_data od)"
  shows "tsn_at od i \<in> pending od \<longleftrightarrow> should_be_retransmitted (od_outstanding_data od ! i)"
  using assms by (auto simp: od_inv_def marks_ok_def)

lemma od_inv_item: "od_inv R n B od \<Longrightarrow> i < length (od_outstanding_data od) \<Longrightarrow> item_ok R n (od_outstanding_data od ! i)"
  by (simp add: od_inv_def)

lemmas item_states = is_outstanding_def is_acked_def is_nacked_def is_abandoned_def should_be_retransmitted_def

lemma Item_Ack_simps [simp]:
  "is_acked (Item_Ack item)" "\<not> is_outstanding (Item_Ack item)" "is_abandoned (Item_Ack item) = is_abandoned item"
  "\<not> should_be_retransmitted (Item_Ack item)" "it_data (Item_Ack item) = it_data item"
  "it_lifecycle_id (Item_Ack item) = it_lifecycle_id item" "it_message_id (Item_Ack item) = it_message_id item"
  "reliable (Item_Ack item) = reliable item" "it_num_retransmissions (Item_Ack item) = it_num_retransmissions item"
  by (auto simp: Item_Ack_def item_states reliable_def)

lemma Item_Ack_acked: "item_ok R n item \<Longrightarrow> is_acked item \<Longrightarrow> Item_Ack item = item"
  by (cases "it_lifecycle item") (auto simp: Item_Ack_def item_ok_def item_states)

lemma Item_Ack_ok [simp]: "item_ok R n item \<Longrightarrow> item_ok R n (Item_Ack item)"
  by (simp add: item_ok_def)

section \<open>Acknowledging\<close>

text \<open>What acknowledging the item at index \<open>i\<close> leaves unchanged and what it changes.\<close>

definition acked_at :: "nat \<Rightarrow> OutstandingData \<Rightarrow> OutstandingData \<Rightarrow> bool" where
  "acked_at i od od' =
     (od_outstanding_data od' = (od_outstanding_data od)[i := Item_Ack (od_outstanding_data od ! i)]
      \<and> od_last_cumulative_tsn_ack od' = od_last_cumulative_tsn_ack od
      \<and> od_to_be_fast_retransmitted od' = od_to_be_fast_retransmitted od
      \<and> od_data_chunk_header_size od' = od_data_chunk_header_size od)"

lemma AckChunk_returns:
  assumes inv: "od_inv R n B od" and fast: "od_to_be_fast_retransmitted od = []"
    and i: "i < length (od_outstanding_data od)"
  shows "returns (AckChunk (tsn_at od i) i (a, od)) (\<lambda>(a', od'). od_inv R n B od' \<and> acked_at i od od'
    \<and> ai_highest_tsn_acked a' = (if is_acked (od_outstanding_data od ! i) then ai_highest_tsn_acked a
        else max (ai_highest_tsn_acked a) (tsn_at od i)))"
proof (cases "is_acked (od_outstanding_data od ! i)")
  case True
  then show ?thesis
    using inv od_inv_item[OF inv i] Item_Ack_acked by (simp add: AckChunk_def Let_def acked_at_def)
next
  case False
  let ?item = "od_outstanding_data od ! i" and ?t = "tsn_at od i"
  let ?out = "is_outstanding ?item"
  define od' where "od' = od\<lparr>od_unacked_bytes := od_unacked_bytes od - weight (od_data_chunk_header_size od) ?item,
      od_unacked_items := od_unacked_items od - in_flight ?item,
      od_to_be_retransmitted := (if should_be_retransmitted ?item then remove1 ?t (od_to_be_retransmitted od)
        else od_to_be_retransmitted od),
      od_outstanding_data := (od_outstanding_data od)[i := Item_Ack ?item]\<rparr>"
  have srt: "sorted_wrt (<) (od_to_be_retransmitted od)" using inv by (simp add: od_inv_def marks_ok_def)
  have mark: "?t \<in> pending od \<longleftrightarrow> should_be_retransmitted ?item" by (rule pending_index[OF inv i])
  have "od_inv R n B od'"
  proof (rule item_update_inv[OF inv i])
    show "item_ok R n (Item_Ack ?item)" using od_inv_item[OF inv i] by simp
    show "pending od' = pending od - {?t} \<union> (if should_be_retransmitted (Item_Ack ?item) then {?t} else {})"
      using mark srt fast by (auto simp: od'_def pending_def set_remove1_sorted)
  qed (use inv fast in \<open>auto simp: od'_def weight_def in_flight_def srt od_inv_def marks_ok_def\<close>)
  moreover have "returns (AckChunk ?t i (a, od)) (\<lambda>(a', od1). od1 = od'
      \<and> ai_highest_tsn_acked a' = max (ai_highest_tsn_acked a) ?t)"
    using False fast
    by (simp add: AckChunk_def Let_def od'_def weight_def in_flight_def GetSerializedChunkSize_def)
  moreover have "acked_at i od od'" by (simp add: acked_at_def od'_def)
  ultimately show ?thesis
    using False by (auto elim!: returns_mono)
qed

lemma report_lifecycle_returns:
  "item_ok R n item \<Longrightarrow> returns (report_lifecycle item a) (\<lambda>a'. ai_highest_tsn_acked a' = ai_highest_tsn_acked a)"
  by (simp add: report_lifecycle_def item_ok_def)

lemma pop_front_inv:
  assumes inv: "od_inv R n B od" and items: "od_outstanding_data od = item # items"
    and "is_acked item"
  shows "od_inv R n B (od\<lparr>od_outstanding_data := items,
    od_last_cumulative_tsn_ack := od_last_cumulative_tsn_ack od + 1\<rparr>)" (is "od_inv R n B ?od")
proof -
  have item: "\<not> is_outstanding item" "\<not> should_be_retransmitted item"
    using inv assms(3) by (auto simp: od_inv_def items item_ok_def item_states)
  have "counts_ok ?od"
    using inv item by (simp add: od_inv_def counts_ok_def items weight_def in_flight_def)
  moreover have "{tsn_at ?od i | i. i < length items \<and> should_be_retransmitted (items ! i)}
      = {tsn_at od i | i. i < Suc (length items) \<and> should_be_retransmitted ((item # items) ! i)}" (is "?A = ?B")
  proof (rule set_eqI)
    fix t
    have "t \<in> ?B \<longleftrightarrow> (\<exists>i < Suc (length items). t = tsn_at od i \<and> should_be_retransmitted ((item # items) ! i))" by blast
    also have "\<dots> \<longleftrightarrow> (\<exists>i < length items. t = tsn_at od (Suc i) \<and> should_be_retransmitted (items ! i))"
      using item(2) by (simp only: Ex_less_Suc2 nth_Cons_0 nth_Cons_Suc simp_thms)
    finally show "t \<in> ?A \<longleftrightarrow> t \<in> ?B" by (auto simp: algebra_simps)
  qed
  then have "marks_ok ?od"
    using inv by (simp add: od_inv_def marks_ok_def pending_def items)
  ultimately show ?thesis
    using inv by (auto simp: od_inv_def items load_def)
qed

text \<open>The items up to \<open>cum\<close> are gone, as far as there are any.\<close>

definition removed_to :: "int \<Rightarrow> AckInfo \<Rightarrow> OutstandingData \<Rightarrow> AckInfo \<times> OutstandingData \<Rightarrow> bool" where
  "removed_to cum a od = (\<lambda>(a', od'). od_to_be_fast_retransmitted od' = []
     \<and> od_outstanding_data od' = drop (nat (cum - od_last_cumulative_tsn_ack od)) (od_outstanding_data od)
     \<and> od_last_cumulative_tsn_ack od' = od_last_cumulative_tsn_ack od
         + int (min (length (od_outstanding_data od)) (nat (cum - od_last_cumulative_tsn_ack od)))
     \<and> ai_highest_tsn_acked a' = ai_highest_tsn_acked a
     \<and> od_data_chunk_header_size od' = od_data_chunk_header_size od)"

lemma removed_to_pop:
  assumes "od_outstanding_data od = item # items" "od_last_cumulative_tsn_ack od < cum"
    and "od_last_cumulative_tsn_ack od1 = od_last_cumulative_tsn_ack od + 1" "od_outstanding_data od1 = items"
    and "od_data_chunk_header_size od1 = od_data_chunk_header_size od" "ai_highest_tsn_acked a1 = ai_highest_tsn_acked a"
    and "removed_to cum a1 od1 r"
  shows "removed_to cum a od r"
proof -
  let ?l = "od_last_cumulative_tsn_ack od"
  have n: "nat (cum - ?l) = Suc (nat (cum - (?l + 1)))" using assms(2) by simp
  show ?thesis
    using assms(1,3-) unfolding removed_to_def n by (auto split: prod.splits)
qed

lemma RemoveAcked_loop_returns:
  assumes "od_inv R n B od" "od_to_be_fast_retransmitted od = []" "cum \<le> ai_highest_tsn_acked a"
  shows "returns (RemoveAcked_loop cum a od) (\<lambda>r. od_inv R n B (snd r) \<and> removed_to cum a od r)"
  using assms
proof (induction "length (od_outstanding_data od)" arbitrary: od a)
  case 0
  then show ?case by (simp add: RemoveAcked_loop.simps removed_to_def)
next
  case (Suc m)
  let ?l = "od_last_cumulative_tsn_ack od"
  obtain item items where items: "od_outstanding_data od = item # items" using Suc.hyps(2) by (cases "od_outstanding_data od") auto
  show ?case
  proof (cases "?l < cum")
    case True
    have rest: "returns (bind_outcome (report_lifecycle (hd (od_outstanding_data (snd s1))) (fst s1)) (\<lambda>a2. RemoveAcked_loop cum a2
        (snd s1\<lparr>od_outstanding_data := tl (od_outstanding_data (snd s1)),
             od_last_cumulative_tsn_ack := next_value (od_last_cumulative_tsn_ack (snd s1))\<rparr>)))
      (\<lambda>r. od_inv R n B (snd r) \<and> removed_to cum a od r)"
      if s1: "od_inv R n B (snd s1)" "acked_at 0 od (snd s1)" "ai_highest_tsn_acked (fst s1) = ai_highest_tsn_acked a" for s1
    proof -
      have its: "od_outstanding_data (snd s1) = Item_Ack item # items" using s1(2) by (simp add: acked_at_def items)
      let ?p = "snd s1\<lparr>od_outstanding_data := items, od_last_cumulative_tsn_ack := od_last_cumulative_tsn_ack (snd s1) + 1\<rparr>"
      have p: "od_inv R n B ?p" by (rule pop_front_inv[OF s1(1) its]) simp
      have "returns (report_lifecycle (Item_Ack item) (fst s1)) (\<lambda>a2. ai_highest_tsn_acked a2 = ai_highest_tsn_acked a)"
        using report_lifecycle_returns[of R n "Item_Ack item" "fst s1"] s1(1,3) its by (simp add: od_inv_def)
      moreover have "returns (RemoveAcked_loop cum a2 ?p) (\<lambda>r. od_inv R n B (snd r) \<and> removed_to cum a od r)"
        if "ai_highest_tsn_acked a2 = ai_highest_tsn_acked a" for a2
        using Suc.hyps(1)[of ?p a2] p s1(2) Suc.hyps(2) Suc.prems(2,3) that removed_to_pop[OF items True, of ?p a2 a]
        by (auto simp: items acked_at_def elim!: returns_mono)
      ultimately show ?thesis
        unfolding returns_bind its list.sel next_value_def by (rule returns_mono)
    qed
    have "returns (AckChunk (?l + 1) 0 (a, od)) (\<lambda>s1. od_inv R n B (snd s1) \<and> acked_at 0 od (snd s1)
        \<and> ai_highest_tsn_acked (fst s1) = ai_highest_tsn_acked a)"
      using AckChunk_returns[OF Suc.prems(1,2), of 0 a] Suc.prems(3) True items by (auto elim!: returns_mono)
    then show ?thesis
      unfolding RemoveAcked_loop.simps[of cum a od] using True items rest
      by (simp add: next_value_def) (auto elim!: returns_mono)
  next
    case False
    then show ?thesis using Suc.prems by (simp add: RemoveAcked_loop.simps removed_to_def)
  qed
qed

text \<open>Exactly the items whose numbers are in \<open>S\<close> have been acknowledged.\<close>

definition acked_by :: "int set \<Rightarrow> OutstandingData \<Rightarrow> OutstandingData \<Rightarrow> bool" where
  "acked_by S od od' =
     (od_last_cumulative_tsn_ack od' = od_last_cumulative_tsn_ack od
      \<and> od_to_be_fast_retransmitted od' = od_to_be_fast_retransmitted od
      \<and> od_data_chunk_header_size od' = od_data_chunk_header_size od
      \<and> length (od_outstanding_data od') = length (od_outstanding_data od)
      \<and> (\<forall>i < length (od_outstanding_data od). od_outstanding_data od' ! i =
           (if tsn_at od i \<in> S then Item_Ack (od_outstanding_data od ! i) else od_outstanding_data od ! i)))"

lemma acked_by_refl [simp]: "acked_by {} od od"
  by (simp add: acked_by_def)

lemma Item_Ack_twice [simp]: "Item_Ack (Item_Ack item) = Item_Ack item"
  by (simp add: Item_Ack_def)

lemma acked_by_trans: "acked_by S od od1 \<Longrightarrow> acked_by T od1 od2 \<Longrightarrow> acked_by (S \<union> T) od od2"
  by (auto simp: acked_by_def)

lemma acked_at_by: "acked_at i od od' \<Longrightarrow> i < length (od_outstanding_data od) \<Longrightarrow> acked_by {tsn_at od i} od od'"
  by (simp add: acked_at_def acked_by_def nth_list_update)

lemma ack_in_range_returns:
  assumes "od_inv R n B od" "od_to_be_fast_retransmitted od = []"
  shows "returns (ack_in_range tsn (a, od)) (\<lambda>r. od_inv R n B (snd r) \<and> acked_by {tsn} od (snd r))"
proof (cases "tsn > od_last_cumulative_tsn_ack od \<and> tsn < next_tsn od")
  case True
  then obtain i where i: "i < length (od_outstanding_data od)" "tsn = tsn_at od i" using in_range_index by metis
  have "returns (AckChunk tsn i (a, od)) (\<lambda>r. od_inv R n B (snd r) \<and> acked_by {tsn} od (snd r))"
    unfolding i(2) using AckChunk_returns[OF assms i(1), of a] acked_at_by[OF _ i(1)] by (auto elim!: returns_mono)
  moreover have "GetItem tsn od = Value i"
    using GetItem_ok[OF od_inv_length[OF assms(1)] i(1)] i(2) by simp
  ultimately show ?thesis
    using True by (simp add: ack_in_range_def)
next
  case False
  then have "\<forall>i < length (od_outstanding_data od). tsn_at od i \<noteq> tsn" by (auto simp: next_tsn_eq)
  then show ?thesis
    using False assms(1) by (auto simp: ack_in_range_def acked_by_def)
qed

lemma fold_acked_by:
  assumes "\<And>x a od. x \<in> set xs \<Longrightarrow> od_inv R n B od \<Longrightarrow> od_to_be_fast_retransmitted od = [] \<Longrightarrow>
      returns (f x (a, od)) (\<lambda>r. od_inv R n B (snd r) \<and> acked_by (S x) od (snd r))"
    and "od_inv R n B od" "od_to_be_fast_retransmitted od = []"
  shows "returns (fold_outcome f xs (a, od)) (\<lambda>r. od_inv R n B (snd r) \<and> acked_by (\<Union>x \<in> set xs. S x) od (snd r))"
  using assms
proof (induction xs arbitrary: a od)
  case (Cons x xs)
  have "returns (f x (a, od)) (\<lambda>r. od_inv R n B (snd r) \<and> acked_by (S x) od (snd r))"
    using Cons.prems by simp
  then show ?case
  proof (simp, elim returns_mono, goal_cases)
    case (1 r)
    then have "od_to_be_fast_retransmitted (snd r) = []" using Cons.prems(3) by (simp add: acked_by_def)
    then have "returns (fold_outcome f xs (fst r, snd r)) (\<lambda>r'. od_inv R n B (snd r')
        \<and> acked_by (\<Union>x \<in> set xs. S x) (snd r) (snd r'))"
      using 1 Cons.prems(1) by (intro Cons.IH) simp_all
    then show ?case using 1 acked_by_trans by (auto elim!: returns_mono)
  qed
qed simp

text \<open>The numbers that the blocks of a SACK report as received.\<close>

definition reported :: "int \<Rightarrow> GapAckBlock list \<Rightarrow> int set" where
  "reported cum bs = (\<Union>b \<in> set bs. {cum + uint (gab_start b) .. cum + uint (gab_end b)})"

lemma AckGapBlocks_returns:
  assumes "od_inv R n B od" "od_to_be_fast_retransmitted od = []"
  shows "returns (AckGapBlocks cum bs (a, od)) (\<lambda>r. od_inv R n B (snd r) \<and> acked_by (reported cum bs) od (snd r))"
proof -
  have "returns (fold_outcome ack_in_range [x .. y] (a, od))
      (\<lambda>r. od_inv R n B (snd r) \<and> acked_by {x .. y} od (snd r))"
    if "od_inv R n B od" "od_to_be_fast_retransmitted od = []" for x y a od
    using fold_acked_by[of "[x .. y]" R n B ack_in_range "\<lambda>t. {t}" od a] that ack_in_range_returns by auto
  from fold_acked_by[of bs R n B "\<lambda>b. fold_outcome ack_in_range [cum + uint (gab_start b) .. cum + uint (gab_end b)]"
      "\<lambda>b. {cum + uint (gab_start b) .. cum + uint (gab_end b)}", OF this assms]
  show ?thesis by (simp add: AckGapBlocks_def AddTo_def reported_def)
qed

section \<open>Abandoning\<close>

definition same_message :: "Item \<Rightarrow> Item \<Rightarrow> bool" where
  "same_message item other =
     (d_stream_id (it_data other) = d_stream_id (it_data item) \<and> it_message_id other = it_message_id item)"

definition abandon_if :: "Item \<Rightarrow> Item \<Rightarrow> Item" where
  "abandon_if item other = (if same_message item other then other\<lparr>it_lifecycle := kAbandoned\<rparr> else other)"

lemma abandon_if_simps [simp]:
  "is_outstanding (abandon_if item other) = is_outstanding other" "is_acked (abandon_if item other) = is_acked other"
  "is_nacked (abandon_if item other) = is_nacked other" "it_data (abandon_if item other) = it_data other"
  "it_message_id (abandon_if item other) = it_message_id other" "reliable (abandon_if item other) = reliable other"
  "is_abandoned (abandon_if item other) = (is_abandoned other \<or> same_message item other)"
  "should_be_retransmitted (abandon_if item other) = (should_be_retransmitted other \<and> \<not> same_message item other)"
  "it_lifecycle_id (abandon_if item other) = it_lifecycle_id other"
  "it_num_retransmissions (abandon_if item other) = it_num_retransmissions other"
  "weight h (abandon_if item other) = weight h other" "in_flight (abandon_if item other) = in_flight other"
  by (auto simp: abandon_if_def item_states reliable_def weight_def in_flight_def)

lemma Item_Abandon_returns [simp]: "returns (Item_Abandon item) P = (\<not> reliable item \<and> P (item\<lparr>it_lifecycle := kAbandoned\<rparr>))"
  by (auto simp: Item_Abandon_def reliable_def)

text \<open>The numbers of the waiting items of the message, the first item having the number after \<open>tsn\<close>.\<close>

definition unmarked :: "Item \<Rightarrow> int \<Rightarrow> Item list \<Rightarrow> int set" where
  "unmarked item tsn items =
     {tsn + 1 + int i | i. i < length items \<and> should_be_retransmitted (items ! i) \<and> same_message item (items ! i)}"

lemma unmarked_Cons:
  "unmarked item tsn (other # others) =
     (if should_be_retransmitted other \<and> same_message item other then {tsn + 1} else {}) \<union> unmarked item (tsn + 1) others"
proof (rule set_eqI)
  fix t
  have u: "t \<in> unmarked item u xs \<longleftrightarrow>
      (\<exists>i < length xs. t = u + 1 + int i \<and> should_be_retransmitted (xs ! i) \<and> same_message item (xs ! i))" for u xs
    by (auto simp: unmarked_def)
  show "t \<in> unmarked item tsn (other # others) \<longleftrightarrow> t \<in>
     (if should_be_retransmitted other \<and> same_message item other then {tsn + 1} else {}) \<union> unmarked item (tsn + 1) others"
    unfolding u Un_iff length_Cons Ex_less_Suc2 by (auto simp: algebra_simps)
qed

definition same_sets :: "int set \<Rightarrow> int list \<times> int list \<Rightarrow> int list \<times> int list \<Rightarrow> bool" where
  "same_sets T s s' = (sorted_wrt (<) (fst s') \<and> sorted_wrt (<) (snd s')
     \<and> set (fst s') = set (fst s) - T \<and> set (snd s') = set (snd s) - T)"

lemma abandon_loop_returns:
  assumes "\<forall>other \<in> set items. same_message item other \<longrightarrow> \<not> reliable other"
    and "sorted_wrt (<) (fst s)" "sorted_wrt (<) (snd s)"
  shows "returns (abandon_loop item tsn items s)
    (\<lambda>(items', s'). items' = map (abandon_if item) items \<and> same_sets (unmarked item tsn items) s s')"
  using assms
proof (induction items arbitrary: tsn s)
  case Nil
  then show ?case by (simp add: same_sets_def unmarked_def)
next
  case (Cons other others)
  let ?m = "same_message item other"
  define s1 where "s1 = (if should_be_retransmitted other \<and> ?m then (remove1 (tsn + 1) (fst s), remove1 (tsn + 1) (snd s)) else s)"
  have IH: "returns (abandon_loop item (tsn + 1) others s1)
      (\<lambda>(items', s'). items' = map (abandon_if item) others \<and> same_sets (unmarked item (tsn + 1) others) s1 s')"
    using Cons.prems by (intro Cons.IH) (auto simp: s1_def)
  have sets: "same_sets (unmarked item tsn (other # others)) s s'" if "same_sets (unmarked item (tsn + 1) others) s1 s'" for s'
    using that Cons.prems(2,3) by (auto simp: same_sets_def unmarked_Cons s1_def set_remove1_sorted split: if_splits)
  have keep: "abandon_if item other = other" if "is_abandoned other \<or> \<not> ?m"
    using that by (cases other) (auto simp: abandon_if_def is_abandoned_def)
  have s1: "s1 = s" if "is_abandoned other \<or> \<not> ?m" using that by (auto simp: s1_def item_states)
  have "returns (abandon_loop item tsn (other # others) s) (\<lambda>(items', s'). items' = map (abandon_if item) (other # others)
      \<and> same_sets (unmarked item (tsn + 1) others) s1 s')"
  proof (cases "is_abandoned other \<or> \<not> ?m")
    case True
    then have "\<not> (\<not> is_abandoned other \<and> d_stream_id (it_data other) = d_stream_id (it_data item)
        \<and> it_message_id other = it_message_id item)" by (auto simp: same_message_def)
    then show ?thesis
      using IH keep[OF True] s1[OF True] by (simp add: next_value_def Let_def) (auto elim!: returns_mono)
  next
    case False
    then have "\<not> reliable other" using Cons.prems(1) by simp
    then show ?thesis
      using IH False by (simp add: next_value_def Let_def s1_def same_message_def abandon_if_def)
        (auto elim!: returns_mono)
  qed
  then show ?case using sets by (auto elim!: returns_mono)
qed

definition od_core :: "(u16 \<Rightarrow> u32 \<Rightarrow> bool) \<Rightarrow> nat \<Rightarrow> OutstandingData \<Rightarrow> bool" where
  "od_core R n od = (counts_ok od \<and> marks_ok od \<and> (\<forall>item \<in> set (od_outstanding_data od). item_ok R n item))"

lemma od_inv_core: "od_inv R n B od = (od_core R n od \<and> load od \<le> B \<and> B < 2 ^ 31)"
  by (auto simp: od_inv_def od_core_def)

definition placeholder :: "Item \<Rightarrow> Item" where
  "placeholder item = Item_Ack (new_item (it_message_id item) (message_end item) 0 0 PlusInfinity 0)"

lemma placeholder_simps [simp]:
  "\<not> is_outstanding (placeholder item)" "is_acked (placeholder item)" "\<not> should_be_retransmitted (placeholder item)"
  "\<not> is_abandoned (placeholder item)" "\<not> reliable (placeholder item)" "same_message item (placeholder item)"
  "it_lifecycle_id (placeholder item) = 0"
  by (simp_all add: placeholder_def new_item_def same_message_def message_end_def) (simp_all add: item_states reliable_def NoLimit_def)

lemma append_core:
  assumes "od_core R n od" "item_ok R n item" "\<not> should_be_retransmitted item"
    and od': "od' = od\<lparr>od_outstanding_data := od_outstanding_data od @ [item],
      od_unacked_bytes := od_unacked_bytes od + weight (od_data_chunk_header_size od) item,
      od_unacked_items := od_unacked_items od + in_flight item\<rparr>"
  shows "od_core R n od'"
proof -
  have "{tsn_at od' i | i. i < length (od_outstanding_data od') \<and> should_be_retransmitted (od_outstanding_data od' ! i)}
      = {tsn_at od i | i. i < length (od_outstanding_data od) \<and> should_be_retransmitted (od_outstanding_data od ! i)}"
    using assms(3) by (auto simp: od' nth_append split: if_splits)
  then have "marks_ok od'" using assms(1) by (simp add: od_core_def marks_ok_def pending_def od')
  then show ?thesis
    using assms by (simp add: od_core_def counts_ok_def od')
qed

lemma abandoned_core:
  assumes core: "od_core R n od"
    and od': "od' = od\<lparr>od_outstanding_data := map (abandon_if item) (od_outstanding_data od),
      od_to_be_fast_retransmitted := fst s, od_to_be_retransmitted := snd s\<rparr>"
    and sets: "same_sets (unmarked item (od_last_cumulative_tsn_ack od) (od_outstanding_data od))
      (od_to_be_fast_retransmitted od, od_to_be_retransmitted od) s"
  shows "od_core R n od'"
proof -
  let ?T = "unmarked item (od_last_cumulative_tsn_ack od) (od_outstanding_data od)"
  have "pending od' = pending od - ?T"
    using sets by (auto simp: pending_def od' same_sets_def)
  also have "\<dots> = {tsn_at od' i | i. i < length (od_outstanding_data od') \<and> should_be_retransmitted (od_outstanding_data od' ! i)}"
    using core by (auto simp: od_core_def marks_ok_def unmarked_def od')
  finally have "marks_ok od'"
    using core sets by (auto simp: od_core_def marks_ok_def same_sets_def od')
  moreover have "counts_ok od'"
    using core by (simp add: od_core_def counts_ok_def od' comp_def)
  moreover have "\<forall>x \<in> set (od_outstanding_data od'). item_ok R n x"
    using core by (auto simp: od_core_def od' item_ok_def)
  ultimately show ?thesis by (simp add: od_core_def)
qed

lemma load_abandon:
  fixes xs :: "Item list"
  shows "(\<Sum>x\<leftarrow>map (abandon_if item) xs. if is_abandoned x then 1 else 2)
      + (if \<exists>x \<in> set xs. same_message item x \<and> \<not> is_abandoned x then 1 else 0)
    \<le> (\<Sum>x\<leftarrow>xs. if is_abandoned x then 1 else (2 :: nat))"
  by (induction xs) (auto split: if_split_asm)

text \<open>What abandoning the message of \<open>item\<close> does.\<close>

definition abandoned_for :: "Item \<Rightarrow> OutstandingData \<Rightarrow> OutstandingData \<Rightarrow> bool" where
  "abandoned_for item od od' =
     (od_last_cumulative_tsn_ack od' = od_last_cumulative_tsn_ack od
      \<and> od_data_chunk_header_size od' = od_data_chunk_header_size od
      \<and> set (od_to_be_fast_retransmitted od') \<subseteq> set (od_to_be_fast_retransmitted od)
      \<and> (\<exists>ext. od_outstanding_data od' = map (abandon_if item) (od_outstanding_data od @ ext)
           \<and> (ext = [] \<or> ext = [placeholder item]))
      \<and> load od' + (if \<exists>x \<in> set (od_outstanding_data od). same_message item x \<and> \<not> is_abandoned x then 1 else 0)
           \<le> load od + 1)"

lemma AbandonAllFor_returns:
  assumes core: "od_core R n od" and R: "\<not> R (d_stream_id (it_data item)) (it_message_id item)"
  shows "returns (AbandonAllFor discard item (od, q)) (\<lambda>(od', q'). od_core R n od' \<and> abandoned_for item od od')"
proof -
  obtain d q' where d: "discard (d_stream_id (it_data item)) (it_message_id item) q = (d, q')" by fastforce
  define ext where "ext = (if d then [placeholder item] else [])"
  define od1 where "od1 = od\<lparr>od_outstanding_data := od_outstanding_data od @ ext\<rparr>"
  have p: "item_ok R n (placeholder item)"
    using R placeholder_simps(6)[of item] by (simp add: item_ok_def same_message_def)
  have core1: "od_core R n od1"
    using append_core[OF core p _ refl] core by (simp add: od1_def ext_def weight_def in_flight_def)
  have same: "same_message item x \<longrightarrow> \<not> reliable x" if "x \<in> set (od_outstanding_data od1)" for x
    using core1 that R by (auto simp: od_core_def item_ok_def same_message_def)
  let ?s = "(od_to_be_fast_retransmitted od1, od_to_be_retransmitted od1)"
  have loop: "returns (abandon_loop item (od_last_cumulative_tsn_ack od1) (od_outstanding_data od1) ?s)
    (\<lambda>(items', s'). items' = map (abandon_if item) (od_outstanding_data od1)
      \<and> same_sets (unmarked item (od_last_cumulative_tsn_ack od1) (od_outstanding_data od1)) ?s s')"
    using core1 same by (intro abandon_loop_returns) (auto simp: od_core_def marks_ok_def)
  have "od_core R n od' \<and> abandoned_for item od od'"
    if "od' = od1\<lparr>od_outstanding_data := map (abandon_if item) (od_outstanding_data od1),
        od_to_be_fast_retransmitted := fst s, od_to_be_retransmitted := snd s\<rparr>"
      and "same_sets (unmarked item (od_last_cumulative_tsn_ack od1) (od_outstanding_data od1)) ?s s" for od' s
  proof -
    have items: "od_outstanding_data od' = map (abandon_if item) (od_outstanding_data od @ ext)"
      by (simp add: that(1) od1_def)
    have "load od' \<le> (\<Sum>x\<leftarrow>map (abandon_if item) (od_outstanding_data od). if is_abandoned x then 1 else 2) + 1"
      by (simp add: load_def items ext_def)
    then show ?thesis
      using abandoned_core[OF core1 that] that load_abandon[of item "od_outstanding_data od"] items
      unfolding abandoned_for_def same_sets_def load_def[of od]
      by (intro conjI exI[of _ ext]) (auto simp: od1_def ext_def)
  qed
  moreover have "AbandonAllFor discard item (od, q) = bind_outcome
      (abandon_loop item (od_last_cumulative_tsn_ack od1) (od_outstanding_data od1) ?s) (\<lambda>(items, fast, retransmit).
        Value (od1\<lparr>od_outstanding_data := items, od_to_be_fast_retransmitted := fast, od_to_be_retransmitted := retransmit\<rparr>, q'))"
    by (simp add: AbandonAllFor_def d od1_def ext_def placeholder_def)
  ultimately show ?thesis using loop by (force elim!: returns_mono)
qed

end
