(* ===== verification/Outstanding_Safety.thy ===== *)
theory Outstanding_Safety
  imports Outstanding_Consistency Chunk_Validators
begin

text \<open>
  Every operation of \<open>tx/outstanding_data.cc\<close> keeps the invariant of the bookkeeping, and what a SACK
  acknowledges.
\<close>

section \<open>Missing chunks\<close>

definition nacked_only :: "int set \<Rightarrow> OutstandingData \<Rightarrow> OutstandingData \<Rightarrow> bool" where
  "nacked_only S od od' =
     (od_last_cumulative_tsn_ack od' = od_last_cumulative_tsn_ack od
      \<and> od_data_chunk_header_size od' = od_data_chunk_header_size od
      \<and> length (od_outstanding_data od) \<le> length (od_outstanding_data od')
      \<and> (\<forall>i < length (od_outstanding_data od). tsn_at od i \<notin> S \<longrightarrow>
           is_acked (od_outstanding_data od' ! i) = is_acked (od_outstanding_data od ! i))
      \<and> (\<forall>i < length (od_outstanding_data od). is_acked (od_outstanding_data od' ! i) \<longrightarrow>
           is_acked (od_outstanding_data od ! i)))"

lemma nacked_only_refl [simp]: "nacked_only S od od"
  by (auto simp: nacked_only_def)

lemma nacked_only_update:
  assumes "od_outstanding_data od' = (od_outstanding_data od)[i := item]" "i < length (od_outstanding_data od)"
    and "\<not> is_acked item" "od_last_cumulative_tsn_ack od' = od_last_cumulative_tsn_ack od"
    and "od_data_chunk_header_size od' = od_data_chunk_header_size od"
  shows "nacked_only {tsn_at od i} od od'"
  using assms by (auto simp: nacked_only_def nth_list_update)

lemma nacked_only_abandoned:
  assumes "nacked_only S od od1" "abandoned_for item od1 od'"
  shows "nacked_only S od od'"
proof -
  obtain ext where ext: "od_outstanding_data od' = map (abandon_if item) (od_outstanding_data od1 @ ext)"
    using assms(2) by (auto simp: abandoned_for_def)
  have "is_acked (od_outstanding_data od' ! i) = is_acked (od_outstanding_data od1 ! i)"
    if "i < length (od_outstanding_data od1)" for i
    using that by (simp add: ext nth_append)
  moreover have "length (od_outstanding_data od1) \<le> length (od_outstanding_data od')" by (simp add: ext)
  ultimately show ?thesis
    using assms by (simp add: nacked_only_def abandoned_for_def)
qed

lemma nacked_only_trans: "nacked_only S od od1 \<Longrightarrow> nacked_only T od1 od2 \<Longrightarrow> nacked_only (S \<union> T) od od2"
  by (simp add: nacked_only_def)

lemma nacked_only_mono: "nacked_only S od od' \<Longrightarrow> S \<subseteq> T \<Longrightarrow> nacked_only T od od'"
  by (auto simp: nacked_only_def)

lemma load_abandon_one:
  assumes "i < length xs" "\<not> is_abandoned (xs ! i)" "is_abandoned item"
  shows "Suc (\<Sum>x\<leftarrow>xs[i := item]. if is_abandoned x then 1 else 2) = (\<Sum>x\<leftarrow>xs. if is_abandoned x then 1 else (2 :: nat))"
  using assms by (induction xs arbitrary: i) (auto split: nat.splits)

text \<open>The state after the item at index \<open>i\<close> has been taken out of the count and replaced.\<close>

definition renewed :: "nat \<Rightarrow> Item \<Rightarrow> OutstandingData \<Rightarrow> OutstandingData" where
  "renewed i item od =
     (let old = od_outstanding_data od ! i in
      (if is_outstanding old
       then od\<lparr>od_unacked_bytes := od_unacked_bytes od - GetSerializedChunkSize od (it_data old),
               od_unacked_items := od_unacked_items od - 1\<rparr> else od)
      \<lparr>od_outstanding_data := (od_outstanding_data od)[i := item]\<rparr>)"

lemma renewed_simps [simp]:
  "od_outstanding_data (renewed i item od) = (od_outstanding_data od)[i := item]"
  "od_last_cumulative_tsn_ack (renewed i item od) = od_last_cumulative_tsn_ack od"
  "od_data_chunk_header_size (renewed i item od) = od_data_chunk_header_size od"
  "od_to_be_retransmitted (renewed i item od) = od_to_be_retransmitted od"
  "od_to_be_fast_retransmitted (renewed i item od) = od_to_be_fast_retransmitted od"
  "pending (renewed i item od) = pending od"
  "od_unacked_bytes (renewed i item od) = od_unacked_bytes od - weight (od_data_chunk_header_size od) (od_outstanding_data od ! i)"
  "od_unacked_items (renewed i item od) = od_unacked_items od - in_flight (od_outstanding_data od ! i)"
  by (auto simp: renewed_def Let_def weight_def in_flight_def pending_def GetSerializedChunkSize_def)

lemma renewed_inv:
  assumes inv: "od_inv R n B od" and i: "i < length (od_outstanding_data od)"
    and item: "item_ok R n item" "is_nacked item" "is_abandoned (od_outstanding_data od ! i) \<longrightarrow> is_abandoned item"
    and sets: "set r \<union> set f = pending od - {tsn_at od i} \<union> (if should_be_retransmitted item then {tsn_at od i} else {})"
      "sorted_wrt (<) r" "sorted_wrt (<) f" "set r \<inter> set f = {}"
  shows "od_inv R n B ((renewed i item od)\<lparr>od_to_be_retransmitted := r, od_to_be_fast_retransmitted := f\<rparr>)"
proof (rule item_update_inv[OF inv i item(1,3)])
  let ?od = "(renewed i item od)\<lparr>od_to_be_retransmitted := r, od_to_be_fast_retransmitted := f\<rparr>"
  show "pending ?od = pending od - {tsn_at od i} \<union> (if should_be_retransmitted item then {tsn_at od i} else {})"
    using sets(1) by (simp add: pending_def)
qed (use item(2) sets in \<open>simp_all add: weight_def in_flight_def item_states\<close>)

definition nack_result :: "Item \<Rightarrow> NackAction \<Rightarrow> Item \<Rightarrow> bool" where
  "nack_result item action item' =
     (is_nacked item' \<and> (is_abandoned item \<longrightarrow> is_abandoned item') \<and>
      (case action of
         kNothing \<Rightarrow> should_be_retransmitted item' = should_be_retransmitted item
       | kRetransmit \<Rightarrow> \<not> should_be_retransmitted item \<and> should_be_retransmitted item'
       | kAbandon \<Rightarrow> \<not> should_be_retransmitted item \<and> \<not> should_be_retransmitted item'
           \<and> \<not> is_abandoned item \<and> is_abandoned item' \<and> \<not> reliable item'))"

lemma Item_Nack_returns:
  assumes "item_ok R n item" "n < 65535"
  shows "returns (Item_Nack now item) (\<lambda>(action, item'). item_ok R n item' \<and> nack_result item action item')"
proof -
  have "it_num_retransmissions item < it_max_retransmissions item" if "reliable item"
    using assms that by (simp add: item_ok_def reliable_def NoLimit_def word_less_nat_alt)
  then show ?thesis
    using assms(1)
    by (auto simp: Item_Nack_def Let_def item_ok_def nack_result_def item_states reliable_def)
qed

lemma NackItem_renewed:
  assumes "od_inv R n B od" "i < length (od_outstanding_data od)"
  shows "NackItem discard (tsn_at od i) now fast (od, q) =
    bind_outcome (Item_Nack now (od_outstanding_data od ! i)) (\<lambda>(action, item').
      let od2 = renewed i item' od in
      case action of
        kNothing \<Rightarrow> Value (False, od2, q)
      | kRetransmit \<Rightarrow> Value (True,
          if fast then od2\<lparr>od_to_be_fast_retransmitted := sset_insert (tsn_at od i) (od_to_be_fast_retransmitted od2)\<rparr>
          else od2\<lparr>od_to_be_retransmitted := sset_insert (tsn_at od i) (od_to_be_retransmitted od2)\<rparr>, q)
      | kAbandon \<Rightarrow> bind_outcome (AbandonAllFor discard item' (od2, q)) (\<lambda>s. Value (True, s)))"
proof -
  have "GetItem (tsn_at od i) od = Value i" by (rule GetItem_ok[OF od_inv_length[OF assms(1)] assms(2)])
  then show ?thesis
    unfolding NackItem_def prod.case bind_outcome.simps Let_def
    by (simp only: bind_outcome.simps) (intro bind_outcome_cong refl, auto simp: renewed_def Let_def split: NackAction.splits)
qed

text \<open>Marking the item for one of the two sets of retransmissions.\<close>

lemma mark_inv:
  assumes inv: "od_inv R n B od" and i: "i < length (od_outstanding_data od)"
    and item: "item_ok R n item" "nack_result (od_outstanding_data od ! i) kRetransmit item"
  shows "od_inv R n B ((renewed i item od)\<lparr>od_to_be_fast_retransmitted := sset_insert (tsn_at od i) (od_to_be_fast_retransmitted od)\<rparr>)"
    and "od_inv R n B ((renewed i item od)\<lparr>od_to_be_retransmitted := sset_insert (tsn_at od i) (od_to_be_retransmitted od)\<rparr>)"
proof -
  let ?t = "tsn_at od i" and ?f = "od_to_be_fast_retransmitted od" and ?r = "od_to_be_retransmitted od"
  have marks: "sorted_wrt (<) ?r" "sorted_wrt (<) ?f" "set ?r \<inter> set ?f = {}" "?t \<notin> set ?r \<union> set ?f"
    using inv pending_index[OF inv i] item(2) by (simp_all add: od_inv_def marks_ok_def pending_def nack_result_def)
  have ok: "is_nacked item" "is_abandoned (od_outstanding_data od ! i) \<longrightarrow> is_abandoned item" "should_be_retransmitted item"
    using item(2) by (simp_all add: nack_result_def)
  have "od_inv R n B ((renewed i item od)\<lparr>od_to_be_retransmitted := ?r, od_to_be_fast_retransmitted := sset_insert ?t ?f\<rparr>)"
    using marks ok by (intro renewed_inv[OF inv i item(1)]) (auto simp: pending_def)
  moreover have "renewed i item od\<lparr>od_to_be_retransmitted := ?r\<rparr> = renewed i item od" by (simp add: renewed_def Let_def)
  ultimately show "od_inv R n B ((renewed i item od)\<lparr>od_to_be_fast_retransmitted := sset_insert ?t ?f\<rparr>)" by simp
  have "od_inv R n B ((renewed i item od)\<lparr>od_to_be_retransmitted := sset_insert ?t ?r, od_to_be_fast_retransmitted := ?f\<rparr>)"
    using marks ok by (intro renewed_inv[OF inv i item(1)]) (auto simp: pending_def)
  moreover have "(renewed i item od)\<lparr>od_to_be_retransmitted := sset_insert ?t ?r, od_to_be_fast_retransmitted := ?f\<rparr>
      = (renewed i item od)\<lparr>od_to_be_retransmitted := sset_insert ?t ?r\<rparr>" by (simp add: renewed_def Let_def)
  ultimately show "od_inv R n B ((renewed i item od)\<lparr>od_to_be_retransmitted := sset_insert ?t ?r\<rparr>)" by simp
qed

lemma unmark_inv:
  assumes inv: "od_inv R n B od" and i: "i < length (od_outstanding_data od)"
    and item: "item_ok R n item" "is_nacked item" "is_abandoned (od_outstanding_data od ! i) \<longrightarrow> is_abandoned item"
      "should_be_retransmitted item = should_be_retransmitted (od_outstanding_data od ! i)"
  shows "od_inv R n B (renewed i item od)"
proof -
  have "od_inv R n B ((renewed i item od)\<lparr>od_to_be_retransmitted := od_to_be_retransmitted od,
      od_to_be_fast_retransmitted := od_to_be_fast_retransmitted od\<rparr>)"
    using inv pending_index[OF inv i] item
    by (intro renewed_inv[OF inv i item(1-3)]) (auto simp: pending_def od_inv_def marks_ok_def)
  then show ?thesis by (cases "is_outstanding (od_outstanding_data od ! i)") (simp_all add: renewed_def Let_def)
qed

lemma NackItem_returns:
  assumes inv: "od_inv R n B od" and n: "n < 65535" and i: "i < length (od_outstanding_data od)"
  shows "returns (NackItem discard (tsn_at od i) now fast (od, q)) (\<lambda>(loss, od', q').
    od_inv R n B od' \<and> nacked_only {tsn_at od i} od od')"
proof -
  let ?item = "od_outstanding_data od ! i"
  have base: "nacked_only {tsn_at od i} od (renewed i item od)" if "is_nacked item" for item
    using that nacked_only_update[of "renewed i item od" od i item] i by (simp add: item_states)
  have abandon: "returns (AbandonAllFor discard item (renewed i item od, q)) (\<lambda>(od', q').
      od_inv R n B od' \<and> nacked_only {tsn_at od i} od od')"
    if item: "item_ok R n item" "nack_result ?item kAbandon item" for item
  proof -
    have inv2: "od_inv R n B (renewed i item od)"
      using item by (intro unmark_inv inv i) (simp_all add: nack_result_def)
    have "Suc (load (renewed i item od)) = load od"
      using item load_abandon_one[OF i, of item] by (simp add: load_def nack_result_def)
    then have bound: "abandoned_for item (renewed i item od) od' \<Longrightarrow> load od' \<le> B" for od'
      using inv by (auto simp: abandoned_for_def od_inv_def split: if_splits)
    have "\<not> R (d_stream_id (it_data item)) (it_message_id item)" using item by (simp add: item_ok_def nack_result_def)
    then have "returns (AbandonAllFor discard item (renewed i item od, q)) (\<lambda>(od', q').
        od_core R n od' \<and> abandoned_for item (renewed i item od) od')"
      using inv2 by (intro AbandonAllFor_returns) (simp add: od_inv_core)
    then show ?thesis
      using bound nacked_only_abandoned[OF base] item inv
      by (auto simp: od_inv_core nack_result_def elim!: returns_mono)
  qed
  show ?thesis
    unfolding NackItem_renewed[OF inv i] returns_bind
  proof (rule returns_mono[OF Item_Nack_returns[OF od_inv_item[OF inv i] n]], goal_cases)
    case (1 r)
    obtain action item where r: "r = (action, item)" by fastforce
    have ok: "item_ok R n item" "nack_result ?item action item" using 1 by (simp_all add: r)
    show ?case
    proof (cases action)
      case kNothing
      then have "od_inv R n B (renewed i item od)"
        using ok by (intro unmark_inv inv i) (simp_all add: nack_result_def)
      then show ?thesis using base[of item] ok kNothing by (simp add: r nack_result_def)
    next
      case kRetransmit
      then have "nacked_only {tsn_at od i} od (renewed i item od)" using base ok by (simp add: nack_result_def)
      then have "nacked_only {tsn_at od i} od ((renewed i item od)\<lparr>od_to_be_fast_retransmitted := f\<rparr>)"
        "nacked_only {tsn_at od i} od ((renewed i item od)\<lparr>od_to_be_retransmitted := f\<rparr>)" for f
        by (simp_all add: nacked_only_def)
      then show ?thesis using mark_inv[OF inv i ok(1)] ok(2) kRetransmit by (simp add: r Let_def)
    next
      case kAbandon
      then show ?thesis using abandon[OF ok(1)] ok(2) by (auto simp: r Let_def elim!: returns_mono)
    qed
  qed
qed

lemma nack_between_returns:
  assumes "od_inv R n B od" "n < 65535" "od_last_cumulative_tsn_ack od < tsn"
  shows "returns (nack_between discard fast cur mx tsn (loss, od, q)) (\<lambda>(loss', od', q').
    od_inv R n B od' \<and> nacked_only {tsn..<cur} od od')"
  using assms
proof (induction "nat (cur - tsn)" arbitrary: tsn loss od q)
  case 0
  then show ?case by (simp add: nack_between.simps[of _ _ _ _ tsn])
next
  case (Suc m)
  show ?case
  proof (cases "tsn < cur \<and> tsn \<le> mx \<and> tsn < next_tsn od")
    case True
    then obtain i where i: "i < length (od_outstanding_data od)" "tsn = tsn_at od i"
      using in_range_index Suc.prems(3) by metis
    have rest: "returns (nack_between discard fast cur mx (tsn + 1) (l, od1, q1)) (\<lambda>(loss', od', q').
        od_inv R n B od' \<and> nacked_only {tsn..<cur} od od')"
      if one: "od_inv R n B od1" "nacked_only {tsn} od od1" for l od1 q1
    proof -
      have "returns (nack_between discard fast cur mx (tsn + 1) (l, od1, q1)) (\<lambda>(loss', od', q').
          od_inv R n B od' \<and> nacked_only {tsn + 1..<cur} od1 od')"
        using Suc.hyps(2) Suc.prems(2,3) one by (intro Suc.hyps(1)) (auto simp: nacked_only_def)
      moreover have "nacked_only {tsn..<cur} od od'" if "nacked_only {tsn + 1..<cur} od1 od'" for od'
        using nacked_only_trans[OF one(2) that] True by (elim nacked_only_mono) auto
      ultimately show ?thesis by (auto elim!: returns_mono)
    qed
    show ?thesis
      unfolding nack_between.simps[of _ _ _ _ tsn] if_P[OF True] returns_bind next_value_def
      using NackItem_returns[OF Suc.prems(1,2) i(1), of discard False fast q, folded i(2)] rest
      by (auto elim!: returns_mono)
  next
    case False
    then show ?thesis using Suc.prems(1) unfolding nack_between.simps[of _ _ _ _ tsn] if_not_P[OF False] by simp
  qed
qed

text \<open>The numbers between the blocks of a SACK, after \<open>prev\<close>.\<close>

fun between :: "int \<Rightarrow> int \<Rightarrow> GapAckBlock list \<Rightarrow> int set" where
  "between cum prev [] = {}"
| "between cum prev (b # bs) = {prev<..<cum + uint (gab_start b)} \<union> between cum (cum + uint (gab_end b)) bs"

lemma nack_blocks_returns:
  assumes "od_inv R n B od" "n < 65535" "od_last_cumulative_tsn_ack od \<le> cum" "cum \<le> prev"
  shows "returns (nack_blocks discard fast cum mx prev bs (loss, od, q)) (\<lambda>(loss', od', q').
    od_inv R n B od' \<and> nacked_only (between cum prev bs) od od')"
  using assms
proof (induction bs arbitrary: prev loss od q)
  case (Cons b bs)
  have eq: "{prev + 1..<cum + uint (gab_start b)} = {prev<..<cum + uint (gab_start b)}" by auto
  have rest: "returns (nack_blocks discard fast cum mx (cum + uint (gab_end b)) bs (l, od1, q1)) (\<lambda>(loss', od', q').
      od_inv R n B od' \<and> nacked_only (between cum prev (b # bs)) od od')"
    if one: "od_inv R n B od1" "nacked_only {prev<..<cum + uint (gab_start b)} od od1" for l od1 q1
  proof -
    have "returns (nack_blocks discard fast cum mx (cum + uint (gab_end b)) bs (l, od1, q1)) (\<lambda>(loss', od', q').
        od_inv R n B od' \<and> nacked_only (between cum (cum + uint (gab_end b)) bs) od1 od')"
      using Cons.prems one by (intro Cons.IH) (auto simp: nacked_only_def)
    then show ?thesis using nacked_only_trans[OF one(2)] by (auto elim!: returns_mono)
  qed
  show ?case
    using nack_between_returns[OF Cons.prems(1,2), of "prev + 1" discard fast "cum + uint (gab_start b)" mx loss q]
      Cons.prems rest unfolding eq
    by (auto simp: AddTo_def next_value_def elim!: returns_mono)
qed simp

lemma between_reported:
  assumes "gaps_ok bs" "\<forall>b \<in> set bs. prev \<le> cum + uint (gab_start b)"
  shows "between cum prev bs \<inter> reported cum bs = {} \<and> (\<forall>t \<in> between cum prev bs. prev < t)"
  using assms
proof (induction bs arbitrary: prev)
  case (Cons b bs)
  have ok: "gaps_ok bs" "uint (gab_start b) \<le> uint (gab_end b)" "\<forall>c \<in> set bs. uint (gab_end b) < uint (gab_start c)"
    using Cons.prems(1) by (auto simp: gaps_ok_def blocks_ok_def)
  then have IH: "between cum (cum + uint (gab_end b)) bs \<inter> reported cum bs = {}"
      "\<forall>t \<in> between cum (cum + uint (gab_end b)) bs. cum + uint (gab_end b) < t"
    using Cons.IH[of "cum + uint (gab_end b)"] by fastforce+
  have above: "\<forall>t \<in> reported cum bs. cum + uint (gab_end b) < t"
    using ok(3) by (force simp: reported_def)
  have r: "reported cum (b # bs) = {cum + uint (gab_start b) .. cum + uint (gab_end b)} \<union> reported cum bs"
    by (simp add: reported_def)
  have "t \<notin> reported cum (b # bs) \<and> prev < t" if "t \<in> between cum prev (b # bs)" for t
  proof (cases "t \<in> {prev<..<cum + uint (gab_start b)}")
    case True
    then show ?thesis using above ok(2) by (auto simp: r)
  next
    case False
    then show ?thesis using that IH ok(2) Cons.prems(2) by (auto simp: r)
  qed
  then show ?case by blast
qed simp

section \<open>Handling a SACK\<close>

lemma RemoveAcked_returns:
  assumes "od_inv R n B od" "od_to_be_fast_retransmitted od = []"
  shows "returns (RemoveAcked cum (new_ack_info cum, od)) (\<lambda>r. od_inv R n B (snd r) \<and> removed_to cum (new_ack_info cum) od r)"
proof -
  have "od_inv R n B (od'\<lparr>od_stream_reset_breakpoint_tsns := t\<rparr>) = od_inv R n B od'" for od' t
    by (simp add: od_inv_def counts_ok_def marks_ok_def pending_def load_def)
  then show ?thesis
    using RemoveAcked_loop_returns[OF assms, of cum "new_ack_info cum"]
    by (auto simp: RemoveAcked_def new_ack_info_def removed_to_def elim!: returns_mono)
qed

definition sack_effect :: "int \<Rightarrow> GapAckBlock list \<Rightarrow> OutstandingData \<Rightarrow> OutstandingData \<Rightarrow> bool" where
  "sack_effect cum bs od od' =
     (let k = nat (cum - od_last_cumulative_tsn_ack od); l = length (od_outstanding_data od) in
      od_last_cumulative_tsn_ack od' = od_last_cumulative_tsn_ack od + int (min l k)
      \<and> l - k \<le> length (od_outstanding_data od')
      \<and> (\<forall>i. k \<le> i \<and> i < l \<longrightarrow>
           (tsn_at od i \<in> reported cum bs \<longrightarrow> is_acked (od_outstanding_data od' ! (i - k)))
           \<and> (tsn_at od i \<notin> reported cum bs \<and> is_acked (od_outstanding_data od' ! (i - k))
                \<longrightarrow> is_acked (od_outstanding_data od ! i))))"

lemma sack_effect_from_parts:
  assumes "removed_to cum a od (a1, od1)" "acked_by (reported cum bs) od1 od2"
    and "nacked_only (between cum cum bs) od2 od3" "gaps_ok bs"
    and "od_last_cumulative_tsn_ack od \<le> cum"
  shows "sack_effect cum bs od od3"
proof -
  let ?k = "nat (cum - od_last_cumulative_tsn_ack od)" and ?l = "length (od_outstanding_data od)"
  have disj: "between cum cum bs \<inter> reported cum bs = {}"
    using between_reported[OF assms(4), of cum cum] by simp
  have items1: "od_outstanding_data od1 = drop ?k (od_outstanding_data od)" using assms(1) by (simp add: removed_to_def)
  have len: "length (od_outstanding_data od2) = ?l - ?k" using assms(2) items1 by (simp add: acked_by_def)
  have "(tsn_at od i \<in> reported cum bs \<longrightarrow> is_acked (od_outstanding_data od3 ! (i - ?k)))
      \<and> (tsn_at od i \<notin> reported cum bs \<and> is_acked (od_outstanding_data od3 ! (i - ?k)) \<longrightarrow> is_acked (od_outstanding_data od ! i))"
    if i: "?k \<le> i" "i < ?l" for i
  proof -
    define j where "j = i - ?k"
    have j: "j < length (od_outstanding_data od2)" "j < length (od_outstanding_data od1)" "od_outstanding_data od1 ! j = od_outstanding_data od ! i"
      using i len by (simp_all add: j_def items1)
    have t: "tsn_at od2 j = tsn_at od i" "tsn_at od1 j = tsn_at od i"
      using i assms(1,2) by (simp_all add: removed_to_def acked_by_def j_def)
    have two: "od_outstanding_data od2 ! j =
        (if tsn_at od i \<in> reported cum bs then Item_Ack (od_outstanding_data od ! i) else od_outstanding_data od ! i)"
      using assms(2) j(2,3) unfolding acked_by_def t(2)[symmetric] by simp
    have "tsn_at od i \<in> reported cum bs \<longrightarrow> is_acked (od_outstanding_data od3 ! j) = is_acked (od_outstanding_data od2 ! j)"
      using assms(3) j(1) disj unfolding nacked_only_def t(1)[symmetric] by blast
    moreover have "is_acked (od_outstanding_data od3 ! j) \<longrightarrow> is_acked (od_outstanding_data od2 ! j)"
      using assms(3) j(1) by (simp add: nacked_only_def)
    ultimately show ?thesis using two unfolding j_def[symmetric] by (cases "tsn_at od i \<in> reported cum bs") simp_all
  qed
  moreover have "od_last_cumulative_tsn_ack od3 = od_last_cumulative_tsn_ack od + int (min ?l ?k)"
    using assms(1-3) by (simp add: removed_to_def acked_by_def nacked_only_def)
  moreover have "?l - ?k \<le> length (od_outstanding_data od3)" using assms(3) len by (simp add: nacked_only_def)
  ultimately show ?thesis by (simp add: sack_effect_def Let_def)
qed

lemma OD_HandleSack_returns:
  assumes inv: "od_inv R n B od" and n: "n < 65535" and fast: "od_to_be_fast_retransmitted od = []"
    and cum: "od_last_cumulative_tsn_ack od \<le> cum"
  shows "returns (OD_HandleSack discard cum bs rec (od, q)) (\<lambda>(a, od', q'). od_inv R n B od'
    \<and> (gaps_ok bs \<longrightarrow> sack_effect cum bs od od'))"
proof -
  have nack: "returns (NackBetweenAckBlocks discard cum bs rec (a2, od2, q)) (\<lambda>(a, od3, q').
      od_inv R n B od3 \<and> nacked_only (between cum cum bs) od2 od3)"
    if "od_inv R n B od2" "od_last_cumulative_tsn_ack od2 \<le> cum" for a2 od2
    unfolding NackBetweenAckBlocks_def prod.case Let_def returns_bind
    by (rule returns_mono[OF nack_blocks_returns[OF that(1) n that(2) order.refl]]) auto
  have step3: "returns (bind_outcome (NackBetweenAckBlocks discard cum bs rec (a2, od2, q)) (\<lambda>(a, od, q).
      bind_outcome (rtc_check (OD_IsConsistent od)) (\<lambda>_. Value (a, od, q)))) (\<lambda>(a, od', q'). od_inv R n B od'
      \<and> (gaps_ok bs \<longrightarrow> sack_effect cum bs od od'))"
    if two: "od_inv R n B od2" "acked_by (reported cum bs) od1 od2" and one: "removed_to cum a od (a1, od1)" for a a1 a2 od1 od2
  proof -
    have "od_last_cumulative_tsn_ack od2 \<le> cum"
      using two(2) one cum by (simp add: acked_by_def removed_to_def)
    moreover have "OD_IsConsistent od3" if "od_inv R n B od3" for od3 using that by (intro consistent) (simp_all add: od_inv_def)
    ultimately show ?thesis
      using nack[OF two(1), of a2] sack_effect_from_parts[OF one two(2) _ _ cum] by (auto elim!: returns_mono)
  qed
  have step2: "returns (bind_outcome (AckGapBlocks cum bs s) (\<lambda>(a, od).
      bind_outcome (NackBetweenAckBlocks discard cum bs rec (a, od, q)) (\<lambda>(a, od, q).
      bind_outcome (rtc_check (OD_IsConsistent od)) (\<lambda>_. Value (a, od, q))))) (\<lambda>(a, od', q'). od_inv R n B od'
      \<and> (gaps_ok bs \<longrightarrow> sack_effect cum bs od od'))"
    if one: "od_inv R n B (snd s)" "removed_to cum (new_ack_info cum) od s" for s
  proof -
    obtain a1 od1 where s: "s = (a1, od1)" by fastforce
    have "returns (AckGapBlocks cum bs (a1, od1)) (\<lambda>r. od_inv R n B (snd r) \<and> acked_by (reported cum bs) od1 (snd r))"
      using one by (intro AckGapBlocks_returns) (simp_all add: s removed_to_def)
    then show ?thesis
      unfolding s returns_bind[of "AckGapBlocks cum bs (a1, od1)"]
      using step3 one(2) by (auto simp: s simp del: returns_bind elim!: returns_mono)
  qed
  show ?thesis
    unfolding OD_HandleSack_def prod.case returns_bind[of "RemoveAcked cum (new_ack_info cum, od)"]
    using RemoveAcked_returns[OF inv fast, of cum] step2 by (auto simp del: returns_bind elim!: returns_mono)
qed

end
