(* ===== verification/Outstanding_Operations.thy ===== *)
theory Outstanding_Operations
  imports Outstanding_Safety
begin

text \<open>
  The remaining operations of \<open>tx/outstanding_data.cc\<close>: extracting chunks for retransmission,
  expiring, inserting and nacking everything; and the properties of the whole component.
\<close>

section \<open>Extracting chunks\<close>

definition marks_for :: "int set \<Rightarrow> OutstandingData \<Rightarrow> bool" where
  "marks_for P od =
     (P = {tsn_at od i | i. i < length (od_outstanding_data od) \<and> should_be_retransmitted (od_outstanding_data od ! i)})"

lemma marks_for_index:
  "marks_for P od \<Longrightarrow> i < length (od_outstanding_data od) \<Longrightarrow>
     tsn_at od i \<in> P \<longleftrightarrow> should_be_retransmitted (od_outstanding_data od ! i)"
  by (auto simp: marks_for_def)

lemma marks_ok_for:
  "marks_ok od = (marks_for (pending od) od \<and> sorted_wrt (<) (od_to_be_retransmitted od)
     \<and> sorted_wrt (<) (od_to_be_fast_retransmitted od)
     \<and> set (od_to_be_retransmitted od) \<inter> set (od_to_be_fast_retransmitted od) = {})"
  by (auto simp: marks_ok_def marks_for_def)

text \<open>
  While chunks are being extracted, the items still in line have been retransmitted at most \<open>n\<close> times,
  the others once more.
\<close>

definition extracting :: "(u16 \<Rightarrow> u32 \<Rightarrow> bool) \<Rightarrow> nat \<Rightarrow> nat \<Rightarrow> int list \<Rightarrow> int set \<Rightarrow> OutstandingData \<Rightarrow> bool" where
  "extracting R n B chunks P od =
     (counts_ok od \<and> marks_for P od \<and> set chunks \<subseteq> P \<and> distinct chunks \<and> load od \<le> B \<and> B < 2 ^ 31
      \<and> (\<forall>i < length (od_outstanding_data od).
           item_ok R (if tsn_at od i \<in> set chunks then n else Suc n) (od_outstanding_data od ! i)))"

definition same_frame :: "OutstandingData \<Rightarrow> OutstandingData \<Rightarrow> bool" where
  "same_frame od od' =
     (od_last_cumulative_tsn_ack od' = od_last_cumulative_tsn_ack od
      \<and> od_to_be_retransmitted od' = od_to_be_retransmitted od
      \<and> od_to_be_fast_retransmitted od' = od_to_be_fast_retransmitted od
      \<and> od_data_chunk_header_size od' = od_data_chunk_header_size od
      \<and> length (od_outstanding_data od') = length (od_outstanding_data od))"

lemma item_ok_mono: "item_ok R n item \<Longrightarrow> n \<le> m \<Longrightarrow> item_ok R m item"
  by (auto simp: item_ok_def)

lemma unat_inc_le: "unat (x + 1) \<le> Suc (unat (x :: u16))"
  using mod_less_eq_dividend[of "Suc (unat x)" "2 ^ 16"] by (simp add: unat_word_ariths)

lemma MarkAsRetransmitted_ok:
  assumes "item_ok R n item"
  shows "item_ok R (Suc n) (Item_MarkAsRetransmitted item)"
  using assms unat_inc_le[of "it_num_retransmissions item"]
  by (auto simp: item_ok_def Item_MarkAsRetransmitted_def item_states reliable_def)

text \<open>The state after the item at index \<open>i\<close> has been put back in flight.\<close>

definition resent :: "nat \<Rightarrow> OutstandingData \<Rightarrow> OutstandingData" where
  "resent i od =
     (let item = od_outstanding_data od ! i; serialized_size = GetSerializedChunkSize od (it_data item) in
      od\<lparr>od_outstanding_data := (od_outstanding_data od)[i := Item_MarkAsRetransmitted item],
         od_unacked_bytes := od_unacked_bytes od + serialized_size,
         od_unacked_items := od_unacked_items od + 1\<rparr>)"

lemma resent_frame: "same_frame od (resent i od)"
  by (simp add: same_frame_def resent_def Let_def)

lemma extracting_skip:
  assumes "extracting R n B (tsn # chunks) P od"
  shows "extracting R n B chunks P od"
proof -
  have "item_ok R (if tsn_at od i \<in> set chunks then n else Suc n) (od_outstanding_data od ! i)"
    if "i < length (od_outstanding_data od)" for i
  proof -
    have "item_ok R (if tsn_at od i \<in> set (tsn # chunks) then n else Suc n) (od_outstanding_data od ! i)"
      using assms that by (simp add: extracting_def)
    then show ?thesis by (rule item_ok_mono) simp
  qed
  then show ?thesis using assms by (simp add: extracting_def)
qed

lemma extracting_resent:
  assumes ex: "extracting R n B (tsn_at od i # chunks) P od" and i: "i < length (od_outstanding_data od)"
  shows "extracting R n B chunks (P - {tsn_at od i}) (resent i od)"
proof -
  let ?item = "od_outstanding_data od ! i" and ?t = "tsn_at od i"
  have item: "item_ok R n ?item" using ex i by (auto simp: extracting_def)
  have should: "should_be_retransmitted ?item"
    using ex marks_for_index[of P od i] i by (auto simp: extracting_def)
  then have st: "\<not> is_outstanding ?item" "\<not> is_abandoned ?item"
    using item by (auto simp: item_ok_def item_states)
  have out: "is_outstanding (Item_MarkAsRetransmitted ?item)" "\<not> should_be_retransmitted (Item_MarkAsRetransmitted ?item)"
    "it_data (Item_MarkAsRetransmitted ?item) = it_data ?item"
    by (simp_all add: Item_MarkAsRetransmitted_def item_states)
  have "counts_ok (resent i od)"
    using ex i st out by (simp add: extracting_def counts_ok_def resent_def Let_def sum_list_map_update weight_def
        in_flight_def GetSerializedChunkSize_def)
  moreover have "marks_for (P - {?t}) (resent i od)"
    using ex i out(2) by (auto simp: extracting_def marks_for_def resent_def Let_def nth_list_update)
  moreover have "load (resent i od) = load od"
  proof -
    have "\<not> is_abandoned (Item_MarkAsRetransmitted ?item)" by (simp add: Item_MarkAsRetransmitted_def item_states)
    then have "map (\<lambda>x. if is_abandoned x then 1 else (2 :: nat)) (od_outstanding_data (resent i od))
        = map (\<lambda>x. if is_abandoned x then 1 else 2) (od_outstanding_data od)"
      using st(2) i by (intro nth_equalityI) (auto simp: resent_def Let_def nth_list_update)
    then show ?thesis by (simp only: load_def)
  qed
  moreover have "item_ok R (if tsn_at od j \<in> set chunks then n else Suc n) (od_outstanding_data (resent i od) ! j)"
    if "j < length (od_outstanding_data od)" for j
  proof (cases "j = i")
    case True
    then show ?thesis
      using ex i MarkAsRetransmitted_ok[OF item] by (auto simp: extracting_def resent_def Let_def)
  next
    case False
    then show ?thesis
      using ex that by (auto simp: extracting_def resent_def Let_def split: if_splits)
  qed
  ultimately show ?thesis
    using ex by (auto simp: extracting_def resent_def Let_def)
qed

text \<open>What is left in line, and the state, after extracting.\<close>

definition extracted_ok ::
  "(u16 \<Rightarrow> u32 \<Rightarrow> bool) \<Rightarrow> nat \<Rightarrow> nat \<Rightarrow> int list \<Rightarrow> int set \<Rightarrow> OutstandingData
    \<Rightarrow> (u32 \<times> Data) list \<times> int list \<times> OutstandingData \<Rightarrow> bool" where
  "extracted_ok R n B chunks P od = (\<lambda>(extracted, left, od'). same_frame od od'
     \<and> extracting R n B [] (P - (set chunks - set left)) od'
     \<and> set left \<subseteq> set chunks \<and> (sorted_wrt (<) chunks \<longrightarrow> sorted_wrt (<) left))"

lemma extracted_okI:
  assumes "extracted_ok R n B chunks P1 od1 (e, l, od2)" "same_frame od od1" "t \<notin> set chunks"
    and "P1 = (if fits then P - {t} else P)"
  shows "extracted_ok R n B (t # chunks) P od (e', (if fits then [] else [t]) @ l, od2)"
  using assms by (auto simp: extracted_ok_def same_frame_def Diff_insert2[symmetric] insert_Diff_if
      intro: back_subst[of "\<lambda>Q. extracting R n B [] Q od2"])

lemma extracting_all: "extracting R n B chunks P od \<Longrightarrow> extracting R n B [] P od"
  by (induction chunks) (auto dest: extracting_skip)

lemma ExtractChunksThatCanFit_returns:
  "extracting R n B chunks P od \<Longrightarrow> returns (ExtractChunksThatCanFit chunks max_size od) (extracted_ok R n B chunks P od)"
proof (induction chunks arbitrary: max_size P od)
  case Nil
  then show ?case by (simp add: extracted_ok_def same_frame_def)
next
  case (Cons t chunks)
  obtain i where i: "i < length (od_outstanding_data od)" "t = tsn_at od i"
    using Cons.prems by (auto simp: extracting_def marks_for_def)
  let ?item = "od_outstanding_data od ! i" and ?s = "GetSerializedChunkSize od (it_data (od_outstanding_data od ! i))"
  define od1 where "od1 = (if ?s \<le> max_size then resent i od else od)"
  define P1 where "P1 = (if ?s \<le> max_size then P - {t} else P)"
  have "GetItem t od = Value i"
    using GetItem_ok[of od i] i Cons.prems length_le_load[of od] by (simp add: extracting_def)
  moreover have "fits_check ?item"
    using Cons.prems i marks_for_index[of P od i] by (auto simp: extracting_def fits_check_def item_ok_def item_states)
  ultimately have eq: "ExtractChunksThatCanFit (t # chunks) max_size od =
      (let extracted = (if ?s \<le> max_size then [(Wrap t, it_data ?item)] else []);
           left = (if ?s \<le> max_size then [] else [t]);
           max_size' = (if ?s \<le> max_size then max_size - ?s else max_size) in
       if max_size' \<le> od_data_chunk_header_size od then Value (extracted, left @ chunks, od1)
       else bind_outcome (ExtractChunksThatCanFit chunks max_size' od1) (\<lambda>(extracted', left', od'').
             Value (extracted @ extracted', left @ left', od'')))"
    by (simp add: od1_def resent_def Let_def rtc_check_def)
  have t: "t \<notin> set chunks" using Cons.prems by (simp add: extracting_def)
  have ex: "extracting R n B chunks P1 od1" and frame: "same_frame od od1"
    using Cons.prems extracting_resent[of R n B od i chunks P] extracting_skip[of R n B t chunks P od] i resent_frame
    by (auto simp: od1_def P1_def same_frame_def)
  have "extracted_ok R n B chunks P1 od1 ([], chunks, od1)"
    using extracting_all[OF ex] by (simp add: extracted_ok_def same_frame_def)
  note stop = extracted_okI[OF this frame t P1_def]
  have go: "returns (bind_outcome (ExtractChunksThatCanFit chunks m od1) (\<lambda>(e', l', od2).
      Value (e @ e', (if ?s \<le> max_size then [] else [t]) @ l', od2))) (extracted_ok R n B (t # chunks) P od)" for m e
    using Cons.IH[OF ex, of m] extracted_okI[OF _ frame t P1_def] by (auto elim!: returns_mono)
  show ?case
  proof (cases "(if ?s \<le> max_size then max_size - ?s else max_size) \<le> od_data_chunk_header_size od")
    case True
    show ?thesis unfolding eq Let_def if_P[OF True] returns_simps by (rule stop)
  next
    case False
    show ?thesis unfolding eq Let_def if_not_P[OF False] by (rule go)
  qed
qed

lemma od_inv_extracting:
  assumes "od_inv R n B od" "set chunks \<subseteq> pending od" "distinct chunks"
  shows "extracting R n B chunks (pending od) od"
  using assms by (auto simp: od_inv_def extracting_def marks_ok_for intro: item_ok_mono[of R n _ "Suc n"])

lemma extracted_inv:
  assumes "extracting R n B [] P od" "P = set r \<union> set f" "sorted_wrt (<) r" "sorted_wrt (<) f" "set r \<inter> set f = {}"
  shows "od_inv R (Suc n) B (od\<lparr>od_to_be_retransmitted := r, od_to_be_fast_retransmitted := f\<rparr>)"
  using assms by (auto simp: od_inv_def extracting_def marks_ok_for marks_for_def pending_def counts_ok_def load_def
      in_set_conv_nth)

lemma GetChunksToBeRetransmitted_returns:
  assumes inv: "od_inv R n B od" and fast: "od_to_be_fast_retransmitted od = []"
  shows "returns (GetChunksToBeRetransmitted max_size od) (\<lambda>(e, od'). od_inv R (Suc n) B od'
    \<and> od_to_be_fast_retransmitted od' = [] \<and> od_last_cumulative_tsn_ack od' = od_last_cumulative_tsn_ack od)"
proof -
  let ?r = "od_to_be_retransmitted od"
  have srt: "sorted_wrt (<) ?r" using inv by (simp add: od_inv_def marks_ok_def)
  have "returns (ExtractChunksThatCanFit ?r max_size od) (extracted_ok R n B ?r (pending od) od)"
    using inv srt by (intro ExtractChunksThatCanFit_returns od_inv_extracting) (auto simp: pending_def strict_sorted_iff)
  moreover have "od_inv R (Suc n) B (od'\<lparr>od_to_be_retransmitted := left\<rparr>) \<and> od_to_be_fast_retransmitted od' = []
      \<and> od_last_cumulative_tsn_ack od' = od_last_cumulative_tsn_ack od"
    if ok: "extracted_ok R n B ?r (pending od) od (e, left, od')" for e left od'
  proof -
    have "pending od - (set ?r - set left) = set left \<union> set []"
      using ok fast by (auto simp: extracted_ok_def pending_def)
    then have "od_inv R (Suc n) B (od'\<lparr>od_to_be_retransmitted := left, od_to_be_fast_retransmitted := []\<rparr>)"
      using ok srt by (intro extracted_inv[of R n B "pending od - (set ?r - set left)"]) (auto simp: extracted_ok_def)
    moreover have "od'\<lparr>od_to_be_retransmitted := left, od_to_be_fast_retransmitted := []\<rparr> = od'\<lparr>od_to_be_retransmitted := left\<rparr>"
      using ok fast by (simp add: extracted_ok_def same_frame_def)
    ultimately show ?thesis using ok fast by (simp add: extracted_ok_def same_frame_def)
  qed
  ultimately show ?thesis
    using fast by (auto simp: GetChunksToBeRetransmitted_def elim!: returns_mono)
qed

lemma GetChunksToBeFastRetransmitted_returns:
  assumes inv: "od_inv R n B od"
  shows "returns (GetChunksToBeFastRetransmitted max_size od) (\<lambda>(e, od'). od_inv R (Suc n) B od'
    \<and> od_to_be_fast_retransmitted od' = [] \<and> od_last_cumulative_tsn_ack od' = od_last_cumulative_tsn_ack od)"
proof -
  let ?f = "od_to_be_fast_retransmitted od" and ?r = "od_to_be_retransmitted od"
  have srt: "sorted_wrt (<) ?f" "sorted_wrt (<) ?r" "set ?r \<inter> set ?f = {}" using inv by (simp_all add: od_inv_def marks_ok_def)
  have ex: "returns (ExtractChunksThatCanFit ?f max_size od) (extracted_ok R n B ?f (pending od) od)"
    using inv srt by (intro ExtractChunksThatCanFit_returns od_inv_extracting) (auto simp: pending_def strict_sorted_iff)
  have fin: "od_inv R (Suc n) B (od'\<lparr>od_to_be_retransmitted := fold sset_insert left ?r, od_to_be_fast_retransmitted := []\<rparr>)
      \<and> od_to_be_retransmitted od' = ?r \<and> od_last_cumulative_tsn_ack od' = od_last_cumulative_tsn_ack od"
    if ok: "extracted_ok R n B ?f (pending od) od (e, left, od')" for e left od'
  proof -
    have fold: "sorted_wrt (<) (fold sset_insert left ?r)" "set (fold sset_insert left ?r) = set left \<union> set ?r"
      using fold_sset_insert[OF srt(2), of left] by simp_all
    have "pending od - (set ?f - set left) = set (fold sset_insert left ?r) \<union> set []"
      using ok srt(3) by (auto simp: extracted_ok_def pending_def fold)
    then show ?thesis
      using ok fold(1) by (intro conjI extracted_inv[of R n B "pending od - (set ?f - set left)"])
        (auto simp: extracted_ok_def same_frame_def)
  qed
  have cons: "OD_IsConsistent od'" if "od_inv R (Suc n) B od'" for od'
    using that by (intro consistent) (simp_all add: od_inv_def)
  have eq: "(let od2 = od'\<lparr>od_to_be_fast_retransmitted := left\<rparr> in if left \<noteq> []
      then od2\<lparr>od_to_be_retransmitted := fold sset_insert left (od_to_be_retransmitted od2), od_to_be_fast_retransmitted := []\<rparr>
      else od2) = od'\<lparr>od_to_be_retransmitted := fold sset_insert left ?r, od_to_be_fast_retransmitted := []\<rparr>"
    if "od_to_be_retransmitted od' = ?r" for od' left
    using that by (cases left) (simp_all add: Let_def)
  show ?thesis
    unfolding GetChunksToBeFastRetransmitted_def returns_bind
  proof (rule returns_mono[OF ex], goal_cases)
    case (1 r)
    obtain e left od' where r: "r = (e, left, od')" by (metis prod_cases3)
    note f = fin[OF 1(2)[unfolded r]]
    have e: "od_to_be_retransmitted od' = ?r" using f by simp
    show ?case
      unfolding r prod.case Let_def eq[OF e, unfolded Let_def] using f cons by simp
  qed
qed

section \<open>Expiring, inserting and nacking\<close>

lemma AbandonAllFor_listed:
  assumes inv: "od_inv R n B od" and item: "item \<in> set (od_outstanding_data od)" "\<not> is_abandoned item" "\<not> reliable item"
  shows "returns (AbandonAllFor discard item (od, q)) (\<lambda>(od', q'). od_inv R n B od'
    \<and> od_last_cumulative_tsn_ack od' = od_last_cumulative_tsn_ack od
    \<and> length (od_outstanding_data od) \<le> length (od_outstanding_data od'))"
proof -
  have "\<not> R (d_stream_id (it_data item)) (it_message_id item)"
    using inv item by (auto simp: od_inv_def item_ok_def)
  moreover have "same_message item item" by (simp add: same_message_def)
  ultimately show ?thesis
    using AbandonAllFor_returns[of R n od item discard q] inv item
    by (auto simp: od_inv_core abandoned_for_def elim!: returns_mono split: if_splits)
qed

lemma expire_loop_returns:
  assumes "od_inv R n B od" "\<forall>i \<in> set idx. i < length (od_outstanding_data od)" "now < PlusInfinity"
  shows "returns (expire_loop discard now idx (od, q)) (\<lambda>(od', q'). od_inv R n B od'
    \<and> od_last_cumulative_tsn_ack od' = od_last_cumulative_tsn_ack od)"
  using assms
proof (induction idx arbitrary: od q)
  case (Cons i idx)
  let ?item = "od_outstanding_data od ! i"
  have "returns (bind_outcome (AbandonAllFor discard ?item (od, q)) (expire_loop discard now idx)) (\<lambda>(od', q').
      od_inv R n B od' \<and> od_last_cumulative_tsn_ack od' = od_last_cumulative_tsn_ack od)"
    if "\<not> is_abandoned ?item" "has_expired now ?item"
  proof -
    have "\<not> reliable ?item" using that(2) Cons.prems(3) by (simp add: has_expired_def reliable_def)
    then have "returns (AbandonAllFor discard ?item (od, q)) (\<lambda>(od', q'). od_inv R n B od'
        \<and> od_last_cumulative_tsn_ack od' = od_last_cumulative_tsn_ack od
        \<and> length (od_outstanding_data od) \<le> length (od_outstanding_data od'))"
      using Cons.prems that(1) by (intro AbandonAllFor_listed) simp_all
    then show ?thesis
    proof (simp, elim returns_mono, goal_cases)
      case (1 r)
      then have "\<forall>i \<in> set idx. i < length (od_outstanding_data (fst r))" using Cons.prems(2) by fastforce
      then show ?case using Cons.IH[of "fst r" "snd r"] Cons.prems(3) 1 by (auto elim!: returns_mono)
    qed
  qed
  then show ?case using Cons.IH[of od q] Cons.prems by (auto simp: Let_def)
qed simp

lemma consistent_inv: "od_inv R n B od \<Longrightarrow> OD_IsConsistent od"
  by (intro consistent) (simp_all add: od_inv_def)

lemma ExpireOutstandingChunks_returns:
  assumes "od_inv R n B od" "now < PlusInfinity"
  shows "returns (ExpireOutstandingChunks discard now (od, q)) (\<lambda>(od', q'). od_inv R n B od')"
  using expire_loop_returns[OF assms(1) _ assms(2), of "[0..<length (od_outstanding_data od)]" discard q]
  by (auto simp: ExpireOutstandingChunks_def consistent_inv elim!: returns_mono)

definition insert_ok :: "(u16 \<Rightarrow> u32 \<Rightarrow> bool) \<Rightarrow> u32 \<Rightarrow> Data \<Rightarrow> Timestamp \<Rightarrow> u16 \<Rightarrow> Timestamp \<Rightarrow> u64 \<Rightarrow> bool" where
  "insert_ok R message_id data time_sent max_retransmissions expires_at lifecycle_id =
     (time_sent < PlusInfinity \<and> (lifecycle_id \<noteq> 0 \<longrightarrow> d_is_end data)
      \<and> R (d_stream_id data) message_id = (expires_at = PlusInfinity \<and> max_retransmissions = NoLimit))"

lemma OD_Insert_returns:
  assumes inv: "od_inv R n B od" and ok: "insert_ok R mid d t mr ex lc" and B: "B + 3 < 2 ^ 31"
  shows "returns (OD_Insert discard mid d t mr ex lc (od, q)) (\<lambda>(r, od', q'). od_inv R n (B + 3) od')"
proof -
  define item where "item = new_item mid d t mr ex lc"
  define od1 where "od1 = od\<lparr>od_outstanding_data := od_outstanding_data od @ [item],
      od_unacked_bytes := od_unacked_bytes od + weight (od_data_chunk_header_size od) item,
      od_unacked_items := od_unacked_items od + in_flight item\<rparr>"
  have item: "is_outstanding item" "\<not> should_be_retransmitted item" "\<not> is_abandoned item" "it_data item = d"
    "it_message_id item = mid" "reliable item = R (d_stream_id d) mid" "item_ok R n item"
    using ok by (auto simp: item_def new_item_def item_states reliable_def insert_ok_def item_ok_def)
  have core: "od_core R n od1"
    using inv by (intro append_core[OF _ item(7,2) od1_def]) (simp add: od_inv_core)
  have load1: "load od1 = load od + 2" using item(3) by (simp add: od1_def load_def)
  have inv1: "od_inv R n (B + 3) od1" using inv core load1 B by (simp add: od_inv_core)
  have "returns (AbandonAllFor discard item (od1, q)) (\<lambda>(od', q'). od_inv R n (B + 3) od')" if "has_expired t item"
  proof -
    have "\<not> R (d_stream_id d) mid"
      using that ok by (auto simp: has_expired_def item_def new_item_def insert_ok_def)
    then have "returns (AbandonAllFor discard item (od1, q)) (\<lambda>(od', q'). od_core R n od' \<and> abandoned_for item od1 od')"
      using core item(4,5) by (intro AbandonAllFor_returns) simp_all
    then show ?thesis
      using load1 inv B by (auto simp: od_inv_core abandoned_for_def elim!: returns_mono split: if_splits)
  qed
  moreover have "od\<lparr>od_unacked_bytes := od_unacked_bytes od + GetSerializedChunkSize od d,
      od_unacked_items := od_unacked_items od + 1, od_outstanding_data := od_outstanding_data od @ [item]\<rparr> = od1"
    using item(1,4) by (cases od) (simp add: od1_def weight_def in_flight_def GetSerializedChunkSize_def)
  then have "OD_Insert discard mid d t mr ex lc (od, q) =
      (if has_expired t item
       then bind_outcome (AbandonAllFor discard item (od1, q)) (\<lambda>(od2, q2).
            bind_outcome (rtc_check (OD_IsConsistent od2)) (\<lambda>_. Value (None, od2, q2)))
       else bind_outcome (rtc_check (OD_IsConsistent od1)) (\<lambda>_. Value (Some (next_tsn od), od1, q)))"
    by (simp add: OD_Insert_def Let_def item_def[symmetric])
  ultimately show ?thesis
    using inv1 consistent_inv by (auto elim!: returns_mono)
qed

lemma NackAll_returns:
  assumes inv: "od_inv R n B od" and n: "n < 65535"
  shows "returns (NackAll discard (od, q)) (\<lambda>(od', q'). od_inv R n B od')"
proof -
  let ?P = "\<lambda>(od', q' :: 'a). od_inv R n B od' \<and> nacked_only UNIV od od'"
  let ?ts = "map fst (filter (\<lambda>(tsn, item). \<not> is_acked item) (numbered od))"
  have "returns (fold_outcome (\<lambda>tsn s. bind_outcome (NackItem discard tsn True False s) (\<lambda>(nacked, s'). Value s')) ?ts (od, q)) ?P"
  proof (rule fold_outcome_returns)
    show "?P (od, q)" using inv by simp
    fix tsn and s :: "OutstandingData \<times> 'a"
    assume t: "tsn \<in> set ?ts" and s: "?P s"
    obtain od1 q1 where s1: "s = (od1, q1)" by fastforce
    obtain i where i: "i < length (od_outstanding_data od)" "tsn = tsn_at od i" using t by (auto simp: set_numbered)
    then have i1: "i < length (od_outstanding_data od1)" "tsn = tsn_at od1 i" using s by (auto simp: s1 nacked_only_def)
    have "returns (NackItem discard tsn True False (od1, q1)) (\<lambda>(nacked, s'). ?P s')"
      using NackItem_returns[OF _ n i1(1), of R B discard True False q1] s nacked_only_trans[of UNIV od od1]
      by (fastforce simp: s1 i1(2)[symmetric] elim!: returns_mono)
    then show "returns (bind_outcome (NackItem discard tsn True False s) (\<lambda>(nacked, s'). Value s')) ?P"
      by (auto simp: s1 elim!: returns_mono)
  qed
  then show ?thesis
    by (auto simp: NackAll_def Let_def consistent_inv elim!: returns_mono)
qed

section \<open>Sequences of operations\<close>

datatype OdOp =
    OdSack int "GapAckBlock list" bool
  | OdFastRetransmit u64
  | OdRetransmit u64
  | OdExpire Timestamp
  | OdInsert u32 Data Timestamp u16 Timestamp u64
  | OdNackAll
  | OdBeginReset

text \<open>
  One call, or \<open>Nullopt\<close> where the caller breaks the contract: a SACK must not move the cumulative
  number back and, like a normal retransmission, must not come before pending fast retransmissions
  have been sent; clocks are finite; the parts of a message agree on whether it is reliable, and only
  its last part carries a lifecycle identifier.
\<close>

fun od_step ::
  "(u16 \<Rightarrow> u32 \<Rightarrow> bool) \<Rightarrow> (u16 \<Rightarrow> u32 \<Rightarrow> 'q \<Rightarrow> bool \<times> 'q) \<Rightarrow> OdOp \<Rightarrow> OutstandingData \<times> 'q \<Rightarrow> (OutstandingData \<times> 'q) outcome" where
  "od_step R discard (OdSack cum bs rec) (od, q) =
     bind_outcome (guard_opt (od_last_cumulative_tsn_ack od \<le> cum \<and> od_to_be_fast_retransmitted od = [])) (\<lambda>_.
     bind_outcome (OD_HandleSack discard cum bs rec (od, q)) (\<lambda>(a, s). Value s))"
| "od_step R discard (OdFastRetransmit max_size) (od, q) =
     bind_outcome (GetChunksToBeFastRetransmitted max_size od) (\<lambda>(e, od'). Value (od', q))"
| "od_step R discard (OdRetransmit max_size) (od, q) =
     bind_outcome (guard_opt (od_to_be_fast_retransmitted od = [])) (\<lambda>_.
     bind_outcome (GetChunksToBeRetransmitted max_size od) (\<lambda>(e, od'). Value (od', q)))"
| "od_step R discard (OdExpire now) (od, q) =
     bind_outcome (guard_opt (now < PlusInfinity)) (\<lambda>_. ExpireOutstandingChunks discard now (od, q))"
| "od_step R discard (OdInsert mid data t mr ex lc) (od, q) =
     bind_outcome (guard_opt (insert_ok R mid data t mr ex lc)) (\<lambda>_.
     bind_outcome (OD_Insert discard mid data t mr ex lc (od, q)) (\<lambda>(r, s). Value s))"
| "od_step R discard OdNackAll (od, q) = NackAll discard (od, q)"
| "od_step R discard OdBeginReset (od, q) = Value (OD_BeginResetStreams od, q)"

fun is_retransmit :: "OdOp \<Rightarrow> bool" where
  "is_retransmit (OdFastRetransmit _) = True"
| "is_retransmit (OdRetransmit _) = True"
| "is_retransmit _ = False"

fun is_insert :: "OdOp \<Rightarrow> bool" where
  "is_insert (OdInsert _ _ _ _ _ _) = True"
| "is_insert _ = False"

lemma od_step_safe:
  assumes inv: "od_inv R n B od" and n: "n < 65535" and B: "B + 3 < 2 ^ 31"
  shows "safe (od_step R discard op (od, q)) (\<lambda>(od', q').
    od_inv R (n + (if is_retransmit op then 1 else 0)) (B + (if is_insert op then 3 else 0)) od')"
proof (cases op)
  case (OdSack cum bs rec)
  then show ?thesis
    using OD_HandleSack_returns[OF inv n, of cum discard bs rec q] by (auto intro!: returns_safe elim!: returns_mono)
next
  case (OdFastRetransmit m)
  then show ?thesis
    using GetChunksToBeFastRetransmitted_returns[OF inv, of m] by (auto intro!: returns_safe elim!: returns_mono)
next
  case (OdRetransmit m)
  then show ?thesis
    using GetChunksToBeRetransmitted_returns[OF inv, of m] by (auto intro!: returns_safe elim!: returns_mono)
next
  case (OdExpire now)
  then show ?thesis
    using ExpireOutstandingChunks_returns[OF inv, of now discard q] by (auto intro!: returns_safe elim!: returns_mono)
next
  case (OdInsert mid d t mr ex lc)
  then show ?thesis
    using OD_Insert_returns[OF inv _ B, of mid d t mr ex lc discard q] by (auto intro!: returns_safe elim!: returns_mono)
next
  case OdNackAll
  then show ?thesis
    using NackAll_returns[OF inv n, of discard q] by (auto intro!: returns_safe elim!: returns_mono)
next
  case OdBeginReset
  then show ?thesis
    using inv by (simp add: safe_def OD_BeginResetStreams_def od_inv_def counts_ok_def marks_ok_def pending_def load_def)
qed

abbreviation od_run ::
  "(u16 \<Rightarrow> u32 \<Rightarrow> bool) \<Rightarrow> (u16 \<Rightarrow> u32 \<Rightarrow> 'q \<Rightarrow> bool \<times> 'q) \<Rightarrow> OdOp list \<Rightarrow> OutstandingData \<times> 'q \<Rightarrow> (OutstandingData \<times> 'q) outcome" where
  "od_run R discard ops s \<equiv> fold_outcome (od_step R discard) ops s"

lemma od_run_safe:
  assumes "od_inv R n B od" "n + length (filter is_retransmit ops) < 65535"
    and "B + 3 * length (filter is_insert ops) + 3 < 2 ^ 31"
  shows "safe (od_run R discard ops (od, q)) (\<lambda>(od', q').
    od_inv R (n + length (filter is_retransmit ops)) (B + 3 * length (filter is_insert ops)) od')"
  using assms
proof (induction ops arbitrary: n B od q)
  case Nil
  then show ?case by (simp add: safe_def)
next
  case (Cons op ops)
  have "safe (od_step R discard op (od, q)) (\<lambda>(od', q').
      od_inv R (n + (if is_retransmit op then 1 else 0)) (B + (if is_insert op then 3 else 0)) od')"
    using Cons.prems by (intro od_step_safe) (auto split: if_splits)
  then show ?case
    unfolding fold_outcome.simps
  proof (rule safe_bind, goal_cases)
    case (1 s)
    obtain od1 q1 where s: "s = (od1, q1)" by fastforce
    show ?case
      using Cons.IH[of "n + (if is_retransmit op then 1 else 0)" "B + (if is_insert op then 3 else 0)" od1 q1] Cons.prems 1
      by (cases "is_retransmit op"; cases "is_insert op") (simp_all add: s algebra_simps)
  qed
qed

lemma new_outstanding_inv: "od_inv R 0 0 (new_outstanding_data h l)"
  by (simp add: od_inv_def new_outstanding_data_def counts_ok_def marks_ok_def pending_def load_def)

section \<open>Properties\<close>

text \<open>One chunk in flight.\<close>

definition sample_data :: Data where
  "sample_data = \<lparr>d_stream_id = 1, d_ssn = 0, d_mid = 0, d_fsn = 0, d_ppid = 53, d_payload = [1, 2, 3],
     d_is_beginning = True, d_is_end = True, d_is_unordered = False\<rparr>"

definition sample_state :: OutstandingData where
  "sample_state = (new_outstanding_data 16 9)
     \<lparr>od_outstanding_data := [new_item 7 sample_data 0 NoLimit PlusInfinity 0], od_unacked_bytes := 20, od_unacked_items := 1\<rparr>"

lemma sample_run:
  "od_run (\<lambda>_ _. True) (\<lambda>_ _ q. (False, q)) [OdInsert 7 sample_data 0 NoLimit PlusInfinity 0] (new_outstanding_data 16 9, ())
     = Value (sample_state, ())"
  by (simp add: sample_state_def sample_data_def insert_ok_def PlusInfinity_def guard_opt_def OD_Insert_def Let_def
      has_expired_def new_item_def new_outstanding_data_def GetSerializedChunkSize_def RoundUpTo4_def Data_size_def
      rtc_check_def OD_IsConsistent_def numbered_def item_states)



text \<open>
  C30.  A SACK acknowledges exactly what it reports.  In every state that the calls above can reach, a
  SACK that does not move the cumulative number back, and whose blocks have been through the
  repair of \<open>ChunkValidators::Clean\<close>, is handled without a failed check; afterwards every chunk up to the
  cumulative number is gone, every remaining chunk that a block reports is acknowledged, and no other
  chunk is acknowledged that was not acknowledged before.
\<close>

theorem sack_acknowledges_reported:
  assumes "od_run R discard ops (new_outstanding_data header tsn, q) = Value (od, q')"
    and "length (filter is_retransmit ops) < 65535" "3 * length (filter is_insert ops) + 3 < 2 ^ 31"
    and "od_to_be_fast_retransmitted od = []" "od_last_cumulative_tsn_ack od \<le> cum"
  shows "\<exists>a od1 q1. OD_HandleSack discard cum (Clean_blocks raw) rec (od, q') = Value (a, od1, q1)
    \<and> sack_effect cum (Clean_blocks raw) od od1"
proof -
  have inv: "od_inv R (length (filter is_retransmit ops)) (3 * length (filter is_insert ops)) od"
    using od_run_safe[OF new_outstanding_inv[of R header tsn], of ops discard q] assms(1-3) by (simp add: safe_def)
  have "gaps_ok (Clean_blocks raw)"
    using clean_main[of raw] Validate_loop_ok[of 0 raw] by (cases "Validate_blocks raw")
      (auto simp: Clean_blocks_def Validate_blocks_def gaps_ok_def split: if_splits)
  then show ?thesis
    using OD_HandleSack_returns[OF inv assms(2,4,5), of discard "Clean_blocks raw" rec q'] by (auto simp: returns_def)
qed

theorem sack_acknowledges_reported_witness:
  "\<exists>a od1 q1. OD_HandleSack (\<lambda>_ _ q. (False, q)) 10 (Clean_blocks []) False (sample_state, ()) = Value (a, od1, q1)
    \<and> od_last_cumulative_tsn_ack od1 = 10"
proof -
  have "\<exists>a od1 q1. OD_HandleSack (\<lambda>_ _ q. (False, q)) 10 (Clean_blocks []) False (sample_state, ()) = Value (a, od1, q1)
      \<and> sack_effect 10 (Clean_blocks []) sample_state od1"
    using sack_acknowledges_reported[OF sample_run, of 10 "[]" False]
    by (simp add: sample_state_def new_outstanding_data_def)
  then show ?thesis
    by (auto simp: sack_effect_def Let_def sample_state_def new_outstanding_data_def)
qed

end
