(* ===== verification/Forward_Tsn.thy ===== *)
theory Forward_Tsn
  imports Outstanding_Operations Traditional_Reassembly
begin

text \<open>
  What the FORWARD-TSN chunks of \<open>tx/outstanding_data.cc\<close> tell the receiver to skip, and when missing
  chunks are scheduled for fast retransmission.
\<close>

section \<open>Skipping\<close>

text \<open>The number of items that may be skipped: abandoned ones in front, up to a breakpoint.\<close>

fun leading :: "int list \<Rightarrow> int \<Rightarrow> Item list \<Rightarrow> nat" where
  "leading breakpoints tsn [] = 0"
| "leading breakpoints tsn (item # items) =
     (if tsn + 1 \<in> set breakpoints \<or> \<not> is_abandoned item then 0 else Suc (leading breakpoints (tsn + 1) items))"

definition skip_one :: "(Data \<Rightarrow> ('k::linorder \<times> 'v::{linorder,zero}) option) \<Rightarrow> Item \<Rightarrow> ('k, 'v) omap \<Rightarrow> ('k, 'v) omap" where
  "skip_one key item skipped =
     (case key (it_data item) of
        None \<Rightarrow> skipped
      | Some (k, v) \<Rightarrow>
          let skipped' = snd (emplace k 0 skipped)
          in if v > find_or 0 k skipped' then assign k v skipped' else skipped')"

lemma forward_loop_leading:
  "forward_loop key breakpoints tsn tsn items skipped =
     (tsn + int (leading breakpoints tsn items), fold (skip_one key) (take (leading breakpoints tsn items) items) skipped)"
  by (induction items arbitrary: tsn skipped) (auto simp: next_value_def skip_one_def Let_def)

lemma leading_le: "leading breakpoints tsn items \<le> length items"
  by (induction items arbitrary: tsn) auto

lemma leading_abandoned:
  "i < leading breakpoints tsn items \<Longrightarrow> is_abandoned (items ! i) \<and> tsn + 1 + int i \<notin> set breakpoints"
proof (induction items arbitrary: tsn i)
  case (Cons item items)
  show ?case
  proof (cases i)
    case 0
    then show ?thesis using Cons.prems by (auto split: if_splits)
  next
    case (Suc j)
    then have "is_abandoned (items ! j) \<and> tsn + 1 + 1 + int j \<notin> set breakpoints"
      using Cons.prems by (intro Cons.IH) (simp split: if_splits)
    then show ?thesis by (simp add: Suc algebra_simps)
  qed
qed simp

lemma leading_maximal:
  "leading breakpoints tsn items < length items \<Longrightarrow>
     \<not> is_abandoned (items ! leading breakpoints tsn items) \<or> tsn + 1 + int (leading breakpoints tsn items) \<in> set breakpoints"
proof (induction items arbitrary: tsn)
  case (Cons item items)
  then show ?case using Cons.IH[of "tsn + 1"] by (auto simp: algebra_simps)
qed simp

text \<open>The values that a key has among the items.\<close>

definition values_of :: "(Data \<Rightarrow> ('k \<times> 'v) option) \<Rightarrow> 'k \<Rightarrow> Item list \<Rightarrow> 'v list" where
  "values_of key k items = [v. item \<leftarrow> items, (k', v) \<leftarrow> (case key (it_data item) of None \<Rightarrow> [] | Some e \<Rightarrow> [e]), k' = k]"

lemma values_of_simps [simp]:
  "values_of key k [] = []"
  "values_of key k (item # items) =
     (case key (it_data item) of Some (k', v) \<Rightarrow> if k' = k then v # values_of key k items else values_of key k items
      | None \<Rightarrow> values_of key k items)"
  by (auto simp: values_of_def split: option.splits)

lemma skip_one_ok [simp]: "omap_ok m \<Longrightarrow> omap_ok (skip_one key item m)"
  by (auto simp: skip_one_def Let_def split: option.splits)

lemma skip_one_lookup:
  assumes "omap_ok m"
  shows "map_of (skip_one key item m) k =
    (case key (it_data item) of
       Some (k', v) \<Rightarrow> if k' = k then Some (max v (find_or 0 k m)) else map_of m k
     | None \<Rightarrow> map_of m k)"
  using assms by (auto simp: skip_one_def Let_def find_or_def max_def split: option.splits)

lemma skipped_lookup:
  fixes m :: "('k::linorder, 'v::{linorder,zero}) omap"
  assumes "omap_ok m"
  shows "omap_ok (fold (skip_one key) items m) \<and> map_of (fold (skip_one key) items m) k =
    (if values_of key k items = [] then map_of m k else Some (fold max (values_of key k items) (find_or 0 k m)))"
  using assms
proof (induction items arbitrary: m)
  case (Cons item items)
  have "map_of (skip_one key item m) k = (case key (it_data item) of
       Some (k', v) \<Rightarrow> if k' = k then Some (max v (find_or 0 k m)) else map_of m k | None \<Rightarrow> map_of m k)"
    by (rule skip_one_lookup[OF Cons.prems])
  then show ?case
    using Cons.IH[of "skip_one key item m"] Cons.prems by (auto simp: find_or_def split: option.splits)
qed simp

lemma fold_max_word:
  fixes vs :: "'a::len word list"
  shows "vs \<noteq> [] \<Longrightarrow> fold max vs 0 = Max (set vs)"
proof -
  assume "vs \<noteq> []"
  have "fold max vs a = (if vs = [] then a else max a (Max (set vs)))" for a :: "'a word"
    by (induction vs arbitrary: a) (auto simp: max.assoc max.commute max.left_commute)
  then show ?thesis using \<open>vs \<noteq> []\<close> by simp
qed

text \<open>The key of a FORWARD-TSN: only ordered messages are listed, by stream.\<close>

abbreviation ssn_key :: "Data \<Rightarrow> (u16 \<times> u16) option" where
  "ssn_key data \<equiv> (if d_is_unordered data then None else Some (d_stream_id data, d_ssn data))"

lemma set_values_of_ssn:
  "set (values_of ssn_key sid items) =
     {d_ssn (it_data item) | item. item \<in> set items \<and> \<not> d_is_unordered (it_data item) \<and> d_stream_id (it_data item) = sid}"
  by (induction items) auto

lemma map_of_skipped:
  assumes "omap_ok m"
  shows "(\<lparr>sk_stream_id = sid, sk_ssn = ssn, sk_unordered = False, sk_mid = 0\<rparr> \<in> set (map (\<lambda>(stream_id, ssn).
      \<lparr>sk_stream_id = stream_id, sk_ssn = ssn, sk_unordered = False, sk_mid = 0\<rparr>) m)) \<longleftrightarrow> map_of m sid = Some ssn"
  using omap_okD[OF assms] by (force simp: map_of_eq_Some_iff)

section \<open>Properties\<close>

text \<open>
  C31.  What a FORWARD-TSN chunk tells the receiver to skip.  Its new cumulative number covers exactly
  the longest run of abandoned chunks at the front of the queue that does not reach a number at which
  a stream reset began; and its list has one entry for every stream that has an ordered chunk in that
  run, with the numerically largest of the sequence numbers of these chunks.
\<close>

theorem forward_tsn_skips:
  assumes "run = take (leading (od_stream_reset_breakpoint_tsns od) (od_last_cumulative_tsn_ack od) (od_outstanding_data od))
      (od_outstanding_data od)"
  shows "\<exists>skipped. CreateForwardTsn od = ForwardTsnChunk (Wrap (od_last_cumulative_tsn_ack od + int (length run))) skipped
    \<and> (\<forall>i < length run. is_abandoned (od_outstanding_data od ! i)
          \<and> tsn_at od i \<notin> set (od_stream_reset_breakpoint_tsns od))
    \<and> (length run < length (od_outstanding_data od) \<longrightarrow> \<not> is_abandoned (od_outstanding_data od ! length run)
          \<or> tsn_at od (length run) \<in> set (od_stream_reset_breakpoint_tsns od))
    \<and> distinct (map sk_stream_id skipped)
    \<and> (\<forall>sid ssn. \<lparr>sk_stream_id = sid, sk_ssn = ssn, sk_unordered = False, sk_mid = 0\<rparr> \<in> set skipped \<longleftrightarrow>
          (let ssns = {d_ssn (it_data item) | item. item \<in> set run \<and> \<not> d_is_unordered (it_data item)
                        \<and> d_stream_id (it_data item) = sid}
           in ssns \<noteq> {} \<and> ssn = Max ssns))"
proof -
  let ?l = "od_last_cumulative_tsn_ack od" and ?b = "od_stream_reset_breakpoint_tsns od" and ?q = "od_outstanding_data od"
  have len: "length run = leading ?b ?l ?q" using assms leading_le[of ?b ?l ?q] by simp
  define m where "m = fold (skip_one ssn_key) run []"
  define skipped where "skipped = map (\<lambda>(stream_id, ssn).
      \<lparr>sk_stream_id = stream_id, sk_ssn = ssn, sk_unordered = False, sk_mid = (0 :: u32)\<rparr>) m"
  have m: "omap_ok m" "map_of m sid = (if values_of ssn_key sid run = [] then None
      else Some (Max (set (values_of ssn_key sid run))))" for sid
    using skipped_lookup[of "[]" ssn_key run sid] fold_max_word[of "values_of ssn_key sid run"]
    by (simp_all add: m_def find_or_def)
  have "CreateForwardTsn od = ForwardTsnChunk (Wrap (?l + int (length run))) skipped"
    unfolding len by (simp add: CreateForwardTsn_def forward_loop_leading skipped_def m_def assms)
  moreover have "distinct (map sk_stream_id skipped)"
    using omap_okD[OF m(1)] by (simp add: skipped_def comp_def case_prod_beta)
  moreover have "\<lparr>sk_stream_id = sid, sk_ssn = ssn, sk_unordered = False, sk_mid = 0\<rparr> \<in> set skipped \<longleftrightarrow>
      (let ssns = {d_ssn (it_data item) | item. item \<in> set run \<and> \<not> d_is_unordered (it_data item)
                        \<and> d_stream_id (it_data item) = sid}
       in ssns \<noteq> {} \<and> ssn = Max ssns)" for sid ssn
    unfolding skipped_def map_of_skipped[OF m(1)] m(2) Let_def set_values_of_ssn[symmetric] by auto
  ultimately show ?thesis
    using leading_abandoned[of _ ?b ?l ?q] leading_maximal[of ?b ?l ?q] unfolding len by blast
qed

text \<open>Two abandoned chunks of stream 1 with the sequence numbers \<open>a\<close> and \<open>b\<close>.\<close>

definition abandoned_item :: "u16 \<Rightarrow> Item" where
  "abandoned_item ssn = (new_item 7 (sample_data\<lparr>d_ssn := ssn\<rparr>) 0 0 PlusInfinity 0)\<lparr>it_lifecycle := kAbandoned\<rparr>"

definition abandoned_pair :: "u16 \<Rightarrow> u16 \<Rightarrow> OutstandingData" where
  "abandoned_pair a b = (new_outstanding_data 16 9)\<lparr>od_outstanding_data := [abandoned_item a, abandoned_item b]\<rparr>"

lemmas abandoned_defs = abandoned_pair_def abandoned_item_def new_outstanding_data_def new_item_def sample_data_def is_abandoned_def

theorem forward_tsn_skips_witness:
  "\<exists>skipped. CreateForwardTsn (abandoned_pair 4 5) = ForwardTsnChunk 11 skipped \<and> distinct (map sk_stream_id skipped)"
  using forward_tsn_skips[of _ "abandoned_pair 4 5", OF refl] by (auto simp: abandoned_defs)

text \<open>
  C37.  A FORWARD-TSN that skips messages on both sides of the wrap of the stream sequence number leaves
  the receiver waiting for a message that will never come.  When the messages with the numbers 65535
  and 0 of a stream are abandoned together, the chunk lists 65535, the numerically larger; a receiver
  that has delivered everything before them and handles the entry then expects number 0, which the
  sender has given up, and nothing later in the stream can be delivered.
\<close>

theorem forward_tsn_across_wrap:
  assumes "od_outstanding_data od = [a, b]" "is_abandoned a" "is_abandoned b"
    and "d_stream_id (it_data a) = sid" "d_stream_id (it_data b) = sid"
    and "\<not> d_is_unordered (it_data a)" "\<not> d_is_unordered (it_data b)"
    and "d_ssn (it_data a) = 65535" "d_ssn (it_data b) = 0"
    and "od_stream_reset_breakpoint_tsns od = []"
    and "os_next_ssn s = 65535" "os_chunks_by_ssn s = []" "os_ssn_unwrapper s = \<lparr>last_unwrapped = 65534, last_value = Some 65534\<rparr>"
  shows "CreateForwardTsn od = ForwardTsnChunk (Wrap (od_last_cumulative_tsn_ack od + 2))
      [\<lparr>sk_stream_id = sid, sk_ssn = 65535, sk_unordered = False, sk_mid = 0\<rparr>]
    \<and> (Wrap (os_next_ssn (snd (snd (Ordered_EraseTo 65535 s)))) :: u16) = d_ssn (it_data b)"
proof
  show "CreateForwardTsn od = ForwardTsnChunk (Wrap (od_last_cumulative_tsn_ack od + 2))
      [\<lparr>sk_stream_id = sid, sk_ssn = 65535, sk_unordered = False, sk_mid = 0\<rparr>]"
    using assms(1-10) by (simp add: CreateForwardTsn_def forward_loop_leading skip_one_def find_or_def Let_def)
  have "Unwrap \<lparr>last_unwrapped = 65534, last_value = Some 65534\<rparr> (65535 :: u16) = (65535, \<lparr>last_unwrapped = 65535, last_value = Some 65535\<rparr>)"
    using Unwrap_recover[of "\<lparr>last_unwrapped = 65534, last_value = Some (65534 :: u16)\<rparr>" 65535] by (simp add: unwrapper_ok_def)
  then show "(Wrap (os_next_ssn (snd (snd (Ordered_EraseTo 65535 s)))) :: u16) = d_ssn (it_data b)"
    using assms(9,11-13)
    by (simp add: Ordered_EraseTo_def Let_def after_def up_to_def Ordered_TryToAssembleMessages.simps
        Ordered_TryToAssembleMessage_def next_value_def)
qed

theorem forward_tsn_across_wrap_witness:
  "CreateForwardTsn (abandoned_pair 65535 0) =
     ForwardTsnChunk 11 [\<lparr>sk_stream_id = 1, sk_ssn = 65535, sk_unordered = False, sk_mid = 0\<rparr>]"
  using forward_tsn_across_wrap[of "abandoned_pair 65535 0" "abandoned_item 65535" "abandoned_item 0" 1
      "\<lparr>os_chunks_by_ssn = [], os_ssn_unwrapper = \<lparr>last_unwrapped = 65534, last_value = Some 65534\<rparr>, os_next_ssn = 65535\<rparr>"]
  by (simp add: abandoned_defs)

section \<open>Fast retransmission\<close>

lemma NackItem_step:
  assumes inv: "od_inv R n B od" and i: "i < length (od_outstanding_data od)"
    and item: "od_outstanding_data od ! i = item" "it_lifecycle item = kActive"
    and few: "it_nack_count item + 1 < kNumberOfNacksForRetransmission"
  shows "\<exists>od'. NackItem discard (tsn_at od i) False True (od, q) = Value (False, od', q) \<and> od_inv R n B od'
    \<and> od_last_cumulative_tsn_ack od' = od_last_cumulative_tsn_ack od
    \<and> length (od_outstanding_data od') = length (od_outstanding_data od)
    \<and> od_outstanding_data od' ! i = item\<lparr>it_ack_state := kNacked, it_nack_count := it_nack_count item + 1\<rparr>"
proof -
  let ?item = "item\<lparr>it_ack_state := kNacked, it_nack_count := it_nack_count item + 1\<rparr>"
  have nack: "Item_Nack False item = Value (kNothing, ?item)" using few by (simp add: Item_Nack_def Let_def not_le)
  have "item_ok R n ?item" using od_inv_item[OF inv i] item by (auto simp: item_ok_def item_states reliable_def)
  then have "od_inv R n B (renewed i ?item od)"
    using item by (intro unmark_inv inv i) (simp_all add: item_states)
  then show ?thesis
    using i item by (simp add: NackItem_renewed[OF inv i] nack)
qed

text \<open>
  C32.  A chunk in flight that is reported missing is sent again after exactly three misses.  Nacking an
  active chunk with no misses so far, of which a retransmission is left, reports no loss the first two
  times and leaves it out of the set of fast retransmissions; the third time it reports a loss and
  schedules the chunk for fast retransmission.
\<close>

theorem third_miss_retransmits:
  assumes inv: "od_inv R n B od" and i: "i < length (od_outstanding_data od)"
    and item: "it_lifecycle (od_outstanding_data od ! i) = kActive" "it_nack_count (od_outstanding_data od ! i) = 0"
      "it_num_retransmissions (od_outstanding_data od ! i) < it_max_retransmissions (od_outstanding_data od ! i)"
  shows "\<exists>od1 od2 od3. NackItem discard (tsn_at od i) False True (od, q) = Value (False, od1, q)
    \<and> NackItem discard (tsn_at od i) False True (od1, q) = Value (False, od2, q)
    \<and> NackItem discard (tsn_at od i) False True (od2, q) = Value (True, od3, q)
    \<and> tsn_at od i \<notin> set (od_to_be_fast_retransmitted od2) \<and> tsn_at od i \<in> set (od_to_be_fast_retransmitted od3)"
proof -
  let ?t = "tsn_at od i" and ?item = "od_outstanding_data od ! i"
  let ?nack = "\<lambda>item. item\<lparr>it_ack_state := kNacked, it_nack_count := it_nack_count item + 1\<rparr>"
  obtain od1 where one: "NackItem discard ?t False True (od, q) = Value (False, od1, q)" "od_inv R n B od1"
      "od_last_cumulative_tsn_ack od1 = od_last_cumulative_tsn_ack od"
      "length (od_outstanding_data od1) = length (od_outstanding_data od)" "od_outstanding_data od1 ! i = ?nack ?item"
    using NackItem_step[OF inv i refl, of discard q] item by (auto simp: kNumberOfNacksForRetransmission_def)
  obtain od2 where two: "NackItem discard ?t False True (od1, q) = Value (False, od2, q)" "od_inv R n B od2"
      "od_last_cumulative_tsn_ack od2 = od_last_cumulative_tsn_ack od"
      "length (od_outstanding_data od2) = length (od_outstanding_data od)" "od_outstanding_data od2 ! i = ?nack (?nack ?item)"
    using NackItem_step[OF one(2) _ refl, of i discard q] i one(3-5) item by (auto simp: kNumberOfNacksForRetransmission_def)
  have "Item_Nack False (od_outstanding_data od2 ! i) = Value (kRetransmit, (?nack (?nack (?nack ?item)))\<lparr>it_lifecycle := kToBeRetransmitted\<rparr>)"
    using item by (simp add: two(5) Item_Nack_def Let_def item_states kNumberOfNacksForRetransmission_def)
  then have "\<exists>od3. NackItem discard ?t False True (od2, q) = Value (True, od3, q) \<and> ?t \<in> set (od_to_be_fast_retransmitted od3)"
    using NackItem_renewed[OF two(2), of i discard False True q] i two(3,4) by (simp add: Let_def)
  moreover have "?t \<notin> set (od_to_be_fast_retransmitted od2)"
    using pending_index[OF two(2), of i] i two(3-5) item by (simp add: pending_def item_states)
  ultimately show ?thesis using one(1) two(1) by blast
qed

theorem third_miss_retransmits_witness:
  "\<exists>od1. NackItem (\<lambda>_ _ q. (False, q)) 10 False True (sample_state, ()) = Value (False, od1, ())"
proof -
  have "od_inv (\<lambda>_ _. True) 0 3 sample_state"
    using od_run_safe[OF new_outstanding_inv, of "[OdInsert 7 sample_data 0 NoLimit PlusInfinity 0]" "\<lambda>_ _. True" "\<lambda>_ _ q. (False, q)" 16 9 "()"]
    unfolding sample_run by (simp add: safe_def)
  from third_miss_retransmits[OF this, of 0 "\<lambda>_ _ q. (False, q)" "()"] show ?thesis
    by (auto simp: sample_state_def new_outstanding_data_def new_item_def NoLimit_def)
qed

end
