(* ===== verification/Stream_Scheduler.thy ===== *)
theory Stream_Scheduler
  imports Outcome_Logic Reassembly_Streams Time_Units Complex_Main "HOL-Library.Log_Nat"
begin

text \<open>
  The stream scheduler of the send queue, \<open>tx/stream_scheduler.cc\<close>: which stream produces the next
  fragment.  The virtual interface \<open>StreamProducer\<close> is a pair of parameters over a state \<open>'p\<close>; its
  contract is the locale \<open>stream_producer\<close>, in which the main loop is shown to return without failing
  a check.  A pointer to a stream is its stream identifier, and the stream objects, which the producers
  own, are kept in one map.
\<close>

section \<open>Virtual time\<close>

text \<open>
  Virtual times and weights are positive numbers of type \<open>double\<close>: rationals, every operation rounded
  to 53 significant bits, to nearest and ties to even.  The exponents stay far from the ends of the
  range.
\<close>

type_synonym VirtualTime = rat

definition round_half_even :: "rat \<Rightarrow> int" where
  "round_half_even y =
     (let f = \<lfloor>y\<rfloor>; r = 2 * (y - of_int f) in if r > 1 \<or> r = 1 \<and> odd f then f + 1 else f)"

definition double_exponent :: "rat \<Rightarrow> int" where
  "double_exponent x =
     (let (p, q) = quotient_of x; e = bitlen p - bitlen q - 53 in
      if x / power_int 2 e \<ge> 2 ^ 53 then e + 1 else e)"

definition double_round :: "rat \<Rightarrow> rat" where
  "double_round x =
     (if x = of_int \<lfloor>x\<rfloor> \<and> \<bar>x\<bar> \<le> 2 ^ 53 then x
      else let e = double_exponent x in of_int (round_half_even (x / power_int 2 e)) * power_int 2 e)"

definition InverseWeight :: "u16 \<Rightarrow> rat" where
  "InverseWeight priority = double_round (1 / max (of_nat (unat priority)) (double_round (1 / 10 ^ 6)))"

section \<open>Streams and scheduler\<close>

record DataToSend =
  ds_message_id :: u32
  ds_data :: Data
  ds_max_retransmissions :: u16
  ds_expires_at :: Timestamp
  ds_lifecycle_id :: u64

record SchedulerStream =
  st_priority :: u16
  st_inverse_weight :: rat
  st_current_virtual_time :: VirtualTime
  st_next_finish_time :: VirtualTime

record StreamScheduler =
  sch_max_payload_bytes :: nat
  sch_virtual_time :: VirtualTime
  sch_current_stream :: "u16 option"
  sch_enable_message_interleaving :: bool
  sch_currently_sending_a_message :: bool
  sch_active_streams :: "u16 list"
  sch_streams :: "(u16, SchedulerStream) omap"

text \<open>The subtraction of the two header sizes is one of \<open>size_t\<close>.\<close>

definition new_stream_scheduler :: "u64 \<Rightarrow> StreamScheduler" where
  "new_stream_scheduler mtu =
     \<lparr>sch_max_payload_bytes = unat (mtu - 12 - 20), sch_virtual_time = 0, sch_current_stream = None,
      sch_enable_message_interleaving = False, sch_currently_sending_a_message = False,
      sch_active_streams = [], sch_streams = []\<rparr>"

definition new_scheduler_stream :: "u16 \<Rightarrow> SchedulerStream" where
  "new_scheduler_stream priority =
     \<lparr>st_priority = priority, st_inverse_weight = InverseWeight priority, st_current_virtual_time = 0,
      st_next_finish_time = 0\<rparr>"

definition CreateStream :: "u16 \<Rightarrow> u16 \<Rightarrow> StreamScheduler \<Rightarrow> StreamScheduler" where
  "CreateStream sid priority sch =
     sch\<lparr>sch_streams := assign sid (new_scheduler_stream priority) (sch_streams sch)\<rparr>"

definition stream_of :: "StreamScheduler \<Rightarrow> u16 \<Rightarrow> SchedulerStream" where
  "stream_of sch sid = find_or (new_scheduler_stream 0) sid (sch_streams sch)"

definition put_stream :: "u16 \<Rightarrow> SchedulerStream \<Rightarrow> StreamScheduler \<Rightarrow> StreamScheduler" where
  "put_stream sid s sch = sch\<lparr>sch_streams := assign sid s (sch_streams sch)\<rparr>"

definition Stream_SetPriority :: "u16 \<Rightarrow> u16 \<Rightarrow> StreamScheduler \<Rightarrow> StreamScheduler" where
  "Stream_SetPriority sid priority sch =
     put_stream sid ((stream_of sch sid)\<lparr>st_priority := priority, st_inverse_weight := InverseWeight priority\<rparr>) sch"

definition EnableMessageInterleaving :: "bool \<Rightarrow> StreamScheduler \<Rightarrow> StreamScheduler" where
  "EnableMessageInterleaving enabled sch = sch\<lparr>sch_enable_message_interleaving := enabled\<rparr>"

definition ForceReschedule :: "StreamScheduler \<Rightarrow> StreamScheduler" where
  "ForceReschedule sch = sch\<lparr>sch_currently_sending_a_message := False\<rparr>"

text \<open>Ordered by virtual finish time, then by stream identifier.\<close>

definition ActiveStreamComparator :: "StreamScheduler \<Rightarrow> u16 \<Rightarrow> u16 \<Rightarrow> bool" where
  "ActiveStreamComparator sch a b =
     (let a_vft = st_next_finish_time (stream_of sch a); b_vft = st_next_finish_time (stream_of sch b) in
      if a_vft = b_vft then a < b else a_vft < b_vft)"

fun set_emplace :: "('a \<Rightarrow> 'a \<Rightarrow> bool) \<Rightarrow> 'a \<Rightarrow> 'a list \<Rightarrow> 'a list" where
  "set_emplace lt x [] = [x]"
| "set_emplace lt x (y # ys) =
     (if lt y x then y # set_emplace lt x ys else if lt x y then x # y # ys else y # ys)"

definition CalculateFinishTime :: "StreamScheduler \<Rightarrow> SchedulerStream \<Rightarrow> nat \<Rightarrow> VirtualTime" where
  "CalculateFinishTime sch s bytes_to_send_next =
     (if sch_enable_message_interleaving sch
      then double_round (st_current_virtual_time s
             + double_round (double_round (of_nat bytes_to_send_next) * st_inverse_weight s))
      else double_round (st_current_virtual_time s + 1))"

definition Stream_MakeActive :: "u16 \<Rightarrow> nat \<Rightarrow> StreamScheduler \<Rightarrow> StreamScheduler outcome" where
  "Stream_MakeActive sid bytes_to_send_next sch =
     (let s = (stream_of sch sid)\<lparr>st_current_virtual_time := sch_virtual_time sch\<rparr>;
          next_finish_time = CalculateFinishTime sch s (min bytes_to_send_next (sch_max_payload_bytes sch)) in
      bind_outcome (rtc_check (bytes_to_send_next > 0)) (\<lambda>_.
      bind_outcome (rtc_check (next_finish_time > 0)) (\<lambda>_.
      bind_outcome (rtc_check (st_next_finish_time s = 0)) (\<lambda>_.
      bind_outcome (rtc_check (sid \<notin> set (sch_active_streams sch))) (\<lambda>_.
        let sch = put_stream sid (s\<lparr>st_next_finish_time := next_finish_time\<rparr>) sch in
        Value (sch\<lparr>sch_active_streams :=
          set_emplace (ActiveStreamComparator sch) sid (sch_active_streams sch)\<rparr>))))))"

definition Stream_MaybeMakeActive :: "u16 \<Rightarrow> nat \<Rightarrow> StreamScheduler \<Rightarrow> StreamScheduler outcome" where
  "Stream_MaybeMakeActive sid bytes_to_send_next sch =
     bind_outcome (rtc_check (st_next_finish_time (stream_of sch sid) = 0)) (\<lambda>_.
       if bytes_to_send_next = 0 then Value sch else Stream_MakeActive sid bytes_to_send_next sch)"

definition Stream_ForceMarkInactive :: "u16 \<Rightarrow> StreamScheduler \<Rightarrow> StreamScheduler outcome" where
  "Stream_ForceMarkInactive sid sch =
     bind_outcome (rtc_check (st_next_finish_time (stream_of sch sid) \<noteq> 0)) (\<lambda>_.
       Value (put_stream sid ((stream_of sch sid)\<lparr>st_next_finish_time := 0\<rparr>) sch))"

definition Stream_MakeInactive :: "u16 \<Rightarrow> StreamScheduler \<Rightarrow> StreamScheduler outcome" where
  "Stream_MakeInactive sid sch =
     bind_outcome (Stream_ForceMarkInactive sid sch) (\<lambda>sch.
       Value (sch\<lparr>sch_active_streams := filter (\<lambda>s. s \<noteq> sid) (sch_active_streams sch)\<rparr>))"

definition Scheduler_IsConsistent :: "StreamScheduler \<Rightarrow> bool" where
  "Scheduler_IsConsistent sch =
     list_all (\<lambda>sid. st_next_finish_time (stream_of sch sid) \<noteq> 0) (sch_active_streams sch)"

definition ActiveStreamsForTesting :: "StreamScheduler \<Rightarrow> u16 list" where
  "ActiveStreamsForTesting sch = sset_of (sch_active_streams sch)"

section \<open>Producing\<close>

type_synonym 'p producer = "u16 \<Rightarrow> Timestamp \<Rightarrow> nat \<Rightarrow> 'p \<Rightarrow> (DataToSend option \<times> 'p) outcome"

definition Stream_Produce ::
  "'p producer \<Rightarrow> Timestamp \<Rightarrow> nat \<Rightarrow> u16 \<Rightarrow> StreamScheduler \<times> 'p \<Rightarrow> (DataToSend option \<times> StreamScheduler \<times> 'p) outcome" where
  "Stream_Produce produce now max_size sid st =
     (case st of (sch, p) \<Rightarrow>
      bind_outcome (produce sid now max_size p) (\<lambda>(data, p).
        case data of
          None \<Rightarrow> Value (None, sch, p)
        | Some d \<Rightarrow>
            let s = stream_of sch sid;
                new_current = CalculateFinishTime sch s (length (d_payload (ds_data d))) in
            Value (Some d, put_stream sid (s\<lparr>st_current_virtual_time := new_current\<rparr>) sch, p)))"

definition choose_stream :: "bool \<Rightarrow> StreamScheduler \<Rightarrow> (u16 \<times> StreamScheduler) outcome" where
  "choose_stream rescheduling sch =
     (if rescheduling
      then let sid = hd (sch_active_streams sch) in
        bind_outcome (Stream_ForceMarkInactive sid
            (sch\<lparr>sch_current_stream := Some sid, sch_active_streams := tl (sch_active_streams sch)\<rparr>))
          (\<lambda>sch. Value (sid, sch))
      else (case sch_current_stream sch of
              None \<Rightarrow> Abort
            | Some sid \<Rightarrow> bind_outcome (rtc_check (sid \<in> set (sch_active_streams sch))) (\<lambda>_. Value (sid, sch))))"

text \<open>The loop until a stream produces or no stream is active; \<open>None\<close> stands for never returning.\<close>

partial_function (option) produce_loop ::
  "'p producer \<Rightarrow> Timestamp \<Rightarrow> nat \<Rightarrow> bool \<Rightarrow> StreamScheduler \<times> 'p \<Rightarrow> (DataToSend option \<times> StreamScheduler \<times> 'p) outcome option" where
  "produce_loop produce now max_size rescheduling st =
     (if sch_active_streams (fst st) = [] then Some (Value (None, st))
      else (case bind_outcome (choose_stream rescheduling (fst st))
                 (\<lambda>(sid, sch). Stream_Produce produce now max_size sid (sch, snd st)) of
              Value (data, st') \<Rightarrow>
                (if data = None then produce_loop produce now max_size rescheduling st'
                 else Some (Value (data, st')))
            | Nullopt \<Rightarrow> Some Nullopt
            | Abort \<Rightarrow> Some Abort))"

definition after_produce :: "bool \<Rightarrow> DataToSend \<Rightarrow> u16 \<Rightarrow> nat \<Rightarrow> StreamScheduler \<Rightarrow> StreamScheduler outcome" where
  "after_produce rescheduling data sid bytes_to_send_next sch0 =
     (let sch = sch0\<lparr>sch_currently_sending_a_message := \<not> d_is_end (ds_data data),
                     sch_virtual_time := st_current_virtual_time (stream_of sch0 sid)\<rparr> in
      if rescheduling \<and> bytes_to_send_next > 0 then Stream_MakeActive sid bytes_to_send_next sch
      else if \<not> rescheduling \<and> bytes_to_send_next = 0 then Stream_MakeInactive sid sch
      else Value sch)"

text \<open>A call whose loop never returns is counted as failing.\<close>

definition Scheduler_Produce ::
  "'p producer \<Rightarrow> (u16 \<Rightarrow> 'p \<Rightarrow> nat) \<Rightarrow> Timestamp \<Rightarrow> nat \<Rightarrow> StreamScheduler \<times> 'p \<Rightarrow> (DataToSend option \<times> StreamScheduler \<times> 'p) outcome" where
  "Scheduler_Produce produce bytes_next now max_size st =
     (let rescheduling = sch_enable_message_interleaving (fst st) \<or> \<not> sch_currently_sending_a_message (fst st) in
      bind_outcome (rtc_check (rescheduling \<or> sch_current_stream (fst st) \<noteq> None)) (\<lambda>_.
      case produce_loop produce now max_size rescheduling st of
        None \<Rightarrow> Abort
      | Some result \<Rightarrow>
          bind_outcome result (\<lambda>(data, sch, p).
            case data of
              None \<Rightarrow> bind_outcome (rtc_check (Scheduler_IsConsistent sch)) (\<lambda>_. Value (None, sch, p))
            | Some d \<Rightarrow>
                let sid = the (sch_current_stream sch) in
                bind_outcome (rtc_check (d_stream_id (ds_data d) = sid)) (\<lambda>_.
                bind_outcome (after_produce rescheduling d sid (bytes_next sid p) sch) (\<lambda>sch.
                bind_outcome (rtc_check (Scheduler_IsConsistent sch)) (\<lambda>_.
                  Value (Some d, sch, p)))))))"

section \<open>Rounding keeps positive numbers positive\<close>

lemma round_half_even_ge: "1 \<le> y \<Longrightarrow> 1 \<le> round_half_even y"
  by (simp add: round_half_even_def Let_def add_increasing2 le_floor_iff)

lemma quotient_lower:
  assumes "0 < p" "0 < q"
  shows "power_int 2 (bitlen p - bitlen q - 1) \<le> (of_int p / of_int q :: rat)"
proof -
  obtain a where a: "bitlen p = int (Suc a)" "2 ^ a \<le> p"
    using bitlen_bounds[OF assms(1)] bitlen_nonneg[of p] by (metis nat_0_le bitlen_eq_zero_iff
        assms(1) add_diff_cancel_left' nat_int not_less of_nat_Suc zero_less_imp_eq_int less_le gr0_implies_Suc)
  have q: "q < 2 ^ nat (bitlen q)" "0 \<le> bitlen q"
    using bitlen_bounds[OF assms(2)] bitlen_nonneg by auto
  have "(of_int q :: rat) \<le> 2 ^ nat (bitlen q)"
    using q(1) by (metis less_imp_le of_int_le_iff of_int_numeral of_int_power)
  moreover have "2 ^ a \<le> (of_int p :: rat)"
    using a(2) by (metis of_int_le_iff of_int_numeral of_int_power)
  ultimately have "2 ^ a / 2 ^ nat (bitlen q) \<le> (of_int p / of_int q :: rat)"
    using assms by (intro frac_le) simp_all
  moreover have "power_int 2 (bitlen p - bitlen q - 1) = (2 ^ a / 2 ^ nat (bitlen q) :: rat)"
    using power_int_diff[of "2 :: rat" "int a" "bitlen q"] a(1) q(2)
    by (simp add: power_int_def[of _ "bitlen q"])
  ultimately show ?thesis by simp
qed

lemma double_round_pos:
  assumes "0 < x"
  shows "0 < double_round x"
proof -
  obtain p q where pq: "quotient_of x = (p, q)" by fastforce
  have x: "x = of_int p / of_int q" and q: "0 < q"
    using quotient_of_div[OF pq] quotient_of_denom_pos[OF pq] by simp_all
  have p: "0 < p" using assms q by (simp add: x zero_less_divide_iff)
  let ?e = "bitlen p - bitlen q - 53"
  have "power_int 2 (bitlen p - bitlen q - 1) = power_int (2 :: rat) ?e * 2 ^ 52"
    using power_int_add[of "2 :: rat" ?e 52] by (simp add: algebra_simps)
  with quotient_lower[OF p q] have "power_int 2 ?e * 2 ^ 52 \<le> x" by (simp add: x)
  moreover have pos: "0 < power_int (2 :: rat) ?e" by simp
  ultimately have m: "1 \<le> x / power_int 2 ?e" by (simp add: le_divide_eq del: zero_less_power_int)
  have "1 \<le> x / power_int 2 (double_exponent x)"
  proof (cases "x / power_int 2 ?e \<ge> 2 ^ 53")
    case True
    have "power_int 2 (?e + 1) = (power_int 2 ?e * 2 :: rat)" using power_int_add[of "2 :: rat" ?e 1] by simp
    moreover have "double_exponent x = ?e + 1" using True by (simp add: double_exponent_def pq Let_def)
    moreover have "power_int 2 ?e * 2 \<le> x" using True pos
      by (simp add: pos_le_divide_eq del: zero_less_power_int)
    ultimately show ?thesis using pos by simp
  qed (use m in \<open>simp add: double_exponent_def pq Let_def\<close>)
  then have "1 \<le> round_half_even (x / power_int 2 (double_exponent x))" by (rule round_half_even_ge)
  then show ?thesis using assms by (auto simp: double_round_def Let_def)
qed

lemma InverseWeight_pos: "0 < InverseWeight priority"
  unfolding InverseWeight_def
  by (intro double_round_pos divide_pos_pos) (simp_all add: less_max_iff_disj double_round_pos)

lemma double_round_nonneg: "0 \<le> x \<Longrightarrow> 0 \<le> double_round x"
  using double_round_pos[of x] by (cases "x = 0") (auto simp: double_round_def)

section \<open>Invariant\<close>

definition stream_ok :: "SchedulerStream \<Rightarrow> bool" where
  "stream_ok s = (0 \<le> st_current_virtual_time s \<and> 0 \<le> st_next_finish_time s \<and> 0 < st_inverse_weight s)"

definition sch_inv :: "StreamScheduler \<Rightarrow> bool" where
  "sch_inv sch =
     (omap_ok (sch_streams sch) \<and> 0 \<le> sch_virtual_time sch \<and> 0 < sch_max_payload_bytes sch
      \<and> distinct (sch_active_streams sch) \<and> sorted_wrt (ActiveStreamComparator sch) (sch_active_streams sch)
      \<and> (\<forall>sid. stream_ok (stream_of sch sid)
            \<and> (st_next_finish_time (stream_of sch sid) \<noteq> 0 \<longleftrightarrow> sid \<in> set (sch_active_streams sch))))"

definition same_mode :: "StreamScheduler \<Rightarrow> StreamScheduler \<Rightarrow> bool" where
  "same_mode sch sch' =
     (sch_current_stream sch' = sch_current_stream sch
      \<and> sch_enable_message_interleaving sch' = sch_enable_message_interleaving sch
      \<and> sch_currently_sending_a_message sch' = sch_currently_sending_a_message sch)"

lemma stream_of_simps [simp]:
  "stream_of (sch\<lparr>sch_virtual_time := v\<rparr>) sid = stream_of sch sid"
  "stream_of (sch\<lparr>sch_current_stream := c\<rparr>) sid = stream_of sch sid"
  "stream_of (sch\<lparr>sch_enable_message_interleaving := b\<rparr>) sid = stream_of sch sid"
  "stream_of (sch\<lparr>sch_currently_sending_a_message := b\<rparr>) sid = stream_of sch sid"
  "stream_of (sch\<lparr>sch_active_streams := a\<rparr>) sid = stream_of sch sid"
  by (simp_all add: stream_of_def)

lemma stream_of_put [simp]:
  "omap_ok (sch_streams sch) \<Longrightarrow> stream_of (put_stream sid s sch) sid' = (if sid' = sid then s else stream_of sch sid')"
  by (simp add: stream_of_def put_stream_def find_or_def)

lemma put_stream_frame [simp]:
  "sch_virtual_time (put_stream sid s sch) = sch_virtual_time sch"
  "sch_max_payload_bytes (put_stream sid s sch) = sch_max_payload_bytes sch"
  "sch_active_streams (put_stream sid s sch) = sch_active_streams sch"
  "sch_current_stream (put_stream sid s sch) = sch_current_stream sch"
  "sch_enable_message_interleaving (put_stream sid s sch) = sch_enable_message_interleaving sch"
  "sch_currently_sending_a_message (put_stream sid s sch) = sch_currently_sending_a_message sch"
  "omap_ok (sch_streams sch) \<Longrightarrow> omap_ok (sch_streams (put_stream sid s sch))"
  by (simp_all add: put_stream_def)

lemma ActiveStreamComparator_cong:
  "(\<And>sid. sid \<in> {a, b} \<Longrightarrow> st_next_finish_time (stream_of sch' sid) = st_next_finish_time (stream_of sch sid))
    \<Longrightarrow> ActiveStreamComparator sch' a b = ActiveStreamComparator sch a b"
  by (simp add: ActiveStreamComparator_def)

lemma sorted_active_cong:
  assumes "sorted_wrt (ActiveStreamComparator sch) xs"
    and "\<And>sid. sid \<in> set xs \<Longrightarrow> st_next_finish_time (stream_of sch' sid) = st_next_finish_time (stream_of sch sid)"
  shows "sorted_wrt (ActiveStreamComparator sch') xs"
  using assms(1) by (rule sorted_wrt_mono_rel[rotated]) (subst ActiveStreamComparator_cong[of _ _ _ sch], auto simp: assms(2))

lemma set_emplace_sorted:
  assumes "sorted_wrt lt xs" "x \<notin> set xs" "\<And>y. y \<noteq> x \<Longrightarrow> lt x y \<or> lt y x" "transp lt"
  shows "set (set_emplace lt x xs) = insert x (set xs) \<and> sorted_wrt lt (set_emplace lt x xs)
    \<and> (distinct xs \<longrightarrow> distinct (set_emplace lt x xs))"
  using assms(1,2)
proof (induction xs)
  case (Cons y ys)
  then have "lt x y \<or> lt y x" using assms(3)[of y] by auto
  with Cons show ?case
    using assms(4) by (auto dest: transpD)
qed simp

lemma ActiveStreamComparator_order:
  "y \<noteq> x \<Longrightarrow> ActiveStreamComparator sch x y \<or> ActiveStreamComparator sch y x"
  "transp (ActiveStreamComparator sch)"
  by (auto simp: ActiveStreamComparator_def Let_def transp_def split: if_splits)

lemma CalculateFinishTime_nonneg: "stream_ok s \<Longrightarrow> 0 \<le> CalculateFinishTime sch s n"
  by (auto simp: CalculateFinishTime_def stream_ok_def intro!: double_round_nonneg add_nonneg_nonneg mult_nonneg_nonneg)

lemma CalculateFinishTime_pos:
  assumes "stream_ok s" "0 < n"
  shows "0 < CalculateFinishTime sch s n"
proof -
  have "0 < double_round (double_round (of_nat n) * st_inverse_weight s)"
    using assms by (intro double_round_pos mult_pos_pos) (simp_all add: stream_ok_def)
  then show ?thesis
    using assms(1) by (auto simp: CalculateFinishTime_def stream_ok_def intro!: double_round_pos add_nonneg_pos)
qed

lemma sch_invD:
  assumes "sch_inv sch"
  shows "omap_ok (sch_streams sch)" "0 \<le> sch_virtual_time sch" "0 < sch_max_payload_bytes sch"
    "distinct (sch_active_streams sch)" "sorted_wrt (ActiveStreamComparator sch) (sch_active_streams sch)"
    "stream_ok (stream_of sch sid)"
    "(st_next_finish_time (stream_of sch sid) = 0) = (sid \<notin> set (sch_active_streams sch))"
proof -
  note inv = assms[unfolded sch_inv_def]
  show "omap_ok (sch_streams sch)" "0 \<le> sch_virtual_time sch" "0 < sch_max_payload_bytes sch"
    "distinct (sch_active_streams sch)" "sorted_wrt (ActiveStreamComparator sch) (sch_active_streams sch)"
    using inv by simp_all
  show "stream_ok (stream_of sch sid)"
    "(st_next_finish_time (stream_of sch sid) = 0) = (sid \<notin> set (sch_active_streams sch))"
    using inv by metis+
qed

text \<open>How a stream and the list of active streams may change together.\<close>

lemma sch_inv_put:
  assumes inv: "sch_inv sch" and s: "stream_ok s" and same: "sch_max_payload_bytes sch' = sch_max_payload_bytes sch"
    "sch_streams sch' = sch_streams (put_stream sid s sch)" "0 \<le> sch_virtual_time sch'"
    and act: "distinct (sch_active_streams sch')" "sorted_wrt (ActiveStreamComparator (put_stream sid s sch)) (sch_active_streams sch')"
    "\<And>x. x \<in> set (sch_active_streams sch') \<longleftrightarrow> (if x = sid then st_next_finish_time s \<noteq> 0 else x \<in> set (sch_active_streams sch))"
  shows "sch_inv sch'"
proof -
  have st: "stream_of sch' x = (if x = sid then s else stream_of sch x)" for x
    using stream_of_put[OF sch_invD(1)[OF inv], of sid s x] same(2) by (simp add: stream_of_def)
  have sorted: "sorted_wrt (ActiveStreamComparator sch') (sch_active_streams sch')"
    using act(2) by (rule sorted_active_cong) (simp add: st sch_invD(1)[OF inv])
  have each: "stream_ok (stream_of sch' x)
      \<and> (st_next_finish_time (stream_of sch' x) \<noteq> 0 \<longleftrightarrow> x \<in> set (sch_active_streams sch'))" for x
    using s act(3)[of x] sch_invD(6,7)[OF inv, of x] by (cases "x = sid") (simp_all add: st)
  then show ?thesis
    unfolding sch_inv_def using same act(1) sorted sch_invD(1-5)[OF inv] by simp
qed

lemma Stream_MakeActive_returns:
  assumes inv: "sch_inv sch" and new: "sid \<notin> set (sch_active_streams sch)" and "0 < n"
  shows "returns (Stream_MakeActive sid n sch)
    (\<lambda>sch'. sch_inv sch' \<and> same_mode sch sch' \<and> set (sch_active_streams sch') = insert sid (set (sch_active_streams sch)))"
proof -
  let ?s = "(stream_of sch sid)\<lparr>st_current_virtual_time := sch_virtual_time sch\<rparr>"
  let ?t = "CalculateFinishTime sch ?s (min n (sch_max_payload_bytes sch))"
  let ?sch = "put_stream sid (?s\<lparr>st_next_finish_time := ?t\<rparr>) sch"
  have ok: "stream_ok ?s" "st_next_finish_time ?s = 0"
    using sch_invD(1-5)[OF inv] sch_invD(6,7)[OF inv, of sid] new by (simp_all add: stream_ok_def)
  have t: "0 < ?t" using sch_invD(3)[OF inv] \<open>0 < n\<close> by (intro CalculateFinishTime_pos ok) simp
  have "sorted_wrt (ActiveStreamComparator ?sch) (sch_active_streams sch)"
    using new by (intro sorted_active_cong[OF sch_invD(5)[OF inv]]) (auto simp: sch_invD(1)[OF inv])
  note ins = set_emplace_sorted[OF this new ActiveStreamComparator_order]
  define sch' where "sch' = ?sch\<lparr>sch_active_streams := set_emplace (ActiveStreamComparator ?sch) sid (sch_active_streams sch)\<rparr>"
  have "sch_inv sch'"
    using ins ok t sch_invD(2,4)[OF inv]
    by (intro sch_inv_put[OF inv, of "?s\<lparr>st_next_finish_time := ?t\<rparr>" _ sid]) (simp_all add: sch'_def stream_ok_def)
  moreover have "same_mode sch sch'" "set (sch_active_streams sch') = insert sid (set (sch_active_streams sch))"
    using ins by (simp_all add: same_mode_def sch'_def)
  ultimately show ?thesis
    using ok(2) t new \<open>0 < n\<close> by (simp add: Stream_MakeActive_def Let_def sch'_def)
qed

lemma Stream_MaybeMakeActive_returns:
  assumes "sch_inv sch" "sid \<notin> set (sch_active_streams sch)"
  shows "returns (Stream_MaybeMakeActive sid n sch)
    (\<lambda>sch'. sch_inv sch' \<and> same_mode sch sch'
       \<and> set (sch_active_streams sch') = (if n = 0 then {} else {sid}) \<union> set (sch_active_streams sch))"
  using Stream_MakeActive_returns[OF assms, of n] assms sch_invD(7)[OF assms(1), of sid]
  by (cases "n = 0") (simp_all add: Stream_MaybeMakeActive_def same_mode_def)

lemma ForceMarkInactive_hd_returns:
  assumes inv: "sch_inv sch" and act: "sch_active_streams sch = sid # rest"
  shows "returns (Stream_ForceMarkInactive sid (sch\<lparr>sch_current_stream := Some sid, sch_active_streams := rest\<rparr>))
    (\<lambda>sch'. sch_inv sch' \<and> sch_active_streams sch' = rest \<and> sch_current_stream sch' = Some sid
       \<and> same_mode (sch\<lparr>sch_current_stream := Some sid\<rparr>) sch')"
proof -
  let ?s = "(stream_of sch sid)\<lparr>st_next_finish_time := 0\<rparr>"
  define sch' where "sch' = put_stream sid ?s (sch\<lparr>sch_current_stream := Some sid, sch_active_streams := rest\<rparr>)"
  have rest: "sid \<notin> set rest" "sorted_wrt (ActiveStreamComparator sch) rest" "distinct rest"
    using sch_invD(4,5)[OF inv] by (simp_all add: act)
  have "sorted_wrt (ActiveStreamComparator (put_stream sid ?s sch)) rest"
    using rest(1) by (intro sorted_active_cong[OF rest(2)]) (auto simp: sch_invD(1)[OF inv])
  then have "sch_inv sch'"
    using rest sch_invD(1-5)[OF inv] sch_invD(6,7)[OF inv, of sid]
    by (intro sch_inv_put[OF inv, of ?s _ sid]) (auto simp: sch'_def stream_ok_def act put_stream_def)
  then show ?thesis
    using sch_invD(7)[OF inv, of sid] by (simp add: Stream_ForceMarkInactive_def sch'_def same_mode_def act)
qed

lemma Stream_MakeInactive_returns:
  assumes inv: "sch_inv sch" and act: "sid \<in> set (sch_active_streams sch)"
  shows "returns (Stream_MakeInactive sid sch)
    (\<lambda>sch'. sch_inv sch' \<and> same_mode sch sch' \<and> set (sch_active_streams sch') = set (sch_active_streams sch) - {sid})"
proof -
  let ?s = "(stream_of sch sid)\<lparr>st_next_finish_time := 0\<rparr>"
  let ?rest = "filter (\<lambda>s. s \<noteq> sid) (sch_active_streams sch)"
  define sch' where "sch' = (put_stream sid ?s sch)\<lparr>sch_active_streams := ?rest\<rparr>"
  have "sorted_wrt (ActiveStreamComparator (put_stream sid ?s sch)) ?rest"
    using sch_invD(1)[OF inv]
    by (intro sorted_active_cong[OF sorted_wrt_filter[OF sch_invD(5)[OF inv]]]) auto
  then have "sch_inv sch'"
    using sch_invD(1-5)[OF inv] sch_invD(6,7)[OF inv, of sid]
    by (intro sch_inv_put[OF inv, of ?s _ sid]) (simp_all add: sch'_def stream_ok_def)
  then show ?thesis
    using sch_invD(7)[OF inv, of sid] act
    by (auto simp: Stream_MakeInactive_def Stream_ForceMarkInactive_def sch'_def same_mode_def)
qed

lemma Scheduler_IsConsistent_inv: "sch_inv sch \<Longrightarrow> Scheduler_IsConsistent sch"
  by (simp add: Scheduler_IsConsistent_def list_all_iff sch_invD(7))

lemma sch_inv_sending:
  assumes "sch_inv sch" "0 \<le> v"
  shows "sch_inv (sch\<lparr>sch_currently_sending_a_message := b, sch_virtual_time := v\<rparr>)"
proof -
  have "sorted_wrt (ActiveStreamComparator (sch\<lparr>sch_currently_sending_a_message := b, sch_virtual_time := v\<rparr>)) (sch_active_streams sch)"
    by (rule sorted_active_cong[OF sch_invD(5)[OF assms(1)]]) simp
  then show ?thesis using assms unfolding sch_inv_def by simp
qed

section \<open>The contract of a producer\<close>

text \<open>
  \<open>bytes_next\<close> is \<open>bytes_to_send_in_next_message\<close>; \<open>continuing\<close> says that the stream has a message of
  which some but not all fragments have been produced.
\<close>

locale stream_producer =
  fixes produce :: "'p producer" and bytes_next :: "u16 \<Rightarrow> 'p \<Rightarrow> nat"
    and pinv :: "'p \<Rightarrow> bool" and continuing :: "u16 \<Rightarrow> 'p \<Rightarrow> bool" and made :: "nat \<Rightarrow> DataToSend \<Rightarrow> 'p \<Rightarrow> bool"
  assumes produce_law: "\<lbrakk>pinv p; 0 < bytes_next sid p; 0 < max_size\<rbrakk> \<Longrightarrow>
      returns (produce sid now max_size p) (\<lambda>(data, p'). pinv p'
        \<and> (\<forall>sid'. sid' \<noteq> sid \<longrightarrow> bytes_next sid' p' = bytes_next sid' p)
        \<and> (case data of
             None \<Rightarrow> bytes_next sid p' = 0 \<and> \<not> continuing sid p
           | Some d \<Rightarrow> d_stream_id (ds_data d) = sid \<and> (\<not> d_is_end (ds_data d) \<longrightarrow> continuing sid p') \<and> made max_size d p'))"
    and continuing_law: "\<lbrakk>pinv p; continuing sid p\<rbrakk> \<Longrightarrow> 0 < bytes_next sid p"
begin

definition sched_ok :: "StreamScheduler \<Rightarrow> 'p \<Rightarrow> bool" where
  "sched_ok sch p =
     (sch_inv sch \<and> pinv p \<and> (\<forall>sid. sid \<in> set (sch_active_streams sch) \<longleftrightarrow> 0 < bytes_next sid p)
      \<and> (sch_currently_sending_a_message sch \<and> \<not> sch_enable_message_interleaving sch \<longrightarrow>
           (\<exists>sid. sch_current_stream sch = Some sid \<and> continuing sid p)))"

definition chosen_ok :: "nat \<Rightarrow> bool \<Rightarrow> StreamScheduler \<Rightarrow> DataToSend option \<times> StreamScheduler \<times> 'p \<Rightarrow> bool" where
  "chosen_ok max_size rescheduling sch0 r =
     (case r of (data, sch, p) \<Rightarrow>
        sch_inv sch \<and> pinv p
        \<and> sch_enable_message_interleaving sch = sch_enable_message_interleaving sch0
        \<and> sch_currently_sending_a_message sch = sch_currently_sending_a_message sch0
        \<and> (case data of
             None \<Rightarrow> sch_active_streams sch = [] \<and> (\<forall>sid. bytes_next sid p = 0) \<and> rescheduling
           | Some d \<Rightarrow> (\<exists>cur. sch_current_stream sch = Some cur \<and> d_stream_id (ds_data d) = cur
               \<and> (cur \<in> set (sch_active_streams sch) \<longleftrightarrow> \<not> rescheduling)
               \<and> (\<forall>sid. sid \<noteq> cur \<longrightarrow> (sid \<in> set (sch_active_streams sch) \<longleftrightarrow> 0 < bytes_next sid p))
               \<and> (\<not> d_is_end (ds_data d) \<longrightarrow> continuing cur p) \<and> made max_size d p)))"

lemma Stream_Produce_returns:
  assumes inv: "sch_inv sch" and p: "pinv p" "0 < bytes_next sid p" "0 < max_size"
  shows "returns (Stream_Produce produce now max_size sid (sch, p))
    (\<lambda>(data, sch', p'). sch_inv sch' \<and> same_mode sch sch' \<and> sch_active_streams sch' = sch_active_streams sch \<and> pinv p'
        \<and> (\<forall>sid'. sid' \<noteq> sid \<longrightarrow> bytes_next sid' p' = bytes_next sid' p)
        \<and> (case data of
             None \<Rightarrow> bytes_next sid p' = 0 \<and> \<not> continuing sid p
           | Some d \<Rightarrow> d_stream_id (ds_data d) = sid \<and> (\<not> d_is_end (ds_data d) \<longrightarrow> continuing sid p') \<and> made max_size d p'))"
proof -
  have moved: "sch_inv (put_stream sid (s\<lparr>st_current_virtual_time := CalculateFinishTime sch s n\<rparr>) sch)"
    if s: "s = stream_of sch sid" for s n
  proof (rule sch_inv_put[OF inv])
    show "stream_ok (s\<lparr>st_current_virtual_time := CalculateFinishTime sch s n\<rparr>)"
      using sch_invD(6)[OF inv, of sid] CalculateFinishTime_nonneg[of s sch n] by (simp add: stream_ok_def s)
    show "sorted_wrt (ActiveStreamComparator (put_stream sid (s\<lparr>st_current_virtual_time := CalculateFinishTime sch s n\<rparr>) sch))
        (sch_active_streams (put_stream sid (s\<lparr>st_current_virtual_time := CalculateFinishTime sch s n\<rparr>) sch))"
      using sch_invD(1)[OF inv] by (simp, intro sorted_active_cong[OF sch_invD(5)[OF inv]]) (simp add: s)
  qed (use sch_invD(1-5)[OF inv] sch_invD(7)[OF inv, of sid] in \<open>auto simp: s\<close>)
  show ?thesis
    unfolding Stream_Produce_def using moved[OF refl]
    by (simp, intro returns_mono[OF produce_law[OF p]])
      (auto simp: inv same_mode_def Let_def split: option.splits)
qed

text \<open>With rescheduling every round removes a stream, so the loop ends.\<close>

lemma produce_loop_rescheduling:
  assumes "sch_inv sch" "pinv p" "0 < max_size" "\<forall>sid. sid \<in> set (sch_active_streams sch) \<longleftrightarrow> 0 < bytes_next sid p"
  shows "\<exists>r. produce_loop produce now max_size True (sch, p) = Some r \<and> returns r (chosen_ok max_size True sch)"
  using assms
proof (induction "length (sch_active_streams sch)" arbitrary: sch p)
  case 0
  then show ?case by (subst produce_loop.simps) (simp add: chosen_ok_def)
next
  case (Suc n)
  then obtain sid rest where act: "sch_active_streams sch = sid # rest" by (metis length_Suc_conv)
  have new: "sid \<notin> set rest" using sch_invD(4)[OF Suc.prems(1)] by (simp add: act)
  have has: "0 < bytes_next sid p" using Suc.prems(4)[THEN spec, of sid] act by simp
  let ?body = "bind_outcome (choose_stream True sch)
      (\<lambda>(sid, sch). Stream_Produce produce now max_size sid (sch, p))"
  have "returns ?body (\<lambda>(data, sch', p'). sch_inv sch' \<and> same_mode (sch\<lparr>sch_current_stream := Some sid\<rparr>) sch'
        \<and> sch_active_streams sch' = rest \<and> pinv p'
        \<and> (\<forall>sid'. sid' \<noteq> sid \<longrightarrow> bytes_next sid' p' = bytes_next sid' p)
        \<and> (case data of
             None \<Rightarrow> bytes_next sid p' = 0 \<and> \<not> continuing sid p
           | Some d \<Rightarrow> d_stream_id (ds_data d) = sid \<and> (\<not> d_is_end (ds_data d) \<longrightarrow> continuing sid p') \<and> made max_size d p'))"
    using ForceMarkInactive_hd_returns[OF Suc.prems(1) act]
    by (simp add: choose_stream_def act, elim returns_mono)
      (auto intro!: returns_mono[OF Stream_Produce_returns[OF _ Suc.prems(2) has Suc.prems(3)]] simp: same_mode_def)
  then obtain data sch' p' where body: "?body = Value (data, sch', p')" "sch_inv sch'"
      "same_mode (sch\<lparr>sch_current_stream := Some sid\<rparr>) sch'" "sch_active_streams sch' = rest" "pinv p'"
      "\<forall>sid'. sid' \<noteq> sid \<longrightarrow> bytes_next sid' p' = bytes_next sid' p"
    and data: "case data of None \<Rightarrow> bytes_next sid p' = 0 \<and> \<not> continuing sid p
           | Some d \<Rightarrow> d_stream_id (ds_data d) = sid \<and> (\<not> d_is_end (ds_data d) \<longrightarrow> continuing sid p') \<and> made max_size d p'"
    by (auto simp: returns_def)
  have active: "\<forall>x. x \<noteq> sid \<longrightarrow> (x \<in> set rest \<longleftrightarrow> 0 < bytes_next x p')"
    using Suc.prems(4) body(6) act by auto
  show ?case
  proof (cases data)
    case None
    then have "x \<in> set rest \<longleftrightarrow> 0 < bytes_next x p'" for x
      using active[THEN spec, of x] data new by (cases "x = sid") simp_all
    then have "\<exists>r. produce_loop produce now max_size True (sch', p') = Some r \<and> returns r (chosen_ok max_size True sch')"
      using Suc.hyps(2) act body(2,4,5) Suc.prems(3) by (intro Suc.hyps(1)) simp_all
    moreover have "chosen_ok max_size True sch' = chosen_ok max_size True sch"
      using body(3) by (simp add: chosen_ok_def fun_eq_iff same_mode_def)
    ultimately show ?thesis
      using act None by (subst produce_loop.simps) (simp add: body(1))
  next
    case (Some d)
    then have "chosen_ok max_size True sch (data, sch', p')"
      using body active data new by (simp add: chosen_ok_def same_mode_def)
    then show ?thesis
      using act Some by (subst produce_loop.simps) (simp add: body(1))
  qed
qed

lemma produce_loop_continuing:
  assumes "sch_inv sch" "pinv p" "0 < max_size" "\<forall>sid. sid \<in> set (sch_active_streams sch) \<longleftrightarrow> 0 < bytes_next sid p"
    and cur: "sch_current_stream sch = Some sid" "continuing sid p"
  shows "\<exists>r. produce_loop produce now max_size False (sch, p) = Some r \<and> returns r (chosen_ok max_size False sch)"
proof -
  have has: "0 < bytes_next sid p" using continuing_law[OF assms(2) cur(2)] .
  then have act: "sid \<in> set (sch_active_streams sch)" using assms(4)[THEN spec, of sid] by simp
  obtain data sch' p' where body: "Stream_Produce produce now max_size sid (sch, p) = Value (data, sch', p')"
      "sch_inv sch'" "same_mode sch sch'" "sch_active_streams sch' = sch_active_streams sch" "pinv p'"
      "\<forall>sid'. sid' \<noteq> sid \<longrightarrow> bytes_next sid' p' = bytes_next sid' p"
      and data: "case data of None \<Rightarrow> bytes_next sid p' = 0 \<and> \<not> continuing sid p
           | Some d \<Rightarrow> d_stream_id (ds_data d) = sid \<and> (\<not> d_is_end (ds_data d) \<longrightarrow> continuing sid p') \<and> made max_size d p'"
    using Stream_Produce_returns[OF assms(1,2) has assms(3), of now] by (auto simp: returns_def)
  have "\<forall>x. x \<noteq> sid \<longrightarrow> (x \<in> set (sch_active_streams sch) \<longleftrightarrow> 0 < bytes_next x p')"
    using assms(4) body(6) by auto
  then have "data \<noteq> None" "chosen_ok max_size False sch (data, sch', p')"
    using body data act cur by (auto simp: chosen_ok_def same_mode_def split: option.splits)
  then show ?thesis
    using act cur(1) body(1) by (subst produce_loop.simps) (auto simp: choose_stream_def)
qed

lemma after_produce_returns:
  assumes ok: "chosen_ok max_size r sch0 (Some d, sch, p)"
    and r: "r = (sch_enable_message_interleaving sch0 \<or> \<not> sch_currently_sending_a_message sch0)"
  shows "returns (after_produce r d (the (sch_current_stream sch)) (bytes_next (the (sch_current_stream sch)) p) sch)
    (\<lambda>sch'. sched_ok sch' p \<and> sch_enable_message_interleaving sch' = sch_enable_message_interleaving sch0)"
proof -
  obtain cur where cur: "sch_current_stream sch = Some cur" "cur \<in> set (sch_active_streams sch) \<longleftrightarrow> \<not> r"
      "\<forall>sid. sid \<noteq> cur \<longrightarrow> (sid \<in> set (sch_active_streams sch) \<longleftrightarrow> 0 < bytes_next sid p)"
      "\<not> d_is_end (ds_data d) \<longrightarrow> continuing cur p"
    and inv: "sch_inv sch" "pinv p" "sch_enable_message_interleaving sch = sch_enable_message_interleaving sch0"
    using ok by (auto simp: chosen_ok_def)
  define sch1 where "sch1 = sch\<lparr>sch_currently_sending_a_message := \<not> d_is_end (ds_data d),
      sch_virtual_time := st_current_virtual_time (stream_of sch cur)\<rparr>"
  have inv1: "sch_inv sch1"
    using sch_invD(6)[OF inv(1), of cur] unfolding sch1_def by (intro sch_inv_sending inv) (simp add: stream_ok_def)
  have done1: "sched_ok sch' p \<and> sch_enable_message_interleaving sch' = sch_enable_message_interleaving sch0"
    if "sch_inv sch'" "same_mode sch1 sch'"
      "\<And>sid. sid \<in> set (sch_active_streams sch') \<longleftrightarrow> (if sid = cur then 0 < bytes_next cur p else sid \<in> set (sch_active_streams sch))" for sch'
  proof -
    have "sid \<in> set (sch_active_streams sch') \<longleftrightarrow> 0 < bytes_next sid p" for sid
      using that(3)[of sid] cur(3)[THEN spec, of sid] by (cases "sid = cur") simp_all
    then show ?thesis
      using that(1,2) cur(1,4) inv(2,3) by (simp add: sched_ok_def same_mode_def sch1_def)
  qed
  have act1: "sch_active_streams sch1 = sch_active_streams sch" by (simp add: sch1_def)
  show ?thesis
  proof (cases "(0 < bytes_next cur p) = r")
    case True
    show ?thesis
    proof (cases r)
      case r: True
      have "returns (Stream_MakeActive cur (bytes_next cur p) sch1)
          (\<lambda>sch'. sched_ok sch' p \<and> sch_enable_message_interleaving sch' = sch_enable_message_interleaving sch0)"
        using True r cur(2)
        by (intro returns_mono[OF Stream_MakeActive_returns[OF inv1]] done1) (simp_all add: act1)
      then show ?thesis using True r cur(1) by (simp add: after_produce_def sch1_def)
    next
      case r: False
      have "returns (Stream_MakeInactive cur sch1)
          (\<lambda>sch'. sched_ok sch' p \<and> sch_enable_message_interleaving sch' = sch_enable_message_interleaving sch0)"
        using True r cur(2)
        by (intro returns_mono[OF Stream_MakeInactive_returns[OF inv1]] done1) (auto simp: act1)
      then show ?thesis using True r cur(1) by (simp add: after_produce_def sch1_def)
    qed
  next
    case False
    then have "sched_ok sch1 p \<and> sch_enable_message_interleaving sch1 = sch_enable_message_interleaving sch0"
      using cur(2) by (intro done1 inv1) (auto simp: sch1_def same_mode_def)
    then show ?thesis using False cur(1) by (auto simp: after_produce_def sch1_def)
  qed
qed

theorem Scheduler_Produce_returns:
  assumes "sched_ok sch p" "0 < max_size"
  shows "returns (Scheduler_Produce produce bytes_next now max_size (sch, p))
    (\<lambda>(data, sch', p'). sched_ok sch' p' \<and> sch_enable_message_interleaving sch' = sch_enable_message_interleaving sch
       \<and> (case data of None \<Rightarrow> sch_active_streams sch' = [] | Some d \<Rightarrow> made max_size d p'))"
proof -
  define r where "r = (sch_enable_message_interleaving sch \<or> \<not> sch_currently_sending_a_message sch)"
  have "\<exists>m. produce_loop produce now max_size r (sch, p) = Some m \<and> returns m (chosen_ok max_size r sch)"
    using assms produce_loop_rescheduling[of sch p max_size now] produce_loop_continuing[of sch p max_size]
    by (cases r) (auto simp: sched_ok_def r_def)
  then obtain data sch' p' where loop: "produce_loop produce now max_size r (sch, p) = Some (Value (data, sch', p'))"
      and ok: "chosen_ok max_size r sch (data, sch', p')"
    by (auto simp: returns_def)
  have start: "r \<or> sch_current_stream sch \<noteq> None"
    using assms(1) by (auto simp: sched_ok_def r_def)
  show ?thesis
  proof (cases data)
    case None
    then have "sched_ok sch' p'" "sch_inv sch'" "sch_active_streams sch' = []"
        "sch_enable_message_interleaving sch' = sch_enable_message_interleaving sch"
      using ok by (auto simp: chosen_ok_def sched_ok_def r_def)
    then show ?thesis
      using loop start None by (simp add: Scheduler_Produce_def r_def Let_def Scheduler_IsConsistent_inv)
  next
    case (Some d)
    have "d_stream_id (ds_data d) = the (sch_current_stream sch')" "made max_size d p'"
      using ok Some by (auto simp: chosen_ok_def)
    then show ?thesis
      using loop start Some returns_mono[OF after_produce_returns[OF ok[unfolded Some] r_def]]
      by (simp add: Scheduler_Produce_def Let_def flip: r_def) (auto simp: sched_ok_def Scheduler_IsConsistent_inv)
  qed
qed

end

end
