(* ===== verification/Send_Queue.thy ===== *)
theory Send_Queue
  imports Stream_Scheduler Handover Outstanding_Data
begin

text \<open>
  The send queue, \<open>tx/rr_send_queue.cc\<close>: the messages that wait to be sent, one queue per stream, and
  their fragmentation into chunks.  The members that the streams share with their parent (the map of
  streams, the total of buffered bytes and the callbacks made so far, oldest first) form one record;
  every debug check of the source is a check of the model.  Byte counts are natural numbers: they are
  sums of the sizes of messages in memory.
\<close>

section \<open>Data\<close>

record MessageAttributes =
  ma_unordered :: bool
  ma_max_retransmissions :: u16
  ma_expires_at :: Timestamp
  ma_lifecycle_id :: u64

record SendOptions =
  so_unordered :: bool
  so_lifetime :: "int option"
  so_max_retransmissions :: "u64 option"
  so_lifecycle_id :: u64

record ThresholdWatcher =
  tw_value :: nat
  tw_low_threshold :: nat

datatype SendQueueEvent =
  OnBufferedAmountLow u16 | OnTotalBufferedAmountLow
  | OnLifecycleMessageExpired u64 bool | OnLifecycleEnd u64

datatype PauseState = kNotPaused | kPending | kPaused | kResetting

record QueuedItem =
  qi_message_id :: u32
  qi_message :: DcSctpMessage
  qi_attributes :: MessageAttributes
  qi_remaining_offset :: nat
  qi_remaining_size :: nat
  qi_mid :: "u32 option"
  qi_ssn :: "u16 option"
  qi_current_fsn :: u32

record OutgoingStream =
  og_pause_state :: PauseState
  og_next_unordered_mid :: u32
  og_next_ordered_mid :: u32
  og_next_ssn :: u16
  og_items :: "QueuedItem list"
  og_buffered_amount :: ThresholdWatcher

record OutgoingStreams =
  ob_streams :: "(u16, OutgoingStream) omap"
  ob_total_buffered_amount :: ThresholdWatcher
  ob_events :: "SendQueueEvent list"

record RRSendQueue =
  sq_buffer_size :: nat
  sq_default_priority :: u16
  sq_current_message_id :: u32
  sq_scheduler :: StreamScheduler
  sq_out :: OutgoingStreams

definition new_queued_item :: "u32 \<Rightarrow> DcSctpMessage \<Rightarrow> MessageAttributes \<Rightarrow> QueuedItem" where
  "new_queued_item message_id message attributes =
     \<lparr>qi_message_id = message_id, qi_message = message, qi_attributes = attributes, qi_remaining_offset = 0,
      qi_remaining_size = length (msg_payload message), qi_mid = None, qi_ssn = None, qi_current_fsn = 0\<rparr>"

definition new_outgoing_stream :: "HandoverOutgoingStream option \<Rightarrow> OutgoingStream" where
  "new_outgoing_stream state =
     \<lparr>og_pause_state = kNotPaused,
      og_next_unordered_mid = (case state of None \<Rightarrow> 0 | Some s \<Rightarrow> hos_next_unordered_mid s),
      og_next_ordered_mid = (case state of None \<Rightarrow> 0 | Some s \<Rightarrow> hos_next_ordered_mid s),
      og_next_ssn = (case state of None \<Rightarrow> 0 | Some s \<Rightarrow> ucast (hos_next_ssn s)),
      og_items = [], og_buffered_amount = \<lparr>tw_value = 0, tw_low_threshold = 0\<rparr>\<rparr>"

section \<open>Watched amounts\<close>

definition tw_Increase :: "nat \<Rightarrow> ThresholdWatcher \<Rightarrow> ThresholdWatcher" where
  "tw_Increase n w = w\<lparr>tw_value := tw_value w + n\<rparr>"

text \<open>The flag says whether the callback is made.\<close>

definition tw_Decrease :: "nat \<Rightarrow> ThresholdWatcher \<Rightarrow> (bool \<times> ThresholdWatcher) outcome" where
  "tw_Decrease n w =
     bind_outcome (rtc_check (n \<le> tw_value w)) (\<lambda>_.
       let value = tw_value w - n in
       Value (tw_value w > tw_low_threshold w \<and> value \<le> tw_low_threshold w, w\<lparr>tw_value := value\<rparr>))"

definition tw_SetLowThreshold :: "nat \<Rightarrow> ThresholdWatcher \<Rightarrow> bool \<times> ThresholdWatcher" where
  "tw_SetLowThreshold low_threshold w =
     (tw_low_threshold w < tw_value w \<and> low_threshold \<ge> tw_value w, w\<lparr>tw_low_threshold := low_threshold\<rparr>)"

definition make_callback :: "bool \<Rightarrow> SendQueueEvent \<Rightarrow> OutgoingStreams \<Rightarrow> OutgoingStreams" where
  "make_callback b e p = (if b then p\<lparr>ob_events := ob_events p @ [e]\<rparr> else p)"

definition decrease_buffered ::
  "u16 \<Rightarrow> nat \<Rightarrow> OutgoingStream \<times> OutgoingStreams \<Rightarrow> (OutgoingStream \<times> OutgoingStreams) outcome" where
  "decrease_buffered sid n sp =
     (case sp of (s, p) \<Rightarrow>
      bind_outcome (tw_Decrease n (og_buffered_amount s)) (\<lambda>(low, w).
      let s = s\<lparr>og_buffered_amount := w\<rparr>; p = make_callback low (OnBufferedAmountLow sid) p in
      bind_outcome (tw_Decrease n (ob_total_buffered_amount p)) (\<lambda>(low, w).
        Value (s, make_callback low OnTotalBufferedAmountLow (p\<lparr>ob_total_buffered_amount := w\<rparr>)))))"

section \<open>One stream\<close>

definition bytes_to_send_in_next_message :: "OutgoingStream \<Rightarrow> nat" where
  "bytes_to_send_in_next_message s =
     (if og_pause_state s = kPaused \<or> og_pause_state s = kResetting then 0
      else case og_items s of [] \<Rightarrow> 0 | item # _ \<Rightarrow> qi_remaining_size item)"

definition has_partially_sent_message :: "OutgoingStream \<Rightarrow> bool" where
  "has_partially_sent_message s = (case og_items s of [] \<Rightarrow> False | item # _ \<Rightarrow> qi_mid item \<noteq> None)"

definition IsReadyToBeReset :: "OutgoingStream \<Rightarrow> bool" where
  "IsReadyToBeReset s = (og_pause_state s = kPaused)"

definition IsResetting :: "OutgoingStream \<Rightarrow> bool" where
  "IsResetting s = (og_pause_state s = kResetting)"

definition SetAsResetting :: "OutgoingStream \<Rightarrow> OutgoingStream outcome" where
  "SetAsResetting s =
     bind_outcome (rtc_check (og_pause_state s = kPaused)) (\<lambda>_. Value (s\<lparr>og_pause_state := kResetting\<rparr>))"

definition OS_IsConsistent :: "OutgoingStream \<Rightarrow> bool" where
  "OS_IsConsistent s = ((\<Sum>item\<leftarrow>og_items s. qi_remaining_size item) = tw_value (og_buffered_amount s))"

definition HandleMessageExpired ::
  "u16 \<Rightarrow> QueuedItem \<Rightarrow> OutgoingStream \<times> OutgoingStreams \<Rightarrow> (OutgoingStream \<times> OutgoingStreams) outcome" where
  "HandleMessageExpired sid item sp =
     bind_outcome (decrease_buffered sid (qi_remaining_size item) sp) (\<lambda>(s, p).
       let id = ma_lifecycle_id (qi_attributes item) in
       Value (s, if id \<noteq> 0 then p\<lparr>ob_events := ob_events p @ [OnLifecycleMessageExpired id False, OnLifecycleEnd id]\<rparr>
                 else p))"

text \<open>The allocation of the message identifier and of the stream sequence number.\<close>

definition allocate_numbers :: "QueuedItem \<Rightarrow> OutgoingStream \<Rightarrow> QueuedItem \<times> OutgoingStream" where
  "allocate_numbers item0 s0 =
     (let unordered = ma_unordered (qi_attributes item0);
          (item, s) =
            (if qi_mid item0 = None
             then if unordered
                  then (item0\<lparr>qi_mid := Some (og_next_unordered_mid s0)\<rparr>, s0\<lparr>og_next_unordered_mid := og_next_unordered_mid s0 + 1\<rparr>)
                  else (item0\<lparr>qi_mid := Some (og_next_ordered_mid s0)\<rparr>, s0\<lparr>og_next_ordered_mid := og_next_ordered_mid s0 + 1\<rparr>)
             else (item0, s0)) in
      if \<not> unordered \<and> qi_ssn item = None
      then (item\<lparr>qi_ssn := Some (og_next_ssn s)\<rparr>, s\<lparr>og_next_ssn := og_next_ssn s + 1\<rparr>)
      else (item, s))"

text \<open>
  The comparisons of pointers in the source: the view of an empty range has no address, so it is at
  the beginning or at the end of a message only if the message is empty.
\<close>

definition fragment_of :: "nat \<Rightarrow> QueuedItem \<Rightarrow> bytes \<times> bool \<times> bool" where
  "fragment_of max_size item =
     (let message_payload = msg_payload (qi_message item);
          chunk_payload = take max_size (drop (qi_remaining_offset item) message_payload) in
      (chunk_payload,
       if chunk_payload = [] then message_payload = [] else qi_remaining_offset item = 0,
       if chunk_payload = [] then message_payload = []
       else qi_remaining_offset item + length chunk_payload = length message_payload))"

definition produce_fragment ::
  "u16 \<Rightarrow> nat \<Rightarrow> QueuedItem \<Rightarrow> QueuedItem list \<Rightarrow> OutgoingStream \<times> OutgoingStreams
    \<Rightarrow> (DataToSend option \<times> OutgoingStream \<times> OutgoingStreams) outcome" where
  "produce_fragment sid max_size item0 rest sp =
     (let (item, s) = allocate_numbers item0 (fst sp);
          (payload, is_beginning, is_end) = fragment_of max_size item;
          fsn = qi_current_fsn item;
          item = item\<lparr>qi_current_fsn := fsn + 1\<rparr>;
          chunk = \<lparr>ds_message_id = qi_message_id item,
                   ds_data = \<lparr>d_stream_id = msg_stream_id (qi_message item),
                              d_ssn = (case qi_ssn item of None \<Rightarrow> 0 | Some ssn \<Rightarrow> ssn),
                              d_mid = the (qi_mid item), d_fsn = fsn, d_ppid = msg_ppid (qi_message item),
                              d_payload = payload, d_is_beginning = is_beginning, d_is_end = is_end,
                              d_is_unordered = ma_unordered (qi_attributes item)\<rparr>,
                   ds_max_retransmissions = ma_max_retransmissions (qi_attributes item),
                   ds_expires_at = ma_expires_at (qi_attributes item),
                   ds_lifecycle_id = (if is_end then ma_lifecycle_id (qi_attributes item) else 0)\<rparr> in
      bind_outcome (decrease_buffered sid (length payload) (s, snd sp)) (\<lambda>(s, p).
      if is_end
      then let s = s\<lparr>og_items := rest, og_pause_state := (if og_pause_state s = kPending then kPaused else og_pause_state s)\<rparr> in
           bind_outcome (rtc_check (OS_IsConsistent s)) (\<lambda>_. Value (Some chunk, s, p))
      else let item = item\<lparr>qi_remaining_offset := qi_remaining_offset item + length payload,
                           qi_remaining_size := qi_remaining_size item - length payload\<rparr>;
               s = s\<lparr>og_items := item # rest\<rparr> in
           bind_outcome (rtc_check (qi_remaining_offset item + qi_remaining_size item = length (msg_payload (qi_message item)))) (\<lambda>_.
           bind_outcome (rtc_check (qi_remaining_size item > 0)) (\<lambda>_.
           bind_outcome (rtc_check (OS_IsConsistent s)) (\<lambda>_. Value (Some chunk, s, p))))))"

fun OS_produce_loop ::
  "u16 \<Rightarrow> Timestamp \<Rightarrow> nat \<Rightarrow> QueuedItem list \<Rightarrow> OutgoingStream \<times> OutgoingStreams
    \<Rightarrow> (DataToSend option \<times> OutgoingStream \<times> OutgoingStreams) outcome" where
  "OS_produce_loop sid now max_size [] (s, p) =
     (let s = s\<lparr>og_items := []\<rparr> in bind_outcome (rtc_check (OS_IsConsistent s)) (\<lambda>_. Value (None, s, p)))"
| "OS_produce_loop sid now max_size (item # rest) (s, p) =
     (if qi_mid item = None \<and> ma_expires_at (qi_attributes item) \<le> now
      then bind_outcome (HandleMessageExpired sid item (s, p)) (OS_produce_loop sid now max_size rest)
      else produce_fragment sid max_size item rest (s, p))"

definition out_stream :: "OutgoingStreams \<Rightarrow> u16 \<Rightarrow> OutgoingStream" where
  "out_stream p sid = find_or (new_outgoing_stream None) sid (ob_streams p)"

definition put_out :: "u16 \<Rightarrow> OutgoingStream \<Rightarrow> OutgoingStreams \<Rightarrow> OutgoingStreams" where
  "put_out sid s p = p\<lparr>ob_streams := assign sid s (ob_streams p)\<rparr>"

definition OS_Produce :: "OutgoingStreams producer" where
  "OS_Produce sid now max_size p =
     (let s = out_stream p sid in
      bind_outcome (rtc_check (og_pause_state s \<noteq> kPaused \<and> og_pause_state s \<noteq> kResetting)) (\<lambda>_.
      bind_outcome (OS_produce_loop sid now max_size (og_items s) (s, p)) (\<lambda>(data, s, p).
        Value (data, put_out sid s p))))"

section \<open>The operations of a stream in its queue\<close>

abbreviation queue_stream :: "RRSendQueue \<Rightarrow> u16 \<Rightarrow> OutgoingStream" where
  "queue_stream q sid \<equiv> out_stream (sq_out q) sid"

definition OS_Add :: "DcSctpMessage \<Rightarrow> MessageAttributes \<Rightarrow> RRSendQueue \<Rightarrow> RRSendQueue outcome" where
  "OS_Add message attributes q =
     (let sid = msg_stream_id message; size = length (msg_payload message); s0 = queue_stream q sid;
          was_active = bytes_to_send_in_next_message s0 > 0;
          s = s0\<lparr>og_buffered_amount := tw_Increase size (og_buffered_amount s0),
                 og_items := og_items s0 @ [new_queued_item (sq_current_message_id q) message attributes]\<rparr>;
          p = sq_out q;
          q = q\<lparr>sq_current_message_id := sq_current_message_id q + 1,
                sq_out := put_out sid s (p\<lparr>ob_total_buffered_amount := tw_Increase size (ob_total_buffered_amount p)\<rparr>)\<rparr> in
      bind_outcome (if was_active then Value (sq_scheduler q)
                    else Stream_MaybeMakeActive sid (bytes_to_send_in_next_message s) (sq_scheduler q)) (\<lambda>sch.
      bind_outcome (rtc_check (OS_IsConsistent s)) (\<lambda>_. Value (q\<lparr>sq_scheduler := sch\<rparr>))))"

definition OS_Discard :: "u16 \<Rightarrow> u32 \<Rightarrow> RRSendQueue \<Rightarrow> (bool \<times> RRSendQueue) outcome" where
  "OS_Discard sid message_id q =
     (let s0 = queue_stream q sid in
      case og_items s0 of
        [] \<Rightarrow> bind_outcome (rtc_check (OS_IsConsistent s0)) (\<lambda>_. Value (False, q))
      | item # rest \<Rightarrow>
          if qi_message_id item = message_id
          then bind_outcome (HandleMessageExpired sid item (s0, sq_out q)) (\<lambda>(s, p).
               let s = s\<lparr>og_items := rest\<rparr>; sch = ForceReschedule (sq_scheduler q) in
               bind_outcome
                 (if og_pause_state s = kPending
                  then bind_outcome (Stream_MakeInactive sid sch) (\<lambda>sch. Value (s\<lparr>og_pause_state := kPaused\<rparr>, sch))
                  else if bytes_to_send_in_next_message s = 0
                  then bind_outcome (Stream_MakeInactive sid sch) (\<lambda>sch. Value (s, sch))
                  else Value (s, sch)) (\<lambda>(s, sch).
               bind_outcome (rtc_check (OS_IsConsistent s)) (\<lambda>_.
                 Value (True, q\<lparr>sq_scheduler := sch, sq_out := put_out sid s p\<rparr>))))
          else bind_outcome (rtc_check (OS_IsConsistent s0)) (\<lambda>_. Value (False, q)))"

text \<open>The loop that throws away the messages of which nothing has been sent.\<close>

fun expire_unsent ::
  "u16 \<Rightarrow> QueuedItem list \<Rightarrow> OutgoingStream \<times> OutgoingStreams
    \<Rightarrow> (QueuedItem list \<times> OutgoingStream \<times> OutgoingStreams) outcome" where
  "expire_unsent sid [] sp = Value ([], sp)"
| "expire_unsent sid (item # rest) sp =
     (if qi_remaining_offset item = 0
      then bind_outcome (HandleMessageExpired sid item sp) (expire_unsent sid rest)
      else bind_outcome (expire_unsent sid rest sp) (\<lambda>(kept, sp). Value (item # kept, sp)))"

definition OS_Pause :: "u16 \<Rightarrow> RRSendQueue \<Rightarrow> RRSendQueue outcome" where
  "OS_Pause sid q =
     (let s0 = queue_stream q sid in
      if og_pause_state s0 \<noteq> kNotPaused then Value q
      else
        let had_pending_items = og_items s0 \<noteq> [] in
        bind_outcome (expire_unsent sid (og_items s0) (s0, sq_out q)) (\<lambda>(items, s, p).
        let pause_state = (if items = [] \<or> qi_remaining_offset (hd items) = 0 then kPaused else kPending);
            s = s\<lparr>og_items := items, og_pause_state := pause_state\<rparr> in
        bind_outcome (if had_pending_items \<and> pause_state = kPaused then Stream_MakeInactive sid (sq_scheduler q)
                      else Value (sq_scheduler q)) (\<lambda>sch.
        bind_outcome (rtc_check (OS_IsConsistent s)) (\<lambda>_.
          Value (q\<lparr>sq_scheduler := sch, sq_out := put_out sid s p\<rparr>)))))"

definition OS_Resume :: "u16 \<Rightarrow> RRSendQueue \<Rightarrow> RRSendQueue outcome" where
  "OS_Resume sid q =
     bind_outcome (rtc_check (og_pause_state (queue_stream q sid) = kResetting)) (\<lambda>_.
     let s = (queue_stream q sid)\<lparr>og_pause_state := kNotPaused\<rparr> in
     bind_outcome (Stream_MaybeMakeActive sid (bytes_to_send_in_next_message s) (sq_scheduler q)) (\<lambda>sch.
     bind_outcome (rtc_check (OS_IsConsistent s)) (\<lambda>_.
       Value (q\<lparr>sq_scheduler := sch, sq_out := put_out sid s (sq_out q)\<rparr>))))"

definition OS_Reset :: "u16 \<Rightarrow> RRSendQueue \<Rightarrow> RRSendQueue outcome" where
  "OS_Reset sid q =
     (let s0 = queue_stream q sid; p = sq_out q; old_pause_state = og_pause_state s0;
          s = s0\<lparr>og_pause_state := kNotPaused, og_next_ordered_mid := 0, og_next_unordered_mid := 0, og_next_ssn := 0\<rparr> in
      case og_items s of
        [] \<Rightarrow> bind_outcome (rtc_check (OS_IsConsistent s)) (\<lambda>_. Value (q\<lparr>sq_out := put_out sid s p\<rparr>))
      | item # rest \<Rightarrow>
          let size = length (msg_payload (qi_message item)); sent = size - qi_remaining_size item;
              s = s\<lparr>og_buffered_amount := tw_Increase sent (og_buffered_amount s),
                    og_items := item\<lparr>qi_remaining_offset := 0, qi_remaining_size := size, qi_mid := None,
                                     qi_ssn := None, qi_current_fsn := 0\<rparr> # rest\<rparr>;
              p = p\<lparr>ob_total_buffered_amount := tw_Increase sent (ob_total_buffered_amount p)\<rparr> in
          bind_outcome (if old_pause_state = kPaused \<or> old_pause_state = kResetting
                        then Stream_MaybeMakeActive sid (bytes_to_send_in_next_message s) (sq_scheduler q)
                        else Value (sq_scheduler q)) (\<lambda>sch.
          bind_outcome (rtc_check (OS_IsConsistent s)) (\<lambda>_.
            Value (q\<lparr>sq_scheduler := sch, sq_out := put_out sid s p\<rparr>))))"

section \<open>The queue\<close>

definition new_send_queue :: "nat \<Rightarrow> u64 \<Rightarrow> u16 \<Rightarrow> nat \<Rightarrow> RRSendQueue" where
  "new_send_queue buffer_size mtu default_priority low_threshold =
     \<lparr>sq_buffer_size = buffer_size, sq_default_priority = default_priority, sq_current_message_id = 0,
      sq_scheduler = new_stream_scheduler mtu,
      sq_out = \<lparr>ob_streams = [],
                ob_total_buffered_amount = snd (tw_SetLowThreshold low_threshold \<lparr>tw_value = 0, tw_low_threshold = 0\<rparr>),
                ob_events = []\<rparr>\<rparr>"

definition total_buffered_amount :: "RRSendQueue \<Rightarrow> nat" where
  "total_buffered_amount q = tw_value (ob_total_buffered_amount (sq_out q))"

definition SQ_IsConsistent :: "RRSendQueue \<Rightarrow> bool" where
  "SQ_IsConsistent q =
     (let streams = ob_streams (sq_out q);
          expected_active_streams = map fst (filter (\<lambda>(sid, s). bytes_to_send_in_next_message s > 0) streams) in
      expected_active_streams = ActiveStreamsForTesting (sq_scheduler q)
      \<and> (\<Sum>(sid, s)\<leftarrow>streams. tw_value (og_buffered_amount s)) = total_buffered_amount q)"

definition GetOrCreateStreamInfo :: "u16 \<Rightarrow> RRSendQueue \<Rightarrow> RRSendQueue" where
  "GetOrCreateStreamInfo sid q =
     (if map_of (ob_streams (sq_out q)) sid \<noteq> None then q
      else q\<lparr>sq_scheduler := CreateStream sid (sq_default_priority q) (sq_scheduler q),
             sq_out := put_out sid (new_outgoing_stream None) (sq_out q)\<rparr>)"

definition checked :: "RRSendQueue \<Rightarrow> RRSendQueue outcome" where
  "checked q = bind_outcome (rtc_check (SQ_IsConsistent q)) (\<lambda>_. Value q)"

definition SQ_Add :: "Timestamp \<Rightarrow> DcSctpMessage \<Rightarrow> SendOptions \<Rightarrow> RRSendQueue \<Rightarrow> RRSendQueue outcome" where
  "SQ_Add now message send_options q =
     bind_outcome (rtc_check (msg_payload message \<noteq> [])) (\<lambda>_.
     let attributes =
           \<lparr>ma_unordered = so_unordered send_options,
            ma_max_retransmissions =
              (case so_max_retransmissions send_options of None \<Rightarrow> NoLimit | Some n \<Rightarrow> ucast n),
            ma_expires_at =
              (case so_lifetime send_options of
                 None \<Rightarrow> PlusInfinity
               | Some lifetime \<Rightarrow> time_plus (time_plus now (ToTimeDelta lifetime)) (Millis 1)),
            ma_lifecycle_id = so_lifecycle_id send_options\<rparr> in
     bind_outcome (OS_Add message attributes (GetOrCreateStreamInfo (msg_stream_id message) q)) checked)"

definition SQ_IsFull :: "RRSendQueue \<Rightarrow> bool" where
  "SQ_IsFull q = (total_buffered_amount q \<ge> sq_buffer_size q)"

definition SQ_IsEmpty :: "RRSendQueue \<Rightarrow> bool" where
  "SQ_IsEmpty q = (total_buffered_amount q = 0)"

definition SQ_Produce :: "Timestamp \<Rightarrow> nat \<Rightarrow> RRSendQueue \<Rightarrow> (DataToSend option \<times> RRSendQueue) outcome" where
  "SQ_Produce now max_size q =
     bind_outcome
       (Scheduler_Produce OS_Produce (\<lambda>sid p. bytes_to_send_in_next_message (out_stream p sid)) now max_size
          (sq_scheduler q, sq_out q))
       (\<lambda>(data, sch, p). Value (data, q\<lparr>sq_scheduler := sch, sq_out := p\<rparr>))"

definition SQ_Discard :: "u16 \<Rightarrow> u32 \<Rightarrow> RRSendQueue \<Rightarrow> (bool \<times> RRSendQueue) outcome" where
  "SQ_Discard sid message_id q =
     bind_outcome (OS_Discard sid message_id (GetOrCreateStreamInfo sid q)) (\<lambda>(has_discarded, q).
     bind_outcome (checked q) (\<lambda>q. Value (has_discarded, q)))"

definition PrepareResetStream :: "u16 \<Rightarrow> RRSendQueue \<Rightarrow> RRSendQueue outcome" where
  "PrepareResetStream sid q = bind_outcome (OS_Pause sid (GetOrCreateStreamInfo sid q)) checked"

definition HasStreamsReadyToBeReset :: "RRSendQueue \<Rightarrow> bool" where
  "HasStreamsReadyToBeReset q = list_ex (\<lambda>(sid, s). IsReadyToBeReset s) (ob_streams (sq_out q))"

fun mark_resetting :: "(u16, OutgoingStream) omap \<Rightarrow> (u16 list \<times> (u16, OutgoingStream) omap) outcome" where
  "mark_resetting [] = Value ([], [])"
| "mark_resetting ((sid, s) # streams) =
     bind_outcome (if IsReadyToBeReset s then bind_outcome (SetAsResetting s) (\<lambda>s. Value ([sid], s)) else Value ([], s)) (\<lambda>(r, s).
     bind_outcome (mark_resetting streams) (\<lambda>(ready, streams). Value (r @ ready, (sid, s) # streams)))"

definition GetStreamsReadyToBeReset :: "RRSendQueue \<Rightarrow> (u16 list \<times> RRSendQueue) outcome" where
  "GetStreamsReadyToBeReset q =
     bind_outcome (rtc_check (\<not> list_ex (\<lambda>(sid, s). IsResetting s) (ob_streams (sq_out q)))) (\<lambda>_.
     bind_outcome (mark_resetting (ob_streams (sq_out q))) (\<lambda>(ready, streams).
       Value (ready, q\<lparr>sq_out := (sq_out q)\<lparr>ob_streams := streams\<rparr>\<rparr>)))"

definition for_each_resetting :: "(u16 \<Rightarrow> RRSendQueue \<Rightarrow> RRSendQueue outcome) \<Rightarrow> RRSendQueue \<Rightarrow> RRSendQueue outcome" where
  "for_each_resetting f q =
     bind_outcome (rtc_check (list_ex (\<lambda>(sid, s). IsResetting s) (ob_streams (sq_out q)))) (\<lambda>_.
     bind_outcome (fold_outcome (\<lambda>sid q. if IsResetting (queue_stream q sid) then f sid q else Value q)
       (map fst (ob_streams (sq_out q))) q) checked)"

definition CommitResetStreams :: "RRSendQueue \<Rightarrow> RRSendQueue outcome" where
  "CommitResetStreams q = for_each_resetting OS_Reset q"

definition RollbackResetStreams :: "RRSendQueue \<Rightarrow> RRSendQueue outcome" where
  "RollbackResetStreams q = for_each_resetting OS_Resume q"

definition SQ_Reset :: "RRSendQueue \<Rightarrow> RRSendQueue outcome" where
  "SQ_Reset q =
     bind_outcome (fold_outcome OS_Reset (map fst (ob_streams (sq_out q))) q) (\<lambda>q.
       Value (q\<lparr>sq_scheduler := ForceReschedule (sq_scheduler q)\<rparr>))"

definition buffered_amount :: "u16 \<Rightarrow> RRSendQueue \<Rightarrow> nat" where
  "buffered_amount sid q =
     (case map_of (ob_streams (sq_out q)) sid of None \<Rightarrow> 0 | Some s \<Rightarrow> tw_value (og_buffered_amount s))"

definition buffered_amount_low_threshold :: "u16 \<Rightarrow> RRSendQueue \<Rightarrow> nat" where
  "buffered_amount_low_threshold sid q =
     (case map_of (ob_streams (sq_out q)) sid of None \<Rightarrow> 0 | Some s \<Rightarrow> tw_low_threshold (og_buffered_amount s))"

definition SetBufferedAmountLowThreshold :: "u16 \<Rightarrow> nat \<Rightarrow> RRSendQueue \<Rightarrow> RRSendQueue" where
  "SetBufferedAmountLowThreshold sid n q0 =
     (let q = GetOrCreateStreamInfo sid q0; s = queue_stream q sid;
          (low, w) = tw_SetLowThreshold n (og_buffered_amount s) in
      q\<lparr>sq_out := make_callback low (OnBufferedAmountLow sid) (put_out sid (s\<lparr>og_buffered_amount := w\<rparr>) (sq_out q))\<rparr>)"

definition SQ_EnableMessageInterleaving :: "bool \<Rightarrow> RRSendQueue \<Rightarrow> RRSendQueue" where
  "SQ_EnableMessageInterleaving enabled q =
     q\<lparr>sq_scheduler := EnableMessageInterleaving enabled (sq_scheduler q)\<rparr>"

definition SetStreamPriority :: "u16 \<Rightarrow> u16 \<Rightarrow> RRSendQueue \<Rightarrow> RRSendQueue outcome" where
  "SetStreamPriority sid priority q0 =
     (let q = GetOrCreateStreamInfo sid q0 in
      checked (q\<lparr>sq_scheduler := Stream_SetPriority sid priority (sq_scheduler q)\<rparr>))"

definition GetStreamPriority :: "u16 \<Rightarrow> RRSendQueue \<Rightarrow> u16" where
  "GetStreamPriority sid q =
     (case map_of (ob_streams (sq_out q)) sid of
        None \<Rightarrow> sq_default_priority q
      | Some s \<Rightarrow> st_priority (stream_of (sq_scheduler q) sid))"

definition SQ_GetHandoverReadiness :: "RRSendQueue \<Rightarrow> HandoverReadinessStatus" where
  "SQ_GetHandoverReadiness q =
     (if SQ_IsEmpty q then ready_status else status_Add_reason ready_status kSendQueueNotEmpty)"

definition SQ_AddHandoverState :: "RRSendQueue \<Rightarrow> HandoverState \<Rightarrow> HandoverState" where
  "SQ_AddHandoverState q state =
     state\<lparr>hs_tx := (hs_tx state)\<lparr>htx_streams := htx_streams (hs_tx state) @
       map (\<lambda>(sid, s). \<lparr>hos_id = ucast sid, hos_next_ssn = ucast (og_next_ssn s),
                         hos_next_unordered_mid = og_next_unordered_mid s,
                         hos_next_ordered_mid = og_next_ordered_mid s,
                         hos_priority = st_priority (stream_of (sq_scheduler q) sid)\<rparr>)
         (ob_streams (sq_out q))\<rparr>\<rparr>"

definition SQ_RestoreFromState :: "HandoverState \<Rightarrow> RRSendQueue \<Rightarrow> RRSendQueue" where
  "SQ_RestoreFromState state q =
     fold (\<lambda>state_stream q.
         let sid = ucast (hos_id state_stream);
             (inserted, streams) = emplace sid (new_outgoing_stream (Some state_stream)) (ob_streams (sq_out q)) in
         q\<lparr>sq_scheduler := (if inserted then CreateStream sid (hos_priority state_stream) (sq_scheduler q) else sq_scheduler q),
           sq_out := (sq_out q)\<lparr>ob_streams := streams\<rparr>\<rparr>)
       (htx_streams (hs_tx state)) q"

end
