(* ===== verification/Send_Queue_Consistency.thy ===== *)
theory Send_Queue_Consistency
  imports Send_Queue
begin

text \<open>
  The streams of the send queue honour the contract of the scheduler: the interpretation of
  \<open>stream_producer\<close>.  Its invariant says that only the first message of a stream can be partly sent,
  and that the watched amounts are the sums of what remains.
\<close>

section \<open>The invariant of a stream\<close>

definition item_fits :: "u16 \<Rightarrow> QueuedItem \<Rightarrow> bool" where
  "item_fits sid i =
     (qi_remaining_offset i + qi_remaining_size i = length (msg_payload (qi_message i))
      \<and> 0 < qi_remaining_size i \<and> msg_stream_id (qi_message i) = sid)"

definition unsent :: "QueuedItem \<Rightarrow> bool" where
  "unsent i = (qi_remaining_offset i = 0 \<and> qi_mid i = None \<and> qi_ssn i = None \<and> qi_current_fsn i = 0)"

definition begun :: "QueuedItem \<Rightarrow> bool" where
  "begun i = (0 < qi_remaining_offset i \<and> qi_mid i \<noteq> None \<and> (ma_unordered (qi_attributes i) \<or> qi_ssn i \<noteq> None))"

definition begun_items :: "QueuedItem list \<Rightarrow> bool" where
  "begun_items items = (case items of [] \<Rightarrow> False | i # _ \<Rightarrow> begun i)"

definition items_ok :: "u16 \<Rightarrow> QueuedItem list \<Rightarrow> bool" where
  "items_ok sid items =
     ((\<forall>i \<in> set items. item_fits sid i)
      \<and> (case items of [] \<Rightarrow> True | i # rest \<Rightarrow> (unsent i \<or> begun i) \<and> (\<forall>j \<in> set rest. unsent j)))"

definition remaining :: "QueuedItem list \<Rightarrow> nat" where
  "remaining items = (\<Sum>item\<leftarrow>items. qi_remaining_size item)"

definition os_inv :: "u16 \<Rightarrow> OutgoingStream \<Rightarrow> bool" where
  "os_inv sid s =
     (items_ok sid (og_items s) \<and> tw_value (og_buffered_amount s) = remaining (og_items s)
      \<and> (og_pause_state s = kPending \<longrightarrow> begun_items (og_items s))
      \<and> (og_pause_state s = kPaused \<or> og_pause_state s = kResetting \<longrightarrow> \<not> begun_items (og_items s)))"

abbreviation stream_bytes :: "OutgoingStream \<Rightarrow> nat" where
  "stream_bytes s \<equiv> tw_value (og_buffered_amount s)"

definition out_inv :: "OutgoingStreams \<Rightarrow> bool" where
  "out_inv p =
     (omap_ok (ob_streams p) \<and> (\<forall>sid. os_inv sid (out_stream p sid))
      \<and> tw_value (ob_total_buffered_amount p) = msum stream_bytes (ob_streams p))"

text \<open>A stream that an operation has taken out of the map.\<close>

definition taken :: "u16 \<Rightarrow> OutgoingStream \<times> OutgoingStreams \<Rightarrow> bool" where
  "taken sid sp =
     (case sp of (s, p) \<Rightarrow>
        omap_ok (ob_streams p) \<and> (\<forall>sid'. sid' \<noteq> sid \<longrightarrow> os_inv sid' (out_stream p sid'))
        \<and> tw_value (ob_total_buffered_amount p) + stream_bytes (out_stream p sid)
            = msum stream_bytes (ob_streams p) + stream_bytes s)"

lemma new_outgoing_stream_simps [simp]:
  "og_items (new_outgoing_stream st) = []" "og_pause_state (new_outgoing_stream st) = kNotPaused"
  "stream_bytes (new_outgoing_stream st) = 0" "os_inv sid (new_outgoing_stream st)"
  by (simp_all add: new_outgoing_stream_def os_inv_def items_ok_def remaining_def)

lemma remaining_simps [simp]:
  "remaining [] = 0" "remaining (i # is) = qi_remaining_size i + remaining is"
  "remaining (xs @ ys) = remaining xs + remaining ys"
  by (simp_all add: remaining_def)

lemma OS_IsConsistent_iff: "OS_IsConsistent s \<longleftrightarrow> stream_bytes s = remaining (og_items s)"
  by (auto simp: OS_IsConsistent_def remaining_def)

lemma items_ok_Cons:
  "items_ok sid (i # rest) \<longleftrightarrow> item_fits sid i \<and> (unsent i \<or> begun i) \<and> items_ok sid rest \<and> (\<forall>j \<in> set rest. unsent j)"
  by (auto simp: items_ok_def split: list.splits)

lemma out_stream_put [simp]:
  "omap_ok (ob_streams p) \<Longrightarrow> out_stream (put_out sid s p) sid' = (if sid' = sid then s else out_stream p sid')"
  by (simp add: out_stream_def put_out_def find_or_def)

lemma msum_ge: "omap_ok m \<Longrightarrow> f d = 0 \<Longrightarrow> f (find_or d k m) \<le> msum f m"
  using msum_assign_find_or[of m f d k d] by simp

lemma takenI: "out_inv p \<Longrightarrow> s = out_stream p sid \<Longrightarrow> taken sid (s, p)"
  by (auto simp: taken_def out_inv_def)

lemma taken_put:
  assumes "taken sid (s, p)" "os_inv sid s"
  shows "out_inv (put_out sid s p)"
proof -
  have "msum stream_bytes (assign sid s (ob_streams p)) + stream_bytes (out_stream p sid)
      = msum stream_bytes (ob_streams p) + stream_bytes s"
    using msum_assign_find_or[of "ob_streams p" stream_bytes "new_outgoing_stream None" sid s] assms(1)
    by (simp add: taken_def out_stream_def)
  moreover have "os_inv sid' (out_stream (put_out sid s p) sid')" for sid'
    using assms by (cases "sid' = sid") (simp_all add: taken_def)
  ultimately show ?thesis
    using assms(1) by (simp add: out_inv_def taken_def put_out_def)
qed

lemma taken_total: "taken sid (s, p) \<Longrightarrow> stream_bytes s \<le> tw_value (ob_total_buffered_amount p)"
  using msum_ge[of "ob_streams p" stream_bytes "new_outgoing_stream None" sid]
  by (simp add: taken_def out_stream_def)

lemma make_callback_frame [simp]:
  "ob_streams (make_callback b e p) = ob_streams p"
  "ob_total_buffered_amount (make_callback b e p) = ob_total_buffered_amount p"
  "out_stream (make_callback b e p) sid = out_stream p sid"
  "out_stream (p\<lparr>ob_events := es\<rparr>) sid = out_stream p sid"
  "out_stream (p\<lparr>ob_total_buffered_amount := t\<rparr>) sid = out_stream p sid"
  by (simp_all add: make_callback_def out_stream_def)

definition less_bytes :: "nat \<Rightarrow> OutgoingStream \<Rightarrow> OutgoingStream" where
  "less_bytes n s = s\<lparr>og_buffered_amount := (og_buffered_amount s)\<lparr>tw_value := stream_bytes s - n\<rparr>\<rparr>"

lemma decrease_buffered_returns:
  assumes "taken sid (s, p)" "n \<le> stream_bytes s"
  shows "returns (decrease_buffered sid n (s, p))
    (\<lambda>(s', p'). taken sid (s', p') \<and> s' = less_bytes n s \<and> ob_streams p' = ob_streams p)"
  using assms taken_total[OF assms(1)]
  by (simp add: decrease_buffered_def tw_Decrease_def Let_def less_bytes_def taken_def out_stream_def)

lemma HandleMessageExpired_returns:
  assumes "taken sid (s, p)" "qi_remaining_size item \<le> stream_bytes s"
  shows "returns (HandleMessageExpired sid item (s, p))
    (\<lambda>(s', p'). taken sid (s', p') \<and> s' = less_bytes (qi_remaining_size item) s \<and> ob_streams p' = ob_streams p)"
  unfolding HandleMessageExpired_def
  by (simp, intro returns_mono[OF decrease_buffered_returns[OF assms]]) (auto simp: Let_def taken_def out_stream_def)

lemma less_bytes_frame [simp]:
  "og_items (less_bytes n s) = og_items s" "og_pause_state (less_bytes n s) = og_pause_state s"
  "stream_bytes (less_bytes n s) = stream_bytes s - n"
  "og_next_ssn (less_bytes n s) = og_next_ssn s" "og_next_ordered_mid (less_bytes n s) = og_next_ordered_mid s"
  "og_next_unordered_mid (less_bytes n s) = og_next_unordered_mid s"
  by (simp_all add: less_bytes_def)

lemma taken_cong:
  "stream_bytes s' = stream_bytes s \<Longrightarrow> ob_streams p' = ob_streams p
    \<Longrightarrow> ob_total_buffered_amount p' = ob_total_buffered_amount p \<Longrightarrow> taken sid (s', p') = taken sid (s, p)"
  by (simp add: taken_def out_stream_def)

section \<open>Producing a fragment\<close>

lemma allocate_numbers_frame:
  assumes "allocate_numbers item s = (item', s')"
  shows "og_items s' = og_items s" "og_pause_state s' = og_pause_state s" "og_buffered_amount s' = og_buffered_amount s"
    "qi_message item' = qi_message item" "qi_attributes item' = qi_attributes item"
    "qi_remaining_offset item' = qi_remaining_offset item" "qi_remaining_size item' = qi_remaining_size item"
    "qi_current_fsn item' = qi_current_fsn item" "qi_message_id item' = qi_message_id item"
    "qi_mid item' \<noteq> None" "ma_unordered (qi_attributes item) \<or> qi_ssn item' \<noteq> None"
  using assms by (auto simp: allocate_numbers_def Let_def split: if_splits)

lemma fragment_of_fits:
  assumes "item_fits sid item" "0 < max_size"
  shows "fragment_of max_size item =
    (take max_size (drop (qi_remaining_offset item) (msg_payload (qi_message item))),
     qi_remaining_offset item = 0, qi_remaining_size item \<le> max_size)"
    "0 < min max_size (qi_remaining_size item)"
    "length (take max_size (drop (qi_remaining_offset item) (msg_payload (qi_message item)))) = min max_size (qi_remaining_size item)"
  using assms by (auto simp: fragment_of_def item_fits_def Let_def min_def)

text \<open>What the next fragment of a message is, and what remains of its stream.\<close>

definition next_chunk :: "nat \<Rightarrow> QueuedItem \<Rightarrow> OutgoingStream \<Rightarrow> DataToSend" where
  "next_chunk max_size item s =
     (let i = fst (allocate_numbers item s); is_end = (qi_remaining_size i \<le> max_size) in
      \<lparr>ds_message_id = qi_message_id i,
       ds_data = \<lparr>d_stream_id = msg_stream_id (qi_message i), d_ssn = (case qi_ssn i of None \<Rightarrow> 0 | Some ssn \<Rightarrow> ssn),
                  d_mid = the (qi_mid i), d_fsn = qi_current_fsn i, d_ppid = msg_ppid (qi_message i),
                  d_payload = take max_size (drop (qi_remaining_offset i) (msg_payload (qi_message i))),
                  d_is_beginning = (qi_remaining_offset i = 0), d_is_end = is_end,
                  d_is_unordered = ma_unordered (qi_attributes i)\<rparr>,
       ds_max_retransmissions = ma_max_retransmissions (qi_attributes i),
       ds_expires_at = ma_expires_at (qi_attributes i),
       ds_lifecycle_id = (if is_end then ma_lifecycle_id (qi_attributes i) else 0)\<rparr>)"

definition next_item :: "nat \<Rightarrow> QueuedItem \<Rightarrow> OutgoingStream \<Rightarrow> QueuedItem" where
  "next_item max_size item s =
     (let i = fst (allocate_numbers item s) in
      i\<lparr>qi_current_fsn := qi_current_fsn i + 1, qi_remaining_offset := qi_remaining_offset i + max_size,
        qi_remaining_size := qi_remaining_size i - max_size\<rparr>)"

definition next_stream :: "nat \<Rightarrow> QueuedItem \<Rightarrow> QueuedItem list \<Rightarrow> OutgoingStream \<Rightarrow> OutgoingStream" where
  "next_stream max_size item rest s =
     (let s' = less_bytes (min max_size (qi_remaining_size item)) (snd (allocate_numbers item s)) in
      if qi_remaining_size item \<le> max_size
      then s'\<lparr>og_items := rest, og_pause_state := (if og_pause_state s = kPending then kPaused else og_pause_state s)\<rparr>
      else s'\<lparr>og_items := next_item max_size item s # rest\<rparr>)"

lemma next_item_begun:
  assumes "item_fits sid item" "0 < max_size" "max_size < qi_remaining_size item"
  shows "item_fits sid (next_item max_size item s)" "begun (next_item max_size item s)"
    "qi_remaining_size (next_item max_size item s) = qi_remaining_size item - max_size"
proof -
  obtain i s' where i: "allocate_numbers item s = (i, s')" by fastforce
  note frame = allocate_numbers_frame[OF i]
  show "item_fits sid (next_item max_size item s)" "begun (next_item max_size item s)"
    "qi_remaining_size (next_item max_size item s) = qi_remaining_size item - max_size"
    using assms frame(10,11) by (auto simp: next_item_def item_fits_def begun_def i frame(4-9) Let_def)
qed

lemma next_stream_inv:
  assumes "items_ok sid (item # rest)" "stream_bytes s = remaining (item # rest)" "0 < max_size"
    and "og_pause_state s = kNotPaused \<or> og_pause_state s = kPending"
  shows "os_inv sid (next_stream max_size item rest s)"
proof -
  obtain i s' where i: "allocate_numbers item s = (i, s')" by fastforce
  note frame = allocate_numbers_frame[OF i]
  have rest: "\<not> begun_items rest"
    using assms(1) by (auto simp: items_ok_Cons begun_items_def unsent_def begun_def split: list.splits)
  show ?thesis
  proof (cases "qi_remaining_size item \<le> max_size")
    case True
    then show ?thesis
      using assms frame rest by (auto simp: next_stream_def os_inv_def i items_ok_Cons less_bytes_def)
  next
    case False
    with assms(1,3) have n: "item_fits sid (next_item max_size item s)" "begun (next_item max_size item s)"
        "qi_remaining_size (next_item max_size item s) = qi_remaining_size item - max_size"
      by (auto simp: items_ok_Cons intro!: next_item_begun)
    then show ?thesis
      using False assms frame by (auto simp: next_stream_def os_inv_def i items_ok_Cons less_bytes_def begun_items_def)
  qed
qed

lemma produce_fragment_returns:
  assumes "taken sid (s, p)" "items_ok sid (item # rest)" "stream_bytes s = remaining (item # rest)" "0 < max_size"
    and "og_pause_state s = kNotPaused \<or> og_pause_state s = kPending"
  shows "returns (produce_fragment sid max_size item rest (s, p))
    (\<lambda>(data, s', p'). data = Some (next_chunk max_size item s) \<and> s' = next_stream max_size item rest s
       \<and> taken sid (s', p') \<and> ob_streams p' = ob_streams p)"
proof -
  obtain i s1 where i: "allocate_numbers item s = (i, s1)" by fastforce
  note frame = allocate_numbers_frame[OF i]
  have fits: "item_fits sid i" using assms(2) frame by (simp add: items_ok_Cons item_fits_def)
  define pl where "pl = take max_size (drop (qi_remaining_offset i) (msg_payload (qi_message i)))"
  have frag: "fragment_of max_size i = (pl, qi_remaining_offset i = 0, qi_remaining_size i \<le> max_size)"
      "length pl = min max_size (qi_remaining_size i)"
    using fragment_of_fits[OF fits assms(4)] unfolding pl_def by simp_all
  have chunk: "returns (decrease_buffered sid (length pl) (s1, p))
      (\<lambda>(s', p'). taken sid (s', p') \<and> s' = less_bytes (length pl) s1 \<and> ob_streams p' = ob_streams p)"
    using assms(1,3) frame by (intro decrease_buffered_returns) (simp_all add: taken_def frag(2))
  have cons: "OS_IsConsistent (next_stream max_size item rest s)"
    using next_stream_inv[OF assms(2-5)] by (simp add: os_inv_def OS_IsConsistent_iff)
  have st: "next_stream max_size item rest s =
     (if qi_remaining_size i \<le> max_size
      then (less_bytes (length pl) s1)\<lparr>og_items := rest, og_pause_state := (if og_pause_state s1 = kPending then kPaused else og_pause_state s1)\<rparr>
      else (less_bytes (length pl) s1)\<lparr>og_items := i\<lparr>qi_current_fsn := qi_current_fsn i + 1,
          qi_remaining_offset := qi_remaining_offset i + length pl, qi_remaining_size := qi_remaining_size i - length pl\<rparr> # rest\<rparr>)"
    using frame(1-9) by (simp add: next_stream_def next_item_def i frag(2) min_def)
  have ch: "next_chunk max_size item s =
      \<lparr>ds_message_id = qi_message_id i,
       ds_data = \<lparr>d_stream_id = msg_stream_id (qi_message i), d_ssn = (case qi_ssn i of None \<Rightarrow> 0 | Some ssn \<Rightarrow> ssn),
                  d_mid = the (qi_mid i), d_fsn = qi_current_fsn i, d_ppid = msg_ppid (qi_message i), d_payload = pl,
                  d_is_beginning = (qi_remaining_offset i = 0), d_is_end = (qi_remaining_size i \<le> max_size),
                  d_is_unordered = ma_unordered (qi_attributes i)\<rparr>,
       ds_max_retransmissions = ma_max_retransmissions (qi_attributes i),
       ds_expires_at = ma_expires_at (qi_attributes i),
       ds_lifecycle_id = (if qi_remaining_size i \<le> max_size then ma_lifecycle_id (qi_attributes i) else 0)\<rparr>"
    by (simp add: next_chunk_def i pl_def)
  show ?thesis
  proof (cases "qi_remaining_size i \<le> max_size")
    case True
    show ?thesis
      using cons unfolding produce_fragment_def ch st
      by (simp add: i frag(1) Let_def True split del: if_split, intro returns_mono[OF chunk]) (auto simp: taken_def)
  next
    case False
    show ?thesis
      using cons fits False unfolding produce_fragment_def ch st
      by (simp add: i frag(1) Let_def, intro returns_mono[OF chunk]) (auto simp: taken_def frag(2) item_fits_def)
  qed
qed

text \<open>The messages that a call of \<open>Produce\<close> passes over.\<close>

definition overdue :: "Timestamp \<Rightarrow> QueuedItem \<Rightarrow> bool" where
  "overdue now item = (qi_mid item = None \<and> ma_expires_at (qi_attributes item) \<le> now)"

declare dropWhile_eq_Nil_conv [simp del]

definition without_overdue :: "Timestamp \<Rightarrow> QueuedItem list \<Rightarrow> OutgoingStream \<Rightarrow> OutgoingStream" where
  "without_overdue now items s = less_bytes (remaining (takeWhile (overdue now) items)) s"

definition loop_ok ::
  "u16 \<Rightarrow> Timestamp \<Rightarrow> nat \<Rightarrow> QueuedItem list \<Rightarrow> OutgoingStream \<Rightarrow> OutgoingStreams
    \<Rightarrow> DataToSend option \<times> OutgoingStream \<times> OutgoingStreams \<Rightarrow> bool" where
  "loop_ok sid now max_size items s p r =
     (case r of (data, s', p') \<Rightarrow> taken sid (s', p') \<and> ob_streams p' = ob_streams p
       \<and> (case dropWhile (overdue now) items of
            [] \<Rightarrow> data = None \<and> s' = (without_overdue now items s)\<lparr>og_items := []\<rparr>
          | item # rest \<Rightarrow> data = Some (next_chunk max_size item (without_overdue now items s))
              \<and> s' = next_stream max_size item rest (without_overdue now items s)))"

lemma without_overdue_Cons:
  "overdue now item \<Longrightarrow> without_overdue now rest (less_bytes (qi_remaining_size item) s) = without_overdue now (item # rest) s"
  by (simp add: without_overdue_def less_bytes_def)

lemma produce_loop_returns:
  assumes "taken sid (s, p)" "items_ok sid items" "stream_bytes s = remaining items" "0 < max_size"
    and "og_pause_state s = kNotPaused \<or> og_pause_state s = kPending"
  shows "returns (OS_produce_loop sid now max_size items (s, p)) (loop_ok sid now max_size items s p)"
  using assms
proof (induction items arbitrary: s p)
  case Nil
  then show ?case by (auto simp: OS_IsConsistent_iff taken_def loop_ok_def without_overdue_def less_bytes_def)
next
  case (Cons item rest)
  let ?s = "less_bytes (qi_remaining_size item) s"
  show ?case
  proof (cases "overdue now item")
    case True
    have rest: "items_ok sid rest" using Cons.prems(2) by (simp add: items_ok_Cons)
    have "returns (HandleMessageExpired sid item (s, p))
        (\<lambda>(s', p'). taken sid (s', p') \<and> s' = ?s \<and> ob_streams p' = ob_streams p)"
      using Cons.prems by (intro HandleMessageExpired_returns) simp_all
    then have "returns (HandleMessageExpired sid item (s, p))
        (\<lambda>sp. returns (OS_produce_loop sid now max_size rest sp) (loop_ok sid now max_size (item # rest) s p))"
    proof (rule returns_mono, clarify, goal_cases)
      case (1 s' p')
      have "returns (OS_produce_loop sid now max_size rest (?s, p')) (loop_ok sid now max_size rest ?s p')"
        using 1 Cons.prems rest by (intro Cons.IH) simp_all
      moreover have "loop_ok sid now max_size rest ?s p' = loop_ok sid now max_size (item # rest) s p"
        using 1 True by (simp add: loop_ok_def fun_eq_iff without_overdue_Cons split: list.splits)
      ultimately show ?case by simp
    qed
    then show ?thesis using True by (simp add: overdue_def)
  next
    case False
    then have "without_overdue now (item # rest) s = s" by (simp add: without_overdue_def less_bytes_def)
    then have "returns (produce_fragment sid max_size item rest (s, p)) (loop_ok sid now max_size (item # rest) s p)"
      using False by (intro returns_mono[OF produce_fragment_returns[OF Cons.prems]]) (auto simp: loop_ok_def)
    moreover have "OS_produce_loop sid now max_size (item # rest) (s, p) = produce_fragment sid max_size item rest (s, p)"
      using False by (auto simp: overdue_def)
    ultimately show ?thesis by simp
  qed
qed

section \<open>The streams as producers\<close>

abbreviation next_bytes :: "u16 \<Rightarrow> OutgoingStreams \<Rightarrow> nat" where
  "next_bytes sid p \<equiv> bytes_to_send_in_next_message (out_stream p sid)"

definition partly_sent :: "u16 \<Rightarrow> OutgoingStreams \<Rightarrow> bool" where
  "partly_sent sid p = begun_items (og_items (out_stream p sid))"

lemma items_ok_dropWhile: "items_ok sid items \<Longrightarrow> items_ok sid (dropWhile P items)"
  by (induction items) (auto simp: items_ok_Cons)

lemma overdue_not_begun: "items_ok sid items \<Longrightarrow> begun_items items \<Longrightarrow> dropWhile (overdue now) items = items"
  by (cases items) (auto simp: begun_items_def begun_def overdue_def)

lemma without_overdue_bytes:
  assumes "stream_bytes s = remaining items"
  shows "stream_bytes (without_overdue now items s) = remaining (dropWhile (overdue now) items)"
  using assms takeWhile_dropWhile_id[of "overdue now" items, symmetric]
  by (metis add_diff_cancel_left' less_bytes_frame(3) remaining_simps(3) without_overdue_def)

lemma without_overdue_frame [simp]:
  "og_pause_state (without_overdue now items s) = og_pause_state s"
  "og_next_ssn (without_overdue now items s) = og_next_ssn s"
  "og_next_ordered_mid (without_overdue now items s) = og_next_ordered_mid s"
  "og_next_unordered_mid (without_overdue now items s) = og_next_unordered_mid s"
  by (simp_all add: without_overdue_def)

text \<open>What one call produces, in full.\<close>

definition produced_ok :: "u16 \<Rightarrow> Timestamp \<Rightarrow> nat \<Rightarrow> OutgoingStreams \<Rightarrow> DataToSend option \<times> OutgoingStreams \<Rightarrow> bool" where
  "produced_ok sid now max_size p r =
     (let s = out_stream p sid in
      out_inv (snd r) \<and> (\<forall>sid'. sid' \<noteq> sid \<longrightarrow> out_stream (snd r) sid' = out_stream p sid')
      \<and> (case dropWhile (overdue now) (og_items s) of
           [] \<Rightarrow> fst r = None \<and> out_stream (snd r) sid = (without_overdue now (og_items s) s)\<lparr>og_items := []\<rparr>
         | item # rest \<Rightarrow> fst r = Some (next_chunk max_size item (without_overdue now (og_items s) s))
             \<and> out_stream (snd r) sid = next_stream max_size item rest (without_overdue now (og_items s) s)))"

lemma OS_Produce_returns:
  assumes "out_inv p" "0 < max_size"
    and pause: "og_pause_state (out_stream p sid) = kNotPaused \<or> og_pause_state (out_stream p sid) = kPending"
  shows "returns (OS_Produce sid now max_size p) (produced_ok sid now max_size p)"
proof -
  let ?s = "out_stream p sid"
  have inv: "os_inv sid ?s" "items_ok sid (og_items ?s)" "stream_bytes ?s = remaining (og_items ?s)"
    using assms(1) by (simp_all add: out_inv_def os_inv_def)
  have after: "os_inv sid s'" if "loop_ok sid now max_size (og_items ?s) ?s p (data, s', p')" for data s' p'
  proof (cases "dropWhile (overdue now) (og_items ?s)")
    case Nil
    then have "\<not> begun_items (og_items ?s)"
      using overdue_not_begun[OF inv(2), of now] by (auto simp: begun_items_def)
    then show ?thesis
      using that Nil inv(1) without_overdue_bytes[OF inv(3), of now]
      by (auto simp: loop_ok_def os_inv_def items_ok_def begun_items_def)
  next
    case (Cons item rest)
    then have s': "s' = next_stream max_size item rest (without_overdue now (og_items ?s) ?s)"
      using that by (simp add: loop_ok_def)
    show ?thesis
      unfolding s'
      using items_ok_dropWhile[OF inv(2), of "overdue now"] without_overdue_bytes[OF inv(3), of now] assms(2) pause Cons
      by (intro next_stream_inv) simp_all
  qed
  have "returns (OS_produce_loop sid now max_size (og_items ?s) (?s, p)) (loop_ok sid now max_size (og_items ?s) ?s p)"
    using takenI[OF assms(1) refl] inv assms(2) pause by (intro produce_loop_returns) simp_all
  then have "returns (OS_produce_loop sid now max_size (og_items ?s) (?s, p))
      (\<lambda>(data, s', p'). produced_ok sid now max_size p (data, put_out sid s' p'))"
  proof (rule returns_mono, clarify, goal_cases)
    case (1 data s' p')
    have "out_inv (put_out sid s' p')" "omap_ok (ob_streams p')" "ob_streams p' = ob_streams p"
      using 1(2) taken_put[OF _ after[OF 1(2)]] by (auto simp: loop_ok_def taken_def)
    moreover from this have "out_stream p' sid' = out_stream p sid'" for sid'
      by (simp add: out_stream_def)
    ultimately show ?case
      using 1(2) by (auto simp: produced_ok_def loop_ok_def Let_def split: list.splits)
  qed
  then show ?thesis using pause by (auto simp: OS_Produce_def Let_def elim!: returns_mono)
qed

lemma next_bytes_begun:
  "os_inv sid s \<Longrightarrow> begun_items (og_items s) \<Longrightarrow> 0 < bytes_to_send_in_next_message s"
  by (auto simp: os_inv_def begun_items_def bytes_to_send_in_next_message_def items_ok_Cons item_fits_def split: list.splits)

lemma next_bytes_pause:
  "0 < bytes_to_send_in_next_message s \<Longrightarrow> (og_pause_state s = kNotPaused \<or> og_pause_state s = kPending) \<and> og_items s \<noteq> []"
  by (cases "og_pause_state s") (auto simp: bytes_to_send_in_next_message_def split: list.splits)

lemma next_chunk_end:
  assumes "items_ok sid (item # rest)" "0 < max_size"
  shows "d_stream_id (ds_data (next_chunk max_size item s)) = sid"
    and "\<not> d_is_end (ds_data (next_chunk max_size item s)) \<Longrightarrow> begun_items (og_items (next_stream max_size item rest s))"
proof -
  obtain i s1 where i: "allocate_numbers item s = (i, s1)" by fastforce
  note frame = allocate_numbers_frame[OF i]
  show "d_stream_id (ds_data (next_chunk max_size item s)) = sid"
    using assms(1) frame by (simp add: next_chunk_def i items_ok_Cons item_fits_def Let_def)
  assume "\<not> d_is_end (ds_data (next_chunk max_size item s))"
  then have "max_size < qi_remaining_size item" using frame by (simp add: next_chunk_def i Let_def)
  then show "begun_items (og_items (next_stream max_size item rest s))"
    using assms next_item_begun(2)[of sid item max_size s] by (simp add: next_stream_def begun_items_def items_ok_Cons Let_def)
qed

text \<open>A chunk is not empty, fits and names the lifecycle of its message only at the end.\<close>

definition chunk_fits :: "nat \<Rightarrow> DataToSend \<Rightarrow> bool" where
  "chunk_fits max_size d =
     (d_payload (ds_data d) \<noteq> [] \<and> length (d_payload (ds_data d)) \<le> max_size \<and> (ds_lifecycle_id d \<noteq> 0 \<longrightarrow> d_is_end (ds_data d)))"

lemma next_chunk_fits:
  assumes "items_ok sid (item # rest)" "0 < max_size"
  shows "chunk_fits max_size (next_chunk max_size item s)"
proof -
  obtain i s1 where i: "allocate_numbers item s = (i, s1)" by fastforce
  show ?thesis
    using assms allocate_numbers_frame[OF i] by (simp add: chunk_fits_def next_chunk_def i items_ok_Cons item_fits_def Let_def)
qed

interpretation out: stream_producer OS_Produce "\<lambda>sid p. bytes_to_send_in_next_message (out_stream p sid)" out_inv partly_sent
  "\<lambda>max_size d p. chunk_fits max_size d"
proof (unfold_locales, goal_cases)
  case (1 p sid max_size now)
  let ?items = "og_items (out_stream p sid)"
  have inv: "items_ok sid ?items" using 1(1) by (simp add: out_inv_def os_inv_def)
  have "returns (OS_Produce sid now max_size p) (produced_ok sid now max_size p)"
    using 1 next_bytes_pause[OF 1(2)] by (intro OS_Produce_returns) simp_all
  then show ?case
  proof (rule returns_mono, clarify, goal_cases)
    case (1 data p')
    show ?case
    proof (cases "dropWhile (overdue now) ?items")
      case Nil
      then have "\<not> begun_items ?items"
        using overdue_not_begun[OF inv, of now] by (auto simp: begun_items_def)
      then show ?thesis
        using 1(2) Nil by (auto simp: produced_ok_def Let_def partly_sent_def bytes_to_send_in_next_message_def)
    next
      case (Cons item rest)
      then have "items_ok sid (item # rest)" using items_ok_dropWhile[OF inv, of "overdue now"] by simp
      from next_chunk_end[OF this \<open>0 < max_size\<close>] next_chunk_fits[OF this \<open>0 < max_size\<close>] show ?thesis
        using 1(2) Cons by (auto simp: produced_ok_def Let_def partly_sent_def)
    qed
  qed
next
  case (2 p sid)
  then show ?case by (auto simp: out_inv_def partly_sent_def intro: next_bytes_begun)
qed

end
