(* ===== verification/Send_Queue_Operations.thy ===== *)
theory Send_Queue_Operations
  imports Send_Queue_Consistency Outstanding_Operations
begin

text \<open>
  Every operation of the send queue keeps its invariant, so no debug check of the queue, of its streams
  or of the scheduler fails, and every call returns.
\<close>

section \<open>The invariant of the queue\<close>

definition sq_core :: "RRSendQueue \<Rightarrow> bool" where
  "sq_core q =
     (sch_inv (sq_scheduler q) \<and> out_inv (sq_out q)
      \<and> (\<forall>sid. sid \<in> set (sch_active_streams (sq_scheduler q)) \<longleftrightarrow> 0 < bytes_to_send_in_next_message (queue_stream q sid)))"

definition sq_mode :: "RRSendQueue \<Rightarrow> bool" where
  "sq_mode q =
     (sch_currently_sending_a_message (sq_scheduler q) \<and> \<not> sch_enable_message_interleaving (sq_scheduler q) \<longrightarrow>
        (\<exists>sid. sch_current_stream (sq_scheduler q) = Some sid \<and> partly_sent sid (sq_out q)))"

definition sq_inv :: "RRSendQueue \<Rightarrow> bool" where
  "sq_inv q = (sq_core q \<and> sq_mode q)"

lemma sq_inv_sched: "sq_inv q = out.sched_ok (sq_scheduler q) (sq_out q)"
  by (auto simp: sq_inv_def sq_core_def sq_mode_def out.sched_ok_def)

lemma sq_coreD:
  assumes "sq_core q"
  shows "sch_inv (sq_scheduler q)" "out_inv (sq_out q)" "os_inv sid (queue_stream q sid)" "omap_ok (ob_streams (sq_out q))"
    "sid \<in> set (sch_active_streams (sq_scheduler q)) \<longleftrightarrow> 0 < bytes_to_send_in_next_message (queue_stream q sid)"
  using assms by (auto simp: sq_core_def out_inv_def)

lemma msum_streams: "(\<Sum>(sid, s)\<leftarrow>m. f s) = msum f m"
  by (induction m) auto

lemma SQ_IsConsistent_core:
  assumes core: "sq_core q"
  shows "SQ_IsConsistent q"
proof -
  let ?m = "ob_streams (sq_out q)" and ?P = "\<lambda>(sid, s). bytes_to_send_in_next_message s > 0"
  have ok: "omap_ok ?m" using sq_coreD(4)[OF core] .
  have "map fst (filter ?P ?m) = sset_of (sch_active_streams (sq_scheduler q))"
  proof (rule strict_sorted_unique)
    show "sorted_wrt (<) (map fst (filter ?P ?m))"
      using ok by (auto simp: omap_ok_def sorted_wrt_map sorted_wrt_filter)
    have "sid \<in> fst ` set (filter ?P ?m) \<longleftrightarrow> 0 < bytes_to_send_in_next_message (queue_stream q sid)" for sid
    proof (cases "map_of ?m sid")
      case None
      then have "queue_stream q sid = new_outgoing_stream None" by (simp add: out_stream_def find_or_def)
      moreover have "sid \<notin> fst ` set ?m" using None by (simp add: map_of_eq_None_iff)
      ultimately show ?thesis by (force simp: bytes_to_send_in_next_message_def)
    next
      case (Some s)
      then have "(sid, s) \<in> set ?m" "queue_stream q sid = s" by (auto simp: out_stream_def find_or_def dest: map_of_SomeD)
      moreover have "t = s" if "(sid, t) \<in> set ?m" for t
        using map_of_is_SomeI[OF _ that] omap_okD[OF ok] Some by simp
      moreover have "sid \<in> fst ` set (filter ?P ?m) \<longleftrightarrow> (\<exists>t. (sid, t) \<in> set ?m \<and> 0 < bytes_to_send_in_next_message t)"
        by (simp add: image_iff Bex_def split_paired_Ex)
      ultimately show ?thesis by blast
    qed
    then show "set (map fst (filter ?P ?m)) = set (sset_of (sch_active_streams (sq_scheduler q)))"
      using sq_coreD(5)[OF core] by auto
  qed simp
  then show ?thesis
    using sq_coreD(2)[OF core]
    by (simp add: SQ_IsConsistent_def ActiveStreamsForTesting_def msum_streams out_inv_def total_buffered_amount_def)
qed

lemma checked_core [simp]: "sq_core q \<Longrightarrow> checked q = Value q"
  by (simp add: checked_def SQ_IsConsistent_core)

section \<open>Operations on one stream\<close>

definition changed :: "u16 \<Rightarrow> RRSendQueue \<Rightarrow> RRSendQueue \<Rightarrow> bool" where
  "changed sid q q' =
     (sq_core q' \<and> same_mode (sq_scheduler q) (sq_scheduler q')
      \<and> (\<forall>sid'. sid' \<noteq> sid \<longrightarrow> queue_stream q' sid' = queue_stream q sid'))"

lemma changed_mode:
  assumes "changed sid q q'" "sq_mode q" "begun_items (og_items (queue_stream q sid)) \<Longrightarrow> begun_items (og_items (queue_stream q' sid))"
  shows "sq_mode q'"
proof -
  have "partly_sent x (sq_out q')" if "partly_sent x (sq_out q)" for x
    using that assms(1,3) by (cases "x = sid") (auto simp: partly_sent_def changed_def)
  then show ?thesis
    using assms(1,2) by (auto simp: sq_mode_def changed_def same_mode_def)
qed

lemma same_mode_refl [simp]: "same_mode sch sch"
  by (simp add: same_mode_def)

lemma items_ok_snoc:
  "items_ok sid items \<Longrightarrow> item_fits sid i \<Longrightarrow> unsent i \<Longrightarrow> items_ok sid (items @ [i])"
  by (cases items) (auto simp: items_ok_def)

lemma begun_items_snoc: "begun_items items \<Longrightarrow> begun_items (items @ xs)"
  by (cases items) (auto simp: begun_items_def)

lemma begun_items_unsent: "\<not> begun_items items \<Longrightarrow> unsent i \<Longrightarrow> \<not> begun_items (items @ [i])"
  by (cases items) (auto simp: begun_items_def unsent_def begun_def)

lemma next_bytes_Nil [simp]: "bytes_to_send_in_next_message (s\<lparr>og_items := []\<rparr>) = 0"
  by (simp add: bytes_to_send_in_next_message_def)

text \<open>The set of active streams once \<open>n\<close> is what stream \<open>sid\<close> has to send.\<close>

definition activated :: "u16 \<Rightarrow> nat \<Rightarrow> StreamScheduler \<Rightarrow> StreamScheduler \<Rightarrow> bool" where
  "activated sid n sch sch' =
     (sch_inv sch' \<and> same_mode sch sch'
      \<and> set (sch_active_streams sch') = (if 0 < n then {sid} else {}) \<union> (set (sch_active_streams sch) - {sid}))"

lemma activated_same: "sch_inv sch \<Longrightarrow> sid \<in> set (sch_active_streams sch) \<longleftrightarrow> 0 < n \<Longrightarrow> activated sid n sch sch"
  by (auto simp: activated_def)

lemma activated_maybe:
  assumes "sch_inv sch" "sid \<notin> set (sch_active_streams sch)"
  shows "returns (Stream_MaybeMakeActive sid n sch) (activated sid n sch)"
  using assms by (intro returns_mono[OF Stream_MaybeMakeActive_returns[OF assms]]) (auto simp: activated_def)

lemma activated_inactive:
  assumes "sch_inv sch" "sid \<in> set (sch_active_streams sch)"
  shows "returns (Stream_MakeInactive sid sch) (activated sid 0 sch)"
  using assms by (intro returns_mono[OF Stream_MakeInactive_returns[OF assms]]) (auto simp: activated_def)

lemma changedI:
  assumes core: "sq_core q" and t: "taken sid (s, p)" "ob_streams p = ob_streams (sq_out q)" "os_inv sid s"
    and sch: "activated sid (bytes_to_send_in_next_message s) (sq_scheduler q) sch"
    and q': "sq_scheduler q' = sch" "sq_out q' = put_out sid s p"
  shows "changed sid q q'" "queue_stream q' sid = s"
proof -
  have st: "queue_stream q' x = (if x = sid then s else queue_stream q x)" for x
    using t(1,2) q'(2) by (simp add: taken_def out_stream_def put_out_def find_or_def)
  show "queue_stream q' sid = s" by (simp add: st)
  have "x \<in> set (sch_active_streams sch) \<longleftrightarrow> 0 < bytes_to_send_in_next_message (queue_stream q' x)" for x
    using sch sq_coreD(5)[OF core, of x] by (cases "x = sid") (auto simp: st activated_def)
  then show "changed sid q q'"
    using taken_put[OF t(1,3)] sch st q' by (simp add: changed_def sq_core_def activated_def)
qed

lemma OS_Add_returns:
  assumes core: "sq_core q" and m: "msg_payload message \<noteq> []" "sid = msg_stream_id message"
  shows "returns (OS_Add message attributes q) (\<lambda>q'. changed sid q q'
    \<and> og_items (queue_stream q' sid) = og_items (queue_stream q sid) @ [new_queued_item (sq_current_message_id q) message attributes])"
proof -
  let ?i = "new_queued_item (sq_current_message_id q) message attributes" and ?n = "length (msg_payload message)"
  let ?s0 = "queue_stream q sid"
  let ?p = "(sq_out q)\<lparr>ob_total_buffered_amount := tw_Increase ?n (ob_total_buffered_amount (sq_out q))\<rparr>"
  define s where "s = ?s0\<lparr>og_buffered_amount := tw_Increase ?n (og_buffered_amount ?s0), og_items := og_items ?s0 @ [?i]\<rparr>"
  have i: "item_fits sid ?i" "unsent ?i"
    using m by (simp_all add: new_queued_item_def item_fits_def unsent_def)
  have inv0: "os_inv sid ?s0" by (rule sq_coreD(3)[OF core])
  then have inv: "os_inv sid s"
    using i begun_items_snoc[of "og_items ?s0"] begun_items_unsent[of "og_items ?s0" ?i]
    by (auto simp: os_inv_def s_def tw_Increase_def items_ok_snoc new_queued_item_def)
  have t: "taken sid (s, ?p)"
    using takenI[OF sq_coreD(2)[OF core] refl, of sid] by (simp add: taken_def s_def tw_Increase_def out_stream_def)
  have was: "0 < bytes_to_send_in_next_message s" if "0 < bytes_to_send_in_next_message ?s0"
    using that by (auto simp: bytes_to_send_in_next_message_def s_def split: list.splits if_splits)
  have sch: "returns (if 0 < bytes_to_send_in_next_message ?s0 then Value (sq_scheduler q)
        else Stream_MaybeMakeActive sid (bytes_to_send_in_next_message s) (sq_scheduler q))
      (activated sid (bytes_to_send_in_next_message s) (sq_scheduler q))"
    using was sq_coreD(5)[OF core, of sid]
    by (cases "0 < bytes_to_send_in_next_message ?s0") (simp_all add: activated_same activated_maybe sq_coreD(1)[OF core])
  have cons: "OS_IsConsistent s" using inv by (simp add: os_inv_def OS_IsConsistent_iff)
  have "OS_Add message attributes q =
      bind_outcome (if 0 < bytes_to_send_in_next_message ?s0 then Value (sq_scheduler q)
        else Stream_MaybeMakeActive sid (bytes_to_send_in_next_message s) (sq_scheduler q))
      (\<lambda>sch. bind_outcome (rtc_check (OS_IsConsistent s)) (\<lambda>_.
         Value (q\<lparr>sq_current_message_id := sq_current_message_id q + 1, sq_out := put_out sid s ?p, sq_scheduler := sch\<rparr>)))"
    by (simp add: OS_Add_def s_def m(2) Let_def)
  moreover have "changed sid q (q\<lparr>sq_current_message_id := sq_current_message_id q + 1, sq_out := put_out sid s ?p, sq_scheduler := sch\<rparr>)"
      "queue_stream (q\<lparr>sq_current_message_id := sq_current_message_id q + 1, sq_out := put_out sid s ?p, sq_scheduler := sch\<rparr>) sid = s"
    if "activated sid (bytes_to_send_in_next_message s) (sq_scheduler q) sch" for sch
    using that by (intro changedI[OF core t _ inv]; simp)+
  moreover have "og_items s = og_items ?s0 @ [?i]" by (simp add: s_def)
  ultimately show ?thesis
    using returns_mono[OF sch] by (simp add: cons del: returns_if split del: if_split)
qed

lemma ForceReschedule_inv: "sch_inv sch \<Longrightarrow> sch_inv (ForceReschedule sch)"
  using sch_inv_sending[of sch "sch_virtual_time sch" False] sch_invD(2)[of sch]
  by (cases sch) (simp add: ForceReschedule_def)

lemma ForceReschedule_frame [simp]:
  "sch_active_streams (ForceReschedule sch) = sch_active_streams sch"
  "\<not> sch_currently_sending_a_message (ForceReschedule sch)"
  "sch_enable_message_interleaving (ForceReschedule sch) = sch_enable_message_interleaving sch"
  "sch_current_stream (ForceReschedule sch) = sch_current_stream sch"
  by (simp_all add: ForceReschedule_def)

lemma ForceReschedule_core: "sq_core q \<Longrightarrow> sq_core (q\<lparr>sq_scheduler := ForceReschedule (sq_scheduler q)\<rparr>)"
  by (simp add: sq_core_def ForceReschedule_inv)

text \<open>Only partly sent messages are discarded.\<close>

definition discard_ok :: "u32 \<Rightarrow> OutgoingStream \<Rightarrow> bool" where
  "discard_ok message_id s = (case og_items s of [] \<Rightarrow> True | item # _ \<Rightarrow> qi_message_id item = message_id \<longrightarrow> begun item)"

lemma OS_Discard_returns:
  assumes core: "sq_core q" and ok: "discard_ok message_id (queue_stream q sid)"
  shows "returns (OS_Discard sid message_id q)
    (\<lambda>(b, q'). if b then changed sid (q\<lparr>sq_scheduler := ForceReschedule (sq_scheduler q)\<rparr>) q'
        \<and> og_items (queue_stream q' sid) = tl (og_items (queue_stream q sid)) else q' = q)"
proof (cases "og_items (queue_stream q sid) \<noteq> [] \<and> qi_message_id (hd (og_items (queue_stream q sid))) = message_id")
  case False
  then show ?thesis
    using sq_coreD(3)[OF core, of sid] by (auto simp: OS_Discard_def Let_def os_inv_def OS_IsConsistent_iff split: list.splits)
next
  case True
  let ?s0 = "queue_stream q sid" and ?sch = "ForceReschedule (sq_scheduler q)"
  obtain item rest where items: "og_items ?s0 = item # rest" and i: "qi_message_id item = message_id" "begun item"
    using True ok by (cases "og_items ?s0") (auto simp: discard_ok_def)
  have inv0: "items_ok sid (item # rest)" "stream_bytes ?s0 = remaining (item # rest)"
      "og_pause_state ?s0 = kNotPaused \<or> og_pause_state ?s0 = kPending"
    using sq_coreD(3)[OF core, of sid] items i by (cases "og_pause_state ?s0"; simp add: os_inv_def begun_items_def)+
  have act: "sid \<in> set (sch_active_streams ?sch)"
    using sq_coreD(5)[OF core, of sid] inv0 items
    by (auto simp: bytes_to_send_in_next_message_def items_ok_Cons item_fits_def)
  define s where "s = (less_bytes (qi_remaining_size item) ?s0)\<lparr>og_items := rest\<rparr>"
  define s1 where "s1 = (if og_pause_state s = kPending then s\<lparr>og_pause_state := kPaused\<rparr> else s)"
  have inv: "os_inv sid s1" "OS_IsConsistent s1"
    using inv0 by (auto simp: s1_def s_def os_inv_def items_ok_Cons OS_IsConsistent_iff begun_items_def unsent_def begun_def
        less_bytes_def split: list.splits)
  have paused: "og_pause_state s = kPending \<Longrightarrow> bytes_to_send_in_next_message s1 = 0"
    by (simp add: s1_def bytes_to_send_in_next_message_def)
  have inv_sch: "sch_inv ?sch" using ForceReschedule_inv[OF sq_coreD(1)[OF core]] .
  have sch: "returns
      (if og_pause_state s = kPending
       then bind_outcome (Stream_MakeInactive sid ?sch) (\<lambda>sch. Value (s\<lparr>og_pause_state := kPaused\<rparr>, sch))
       else if bytes_to_send_in_next_message s = 0
       then bind_outcome (Stream_MakeInactive sid ?sch) (\<lambda>sch. Value (s, sch))
       else Value (s, ?sch)) (\<lambda>(s', sch). s' = s1 \<and> activated sid (bytes_to_send_in_next_message s1) ?sch sch)"
  proof (cases "og_pause_state s = kPending \<or> bytes_to_send_in_next_message s = 0")
    case True
    then have "bytes_to_send_in_next_message s1 = 0" using paused by (auto simp: s1_def)
    then show ?thesis using True activated_inactive[OF inv_sch act] by (auto simp: s1_def)
  qed (use act activated_same[OF inv_sch] in \<open>auto simp: s1_def\<close>)
  have hme: "returns (HandleMessageExpired sid item (?s0, sq_out q))
      (\<lambda>(s', p'). taken sid (s', p') \<and> s' = less_bytes (qi_remaining_size item) ?s0 \<and> ob_streams p' = ob_streams (sq_out q))"
    using inv0 by (intro HandleMessageExpired_returns takenI[OF sq_coreD(2)[OF core]]) simp_all
  have fin: "changed sid (q\<lparr>sq_scheduler := ?sch\<rparr>) (q\<lparr>sq_scheduler := sch, sq_out := put_out sid s1 p\<rparr>)
      \<and> og_items (queue_stream (q\<lparr>sq_scheduler := sch, sq_out := put_out sid s1 p\<rparr>) sid) = rest"
    if "taken sid (less_bytes (qi_remaining_size item) ?s0, p)" "ob_streams p = ob_streams (sq_out q)"
      "activated sid (bytes_to_send_in_next_message s1) ?sch sch" for p sch
  proof -
    have t: "taken sid (s1, p)" using that(1) by (simp add: taken_def s1_def s_def)
    let ?q' = "q\<lparr>sq_scheduler := sch, sq_out := put_out sid s1 p\<rparr>"
    have "changed sid (q\<lparr>sq_scheduler := ?sch\<rparr>) ?q'" "queue_stream ?q' sid = s1"
      using that by (intro changedI[OF ForceReschedule_core[OF core] t _ inv(1)]; simp)+
    then show ?thesis by (simp add: s1_def s_def)
  qed
  show ?thesis
    unfolding OS_Discard_def Let_def items list.case if_P[OF i(1)] returns_bind
  proof (rule returns_mono[OF hme], clarify, goal_cases)
    case (1 s' p')
    show ?case
      unfolding prod.case returns_bind s_def[symmetric]
      by (rule returns_mono[OF sch]) (use 1 fin inv in auto)
  qed
qed

lemma expire_unsent_returns:
  assumes "taken sid (s, p)" "remaining items \<le> stream_bytes s"
  shows "returns (expire_unsent sid items (s, p))
    (\<lambda>(kept, s', p'). kept = filter (\<lambda>i. qi_remaining_offset i \<noteq> 0) items
       \<and> s' = less_bytes (remaining (filter (\<lambda>i. qi_remaining_offset i = 0) items)) s
       \<and> taken sid (s', p') \<and> ob_streams p' = ob_streams p)"
  using assms
proof (induction items arbitrary: s p)
  case Nil
  then show ?case by (simp add: less_bytes_def taken_def)
next
  case (Cons item rest)
  show ?case
  proof (cases "qi_remaining_offset item = 0")
    case True
    have "returns (HandleMessageExpired sid item (s, p))
        (\<lambda>(s', p'). taken sid (s', p') \<and> s' = less_bytes (qi_remaining_size item) s \<and> ob_streams p' = ob_streams p)"
      using Cons.prems by (intro HandleMessageExpired_returns) simp_all
    then show ?thesis
      unfolding expire_unsent.simps if_P[OF True] returns_bind
    proof (rule returns_mono, clarify, goal_cases)
      case (1 s' p')
      have "less_bytes n (less_bytes m s) = less_bytes (m + n) s" for n m
        by (simp add: less_bytes_def)
      moreover have "taken sid (less_bytes (qi_remaining_size item) s, p')" "ob_streams p' = ob_streams p" using 1 by simp_all
      ultimately show ?case
        using True Cons.prems(2) by (intro returns_mono[OF Cons.IH]) auto
    qed
  next
    case False
    then show ?thesis
      using Cons.prems(2) by (simp, intro returns_mono[OF Cons.IH[OF Cons.prems(1)]]) auto
  qed
qed

lemma kept_items:
  assumes "items_ok sid items"
  shows "filter (\<lambda>i. qi_remaining_offset i \<noteq> 0) items = (if begun_items items then [hd items] else [])"
    "begun_items items \<Longrightarrow> remaining (filter (\<lambda>i. qi_remaining_offset i = 0) items) = remaining (tl items)"
    "\<not> begun_items items \<Longrightarrow> remaining (filter (\<lambda>i. qi_remaining_offset i = 0) items) = remaining items"
proof -
  have u: "\<forall>j \<in> set (tl items). qi_remaining_offset j = 0" and h: "items \<noteq> [] \<Longrightarrow> begun_items items \<longleftrightarrow> qi_remaining_offset (hd items) \<noteq> 0"
    using assms by (cases items; auto simp: items_ok_Cons unsent_def begun_items_def begun_def)+
  then show "filter (\<lambda>i. qi_remaining_offset i \<noteq> 0) items = (if begun_items items then [hd items] else [])"
    "begun_items items \<Longrightarrow> remaining (filter (\<lambda>i. qi_remaining_offset i = 0) items) = remaining (tl items)"
    "\<not> begun_items items \<Longrightarrow> remaining (filter (\<lambda>i. qi_remaining_offset i = 0) items) = remaining items"
    by (cases items; simp add: begun_items_def filter_empty_conv filter_id_conv)+
qed

lemma OS_Pause_returns:
  assumes core: "sq_core q"
  shows "returns (OS_Pause sid q) (\<lambda>q'. changed sid q q' \<and> og_pause_state (queue_stream q' sid) \<noteq> kNotPaused
    \<and> begun_items (og_items (queue_stream q' sid)) = begun_items (og_items (queue_stream q sid))
    \<and> (\<exists>k. og_items (queue_stream q' sid) = take k (og_items (queue_stream q sid))))"
proof (cases "og_pause_state (queue_stream q sid) = kNotPaused")
  case False
  then show ?thesis using core by (auto simp: OS_Pause_def changed_def intro!: exI[of _ "length (og_items (queue_stream q sid))"])
next
  case True
  let ?s0 = "queue_stream q sid" and ?items = "og_items (queue_stream q sid)"
  let ?b = "begun_items ?items" and ?n = "remaining (filter (\<lambda>i. qi_remaining_offset i = 0) ?items)"
  have inv0: "items_ok sid ?items" "stream_bytes ?s0 = remaining ?items"
    using sq_coreD(3)[OF core, of sid] by (simp_all add: os_inv_def)
  define kept where "kept = (if ?b then [hd ?items] else [])"
  define s where "s = (less_bytes ?n ?s0)\<lparr>og_items := kept, og_pause_state := (if ?b then kPending else kPaused)\<rparr>"
  have pause: "(if kept = [] \<or> qi_remaining_offset (hd kept) = 0 then kPaused else kPending) = (if ?b then kPending else kPaused)"
    by (cases ?items) (auto simp: kept_def begun_items_def begun_def)
  have "kept = take (if ?b then 1 else 0) ?items"
    by (cases ?items) (simp_all add: kept_def begun_items_def)
  then have taken_k: "\<exists>k. og_items s = take k ?items" by (auto simp: s_def)
  have inv: "os_inv sid s" "OS_IsConsistent s" "begun_items (og_items s) = ?b"
    using inv0 kept_items(2,3)[OF inv0(1)]
    by (cases ?items; cases ?b; simp add: s_def kept_def os_inv_def items_ok_Cons begun_items_def OS_IsConsistent_iff items_ok_def[of _ "[]"] less_bytes_def)+
  have act: "sid \<in> set (sch_active_streams (sq_scheduler q)) \<longleftrightarrow> ?items \<noteq> []"
    using sq_coreD(5)[OF core, of sid] inv0 True
    by (cases ?items) (auto simp: bytes_to_send_in_next_message_def items_ok_Cons item_fits_def)
  have bytes: "0 < bytes_to_send_in_next_message s \<longleftrightarrow> ?b"
    using next_bytes_begun[OF inv(1)] inv(3) by (auto simp: s_def bytes_to_send_in_next_message_def)
  have sch: "returns (if ?items \<noteq> [] \<and> (if ?b then kPending else kPaused) = kPaused
      then Stream_MakeInactive sid (sq_scheduler q) else Value (sq_scheduler q))
      (activated sid (bytes_to_send_in_next_message s) (sq_scheduler q))"
  proof (cases "?items \<noteq> [] \<and> \<not> ?b")
    case True
    then show ?thesis using activated_inactive[OF sq_coreD(1)[OF core]] act bytes by simp
  next
    case False
    have "begun_items [] = False" by (simp add: begun_items_def)
    then show ?thesis
      using False act bytes by (auto intro!: activated_same[OF sq_coreD(1)[OF core]])
  qed
  have fin: "changed sid q (q\<lparr>sq_scheduler := sch, sq_out := put_out sid s p\<rparr>)
      \<and> queue_stream (q\<lparr>sq_scheduler := sch, sq_out := put_out sid s p\<rparr>) sid = s"
    if "taken sid (less_bytes ?n ?s0, p)" "ob_streams p = ob_streams (sq_out q)"
      "activated sid (bytes_to_send_in_next_message s) (sq_scheduler q) sch" for p sch
  proof -
    have t: "taken sid (s, p)" using that(1) by (simp add: taken_def s_def)
    show ?thesis using that by (intro conjI changedI[OF core t _ inv(1)]; simp)
  qed
  have "returns (expire_unsent sid ?items (?s0, sq_out q)) (\<lambda>(kept', s', p'). kept' = kept \<and> s' = less_bytes ?n ?s0
       \<and> taken sid (s', p') \<and> ob_streams p' = ob_streams (sq_out q))"
    unfolding kept_def kept_items(1)[OF inv0(1), symmetric]
    by (rule expire_unsent_returns[OF takenI[OF sq_coreD(2)[OF core] refl]]) (simp add: inv0(2))
  then show ?thesis
    unfolding OS_Pause_def Let_def if_not_P[OF not_not[THEN iffD2, OF True]] returns_bind
  proof (rule returns_mono, clarify, goal_cases)
    case (1 kept' s' p')
    show ?case
      unfolding prod.case returns_bind pause s_def[symmetric]
      by (rule returns_mono[OF sch]) (use 1 fin inv taken_k in \<open>auto simp: s_def\<close>)
  qed
qed

lemma resetting_inactive:
  assumes "sq_core q" "og_pause_state (queue_stream q sid) = kResetting \<or> og_pause_state (queue_stream q sid) = kPaused"
  shows "sid \<notin> set (sch_active_streams (sq_scheduler q))"
  using sq_coreD(5)[OF assms(1), of sid] assms(2) by (auto simp: bytes_to_send_in_next_message_def)

lemma OS_Resume_returns:
  assumes core: "sq_core q" and r: "IsResetting (queue_stream q sid)"
  shows "returns (OS_Resume sid q) (\<lambda>q'. changed sid q q' \<and> \<not> IsResetting (queue_stream q' sid)
    \<and> og_items (queue_stream q' sid) = og_items (queue_stream q sid))"
proof -
  let ?s0 = "queue_stream q sid"
  define s where "s = ?s0\<lparr>og_pause_state := kNotPaused\<rparr>"
  have inv: "os_inv sid s" using sq_coreD(3)[OF core, of sid] by (simp add: os_inv_def s_def)
  then have cons: "OS_IsConsistent s" by (simp add: os_inv_def OS_IsConsistent_iff)
  have t: "taken sid (s, sq_out q)"
    using takenI[OF sq_coreD(2)[OF core] refl, of sid] by (simp add: taken_def s_def)
  have sch: "returns (Stream_MaybeMakeActive sid (bytes_to_send_in_next_message s) (sq_scheduler q))
      (activated sid (bytes_to_send_in_next_message s) (sq_scheduler q))"
    using resetting_inactive[OF core] r by (intro activated_maybe sq_coreD(1)[OF core]) (simp add: IsResetting_def)
  have fin: "changed sid q (q\<lparr>sq_scheduler := sch, sq_out := put_out sid s (sq_out q)\<rparr>)"
      "queue_stream (q\<lparr>sq_scheduler := sch, sq_out := put_out sid s (sq_out q)\<rparr>) sid = s"
    if "activated sid (bytes_to_send_in_next_message s) (sq_scheduler q) sch" for sch
    using that by (intro changedI[OF core t _ inv]; simp)+
  have "returns (Stream_MaybeMakeActive sid (bytes_to_send_in_next_message s) (sq_scheduler q))
      (\<lambda>sch. changed sid q (q\<lparr>sq_scheduler := sch, sq_out := put_out sid s (sq_out q)\<rparr>)
        \<and> queue_stream (q\<lparr>sq_scheduler := sch, sq_out := put_out sid s (sq_out q)\<rparr>) sid = s)"
    by (rule returns_mono[OF sch]) (intro conjI fin)
  then show ?thesis
    using r cons unfolding OS_Resume_def Let_def s_def[symmetric]
    by (simp add: IsResetting_def, elim returns_mono) (auto simp: s_def)
qed

text \<open>What identifies a message and how it is to be sent.\<close>

definition item_label :: "QueuedItem \<Rightarrow> u32 \<times> MessageAttributes" where
  "item_label i = (qi_message_id i, qi_attributes i)"

lemma OS_Reset_returns:
  assumes core: "sq_core q"
  shows "returns (OS_Reset sid q) (\<lambda>q'. changed sid q q' \<and> og_pause_state (queue_stream q' sid) = kNotPaused
    \<and> og_next_ssn (queue_stream q' sid) = 0 \<and> og_next_ordered_mid (queue_stream q' sid) = 0
    \<and> og_next_unordered_mid (queue_stream q' sid) = 0 \<and> \<not> begun_items (og_items (queue_stream q' sid))
    \<and> map qi_message (og_items (queue_stream q' sid)) = map qi_message (og_items (queue_stream q sid))
    \<and> map item_label (og_items (queue_stream q' sid)) = map item_label (og_items (queue_stream q sid)))"
proof -
  let ?s0 = "queue_stream q sid" and ?p = "sq_out q"
  let ?r = "?s0\<lparr>og_pause_state := kNotPaused, og_next_ordered_mid := 0, og_next_unordered_mid := 0, og_next_ssn := 0\<rparr>"
  have inv0: "os_inv sid ?s0" by (rule sq_coreD(3)[OF core])
  have t0: "taken sid (?s0, ?p)" by (rule takenI[OF sq_coreD(2)[OF core] refl])
  show ?thesis
  proof (cases "og_items ?s0")
    case Nil
    have inv: "os_inv sid ?r" "OS_IsConsistent ?r"
      using inv0 Nil by (simp_all add: os_inv_def OS_IsConsistent_iff)
    have "activated sid (bytes_to_send_in_next_message ?r) (sq_scheduler q) (sq_scheduler q)"
      using sq_coreD(5)[OF core, of sid] Nil
      by (intro activated_same sq_coreD(1)[OF core]) (simp add: bytes_to_send_in_next_message_def)
    moreover have "taken sid (?r, ?p)" using t0 by (simp add: taken_def)
    ultimately have "changed sid q (q\<lparr>sq_out := put_out sid ?r ?p\<rparr>)" "queue_stream (q\<lparr>sq_out := put_out sid ?r ?p\<rparr>) sid = ?r"
      by (intro changedI[OF core _ _ inv(1)]; simp)+
    then show ?thesis using Nil inv by (simp add: OS_Reset_def begun_items_def)
  next
    case (Cons item rest)
    let ?n = "length (msg_payload (qi_message item))"
    let ?i = "item\<lparr>qi_remaining_offset := 0, qi_remaining_size := ?n, qi_mid := None, qi_ssn := None, qi_current_fsn := 0\<rparr>"
    let ?t = "?p\<lparr>ob_total_buffered_amount := tw_Increase (?n - qi_remaining_size item) (ob_total_buffered_amount ?p)\<rparr>"
    define s where "s = ?r\<lparr>og_buffered_amount := tw_Increase (?n - qi_remaining_size item) (og_buffered_amount ?r), og_items := ?i # rest\<rparr>"
    have inv: "os_inv sid s" "OS_IsConsistent s" "\<not> begun_items (og_items s)"
      using inv0 Cons
      by (auto simp: s_def os_inv_def items_ok_Cons item_fits_def unsent_def begun_items_def begun_def tw_Increase_def OS_IsConsistent_iff)
    have bytes: "0 < bytes_to_send_in_next_message s"
      using inv0 Cons by (auto simp: s_def bytes_to_send_in_next_message_def os_inv_def items_ok_Cons item_fits_def)
    have sch: "returns (if og_pause_state ?s0 = kPaused \<or> og_pause_state ?s0 = kResetting
        then Stream_MaybeMakeActive sid (bytes_to_send_in_next_message s) (sq_scheduler q) else Value (sq_scheduler q))
        (activated sid (bytes_to_send_in_next_message s) (sq_scheduler q))"
    proof (cases "og_pause_state ?s0 = kPaused \<or> og_pause_state ?s0 = kResetting")
      case True
      then show ?thesis
        using resetting_inactive[OF core, of sid] activated_maybe[OF sq_coreD(1)[OF core]] by auto
    next
      case False
      then have "sid \<in> set (sch_active_streams (sq_scheduler q))"
        using sq_coreD(5)[OF core, of sid] inv0 Cons
        by (auto simp: bytes_to_send_in_next_message_def os_inv_def items_ok_Cons item_fits_def)
      then show ?thesis using False bytes activated_same[OF sq_coreD(1)[OF core]] by simp
    qed
    have t: "taken sid (s, ?t)" using t0 by (simp add: taken_def s_def tw_Increase_def)
    have fin: "changed sid q (q\<lparr>sq_scheduler := sch, sq_out := put_out sid s ?t\<rparr>)
        \<and> queue_stream (q\<lparr>sq_scheduler := sch, sq_out := put_out sid s ?t\<rparr>) sid = s"
      if "activated sid (bytes_to_send_in_next_message s) (sq_scheduler q) sch" for sch
      using that by (intro conjI changedI[OF core t _ inv(1)]; simp)
    have "OS_Reset sid q = bind_outcome (if og_pause_state ?s0 = kPaused \<or> og_pause_state ?s0 = kResetting
        then Stream_MaybeMakeActive sid (bytes_to_send_in_next_message s) (sq_scheduler q) else Value (sq_scheduler q)) (\<lambda>sch.
          bind_outcome (rtc_check (OS_IsConsistent s)) (\<lambda>_. Value (q\<lparr>sq_scheduler := sch, sq_out := put_out sid s ?t\<rparr>)))"
      using Cons by (simp add: OS_Reset_def s_def Let_def)
    moreover have "map qi_message (og_items s) = map qi_message (og_items ?s0)" "map item_label (og_items s) = map item_label (og_items ?s0)"
      using Cons by (simp_all add: s_def item_label_def)
    moreover have "og_pause_state s = kNotPaused" "og_next_ssn s = 0" "og_next_ordered_mid s = 0" "og_next_unordered_mid s = 0"
      by (simp_all add: s_def)
    ultimately show ?thesis
      unfolding returns_bind by (simp only: returns_bind, intro returns_mono[OF sch]) (use fin inv in auto)
  qed
qed

end
