(* ===== verification/Send_Queue_Runs.thy ===== *)
theory Send_Queue_Runs
  imports Send_Queue_Operations
begin

text \<open>
  Sequences of calls of the send queue: from a new queue, no debug check fails and every call returns,
  whatever the calls, as long as they respect the documented preconditions.
\<close>

section \<open>The public operations\<close>

lemma create_core:
  assumes core: "sq_core q" and none: "map_of (ob_streams (sq_out q)) sid = None"
    and q': "sq_scheduler q' = CreateStream sid priority (sq_scheduler q)" "sq_out q' = put_out sid (new_outgoing_stream st) (sq_out q)"
  shows "changed sid q q'" "queue_stream q' sid = new_outgoing_stream st"
proof -
  let ?s = "new_outgoing_stream st" and ?st = "new_scheduler_stream priority"
  have s: "queue_stream q sid = new_outgoing_stream None" using none by (simp add: out_stream_def find_or_def)
  have inactive: "sid \<notin> set (sch_active_streams (sq_scheduler q))"
    using sq_coreD(5)[OF core, of sid] by (simp add: s bytes_to_send_in_next_message_def)
  have put: "CreateStream sid priority (sq_scheduler q) = put_stream sid ?st (sq_scheduler q)"
    by (simp add: CreateStream_def put_stream_def)
  have "sorted_wrt (ActiveStreamComparator (put_stream sid ?st (sq_scheduler q))) (sch_active_streams (sq_scheduler q))"
    using inactive sch_invD(1)[OF sq_coreD(1)[OF core]]
    by (intro sorted_active_cong[OF sch_invD(5)[OF sq_coreD(1)[OF core]]]) auto
  then have "sch_inv (put_stream sid ?st (sq_scheduler q))"
    using inactive sch_invD(1-5)[OF sq_coreD(1)[OF core]] InverseWeight_pos[of priority]
    by (intro sch_inv_put[OF sq_coreD(1)[OF core], of ?st _ sid]) (auto simp: stream_ok_def new_scheduler_stream_def)
  then have "activated sid (bytes_to_send_in_next_message ?s) (sq_scheduler q) (put_stream sid ?st (sq_scheduler q))"
    using inactive by (simp add: activated_def same_mode_def bytes_to_send_in_next_message_def)
  moreover have "taken sid (?s, sq_out q)"
    using takenI[OF sq_coreD(2)[OF core] refl, of sid] by (simp add: s taken_def)
  ultimately show "changed sid q q'" "queue_stream q' sid = ?s"
    using put q' by (intro changedI[OF core, of sid ?s "sq_out q" "put_stream sid ?st (sq_scheduler q)"]; simp)+
qed

lemma GetOrCreate_core:
  assumes core: "sq_core q"
  shows "changed sid q (GetOrCreateStreamInfo sid q)" "queue_stream (GetOrCreateStreamInfo sid q) x = queue_stream q x"
proof -
  show "queue_stream (GetOrCreateStreamInfo sid q) x = queue_stream q x"
    using sq_coreD(4)[OF core] by (auto simp: GetOrCreateStreamInfo_def out_stream_def put_out_def find_or_def)
  show "changed sid q (GetOrCreateStreamInfo sid q)"
  proof (cases "map_of (ob_streams (sq_out q)) sid")
    case None
    then show ?thesis by (intro create_core(1)[OF core]) (simp_all add: GetOrCreateStreamInfo_def)
  qed (simp add: GetOrCreateStreamInfo_def changed_def core)
qed

lemma changed_trans:
  "changed sid q q' \<Longrightarrow> changed sid q' q'' \<Longrightarrow> changed sid q q''"
  by (auto simp: changed_def same_mode_def)

lemma changed_core [dest]: "changed sid q q' \<Longrightarrow> sq_core q'"
  by (simp add: changed_def)

lemma changed_inv:
  assumes "sq_inv q" "changed sid q q'" "begun_items (og_items (queue_stream q sid)) \<Longrightarrow> begun_items (og_items (queue_stream q' sid))"
  shows "sq_inv q'"
  using assms changed_mode[OF assms(2)] by (auto simp: sq_inv_def)

lemma GetOrCreate_inv: "sq_inv q \<Longrightarrow> sq_inv (GetOrCreateStreamInfo sid q)"
  using changed_inv[of q sid "GetOrCreateStreamInfo sid q"] GetOrCreate_core[of q sid] by (auto simp: sq_inv_def)

lemma SQ_Add_returns:
  assumes inv: "sq_inv q" and m: "msg_payload message \<noteq> []"
  shows "returns (SQ_Add now message options q) sq_inv"
proof -
  let ?sid = "msg_stream_id message"
  let ?q = "GetOrCreateStreamInfo ?sid q"
  have inv': "sq_inv ?q" by (rule GetOrCreate_inv[OF inv])
  have "returns (bind_outcome (OS_Add message attributes ?q) checked) sq_inv" for attributes
  proof -
    have "returns (OS_Add message attributes ?q) (\<lambda>q'. changed ?sid ?q q' \<and> sq_inv q')"
      using inv' m begun_items_snoc
      by (intro returns_mono[OF OS_Add_returns[OF _ m refl]] conjI changed_inv[OF inv']) (auto simp: sq_inv_def)
    then show ?thesis by (simp, elim returns_mono) auto
  qed
  then show ?thesis using m by (simp add: SQ_Add_def Let_def)
qed

lemma SQ_Discard_returns:
  assumes inv: "sq_inv q" and ok: "discard_ok message_id (queue_stream q sid)"
  shows "returns (SQ_Discard sid message_id q) (\<lambda>(b, q'). sq_inv q')"
proof -
  let ?q = "GetOrCreateStreamInfo sid q"
  have core: "sq_core ?q" and inv': "sq_inv ?q" using GetOrCreate_inv[OF inv] by (auto simp: sq_inv_def)
  have "sq_inv q'" if "changed sid (?q\<lparr>sq_scheduler := ForceReschedule (sq_scheduler ?q)\<rparr>) q'" for q'
    using that by (auto simp: sq_inv_def sq_mode_def changed_def same_mode_def)
  then have "returns (OS_Discard sid message_id ?q) (\<lambda>(b, q'). sq_inv q')"
    using ok inv' GetOrCreate_core(2)[of q sid sid] inv
    by (intro returns_mono[OF OS_Discard_returns[OF core]]) (auto simp: sq_inv_def split: if_splits)
  then show ?thesis
    unfolding SQ_Discard_def by (simp, elim returns_mono) (auto simp: sq_inv_def)
qed

lemma PrepareResetStream_returns:
  assumes inv: "sq_inv q"
  shows "returns (PrepareResetStream sid q) (\<lambda>q'. sq_inv q' \<and> og_pause_state (queue_stream q' sid) \<noteq> kNotPaused)"
proof -
  have inv': "sq_inv (GetOrCreateStreamInfo sid q)" by (rule GetOrCreate_inv[OF inv])
  then have "returns (OS_Pause sid (GetOrCreateStreamInfo sid q))
      (\<lambda>q'. sq_inv q' \<and> og_pause_state (queue_stream q' sid) \<noteq> kNotPaused)"
    by (intro returns_mono[OF OS_Pause_returns] conjI changed_inv[OF inv']) (auto simp: sq_inv_def)
  then show ?thesis
    unfolding PrepareResetStream_def by (simp, elim returns_mono) (auto simp: sq_inv_def)
qed

lemma fold_streams:
  assumes "sq_inv q" "\<And>sid q. sq_inv q \<Longrightarrow> returns (f sid q) sq_inv"
  shows "returns (fold_outcome f sids q) sq_inv"
  using assms by (intro fold_outcome_returns) auto

lemma for_each_resetting_returns:
  assumes inv: "sq_inv q" and some: "list_ex (\<lambda>(sid, s). IsResetting s) (ob_streams (sq_out q))"
    and f: "\<And>sid q. sq_core q \<Longrightarrow> IsResetting (queue_stream q sid) \<Longrightarrow> returns (f sid q) (\<lambda>q'. changed sid q q')"
  shows "returns (for_each_resetting f q) sq_inv"
proof -
  have "returns (if IsResetting (queue_stream q sid) then f sid q else Value q) sq_inv" if i: "sq_inv q" for sid q
  proof (cases "IsResetting (queue_stream q sid)")
    case True
    then have "\<not> begun_items (og_items (queue_stream q sid))"
      using i sq_coreD(3)[of q sid] by (simp add: sq_inv_def os_inv_def IsResetting_def)
    then have "returns (f sid q) sq_inv"
      using i True by (intro returns_mono[OF f]) (auto simp: sq_inv_def dest: changed_inv[OF i])
    then show ?thesis using True by simp
  qed (simp add: i)
  then have "returns (fold_outcome (\<lambda>sid q. if IsResetting (queue_stream q sid) then f sid q else Value q)
      (map fst (ob_streams (sq_out q))) q) sq_inv"
    by (intro fold_streams[OF inv])
  then show ?thesis
    using some unfolding for_each_resetting_def by (simp, elim returns_mono) (auto simp: sq_inv_def)
qed

lemma SQ_Reset_returns:
  assumes inv: "sq_core q"
  shows "returns (SQ_Reset q) sq_inv"
proof -
  have "returns (fold_outcome OS_Reset (map fst (ob_streams (sq_out q))) q) sq_core"
    using inv by (intro fold_outcome_returns) (auto intro!: returns_mono[OF OS_Reset_returns])
  then show ?thesis
    unfolding SQ_Reset_def by (simp, elim returns_mono) (auto simp: sq_inv_def sq_mode_def ForceReschedule_core)
qed

lemma SQ_Produce_returns:
  assumes "sq_inv q" "0 < max_size"
  shows "returns (SQ_Produce now max_size q) (\<lambda>(data, q'). sq_inv q'
    \<and> (case data of None \<Rightarrow> sch_active_streams (sq_scheduler q') = [] | Some d \<Rightarrow> chunk_fits max_size d))"
  using out.Scheduler_Produce_returns[of "sq_scheduler q" "sq_out q" max_size now] assms
  unfolding SQ_Produce_def by (simp add: sq_inv_sched, elim returns_mono) (auto split: option.splits)

section \<open>Resets, thresholds, priorities\<close>

definition resetting_of :: "OutgoingStream \<Rightarrow> OutgoingStream" where
  "resetting_of s = (if IsReadyToBeReset s then s\<lparr>og_pause_state := kResetting\<rparr> else s)"

lemma mark_resetting_eq:
  "mark_resetting m = Value (map fst (filter (\<lambda>(sid, s). IsReadyToBeReset s) m), map (\<lambda>(sid, s). (sid, resetting_of s)) m)"
  by (induction m rule: mark_resetting.induct) (auto simp: SetAsResetting_def IsReadyToBeReset_def resetting_of_def)

lemma out_stream_map:
  assumes "f (new_outgoing_stream None) = new_outgoing_stream None"
  shows "out_stream (p\<lparr>ob_streams := map (\<lambda>(sid, s). (sid, f s)) (ob_streams p)\<rparr>) sid = f (out_stream p sid)"
  using assms by (cases "map_of (ob_streams p) sid") (simp_all add: out_stream_def find_or_def map_of_map)

lemma GetStreamsReadyToBeReset_returns:
  assumes inv: "sq_inv q" and none: "\<not> list_ex (\<lambda>(sid, s). IsResetting s) (ob_streams (sq_out q))"
  shows "returns (GetStreamsReadyToBeReset q) (\<lambda>(ready, q'). sq_inv q' \<and> ready = map fst (filter (\<lambda>(sid, s). IsReadyToBeReset s) (ob_streams (sq_out q))))"
proof -
  define q' where "q' = q\<lparr>sq_out := (sq_out q)\<lparr>ob_streams := map (\<lambda>(sid, s). (sid, resetting_of s)) (ob_streams (sq_out q))\<rparr>\<rparr>"
  have core: "sq_core q" using inv by (simp add: sq_inv_def)
  have st: "queue_stream q' sid = resetting_of (queue_stream q sid)" for sid
    unfolding q'_def by (simp, rule out_stream_map) (simp add: resetting_of_def IsReadyToBeReset_def)
  have each: "os_inv sid (resetting_of s) = os_inv sid s" "stream_bytes (resetting_of s) = stream_bytes s"
      "bytes_to_send_in_next_message (resetting_of s) = bytes_to_send_in_next_message s" "og_items (resetting_of s) = og_items s" for sid s
    by (auto simp: resetting_of_def os_inv_def IsReadyToBeReset_def bytes_to_send_in_next_message_def)
  have "out_inv (sq_out q')"
    using sq_coreD(2)[OF core] st by (simp add: out_inv_def each) (simp add: q'_def comp_def each)
  moreover have "sq_mode q'"
    using inv st by (auto simp: sq_inv_def sq_mode_def partly_sent_def each) (auto simp: q'_def)
  moreover have "sq_scheduler q' = sq_scheduler q" by (simp add: q'_def)
  ultimately have "sq_inv q'"
    using sq_coreD(1)[OF core] sq_coreD(5)[OF core] by (simp add: sq_inv_def sq_core_def st each)
  then show ?thesis
    using none by (simp add: GetStreamsReadyToBeReset_def mark_resetting_eq q'_def)
qed

lemma SetBufferedAmountLowThreshold_inv:
  assumes inv: "sq_inv q"
  shows "sq_inv (SetBufferedAmountLowThreshold sid n q)"
proof -
  let ?q = "GetOrCreateStreamInfo sid q"
  have inv': "sq_inv ?q" and core: "sq_core ?q" using GetOrCreate_inv[OF inv] by (auto simp: sq_inv_def)
  let ?s0 = "queue_stream ?q sid"
  define s where "s = ?s0\<lparr>og_buffered_amount := snd (tw_SetLowThreshold n (og_buffered_amount ?s0))\<rparr>"
  define p where "p = make_callback (fst (tw_SetLowThreshold n (og_buffered_amount ?s0))) (OnBufferedAmountLow sid) (sq_out ?q)"
  have eq: "SetBufferedAmountLowThreshold sid n q = ?q\<lparr>sq_out := put_out sid s p\<rparr>"
    by (simp add: SetBufferedAmountLowThreshold_def s_def p_def Let_def case_prod_beta make_callback_def put_out_def)
  have "stream_bytes s = stream_bytes ?s0" "og_items s = og_items ?s0" "og_pause_state s = og_pause_state ?s0"
    by (simp_all add: s_def tw_SetLowThreshold_def)
  moreover from this have "os_inv sid s" using sq_coreD(3)[OF core, of sid] by (simp add: os_inv_def)
  moreover have "taken sid (s, p)"
    using takenI[OF sq_coreD(2)[OF core] refl, of sid] calculation(1) by (simp add: taken_def p_def)
  moreover have "activated sid (bytes_to_send_in_next_message s) (sq_scheduler ?q) (sq_scheduler ?q)"
    using sq_coreD(5)[OF core, of sid] calculation(2,3)
    by (intro activated_same sq_coreD(1)[OF core]) (simp add: bytes_to_send_in_next_message_def)
  ultimately have ch: "changed sid ?q (?q\<lparr>sq_out := put_out sid s p\<rparr>)" "queue_stream (?q\<lparr>sq_out := put_out sid s p\<rparr>) sid = s"
    by (intro changedI[OF core, of sid s p]; simp add: p_def)+
  show ?thesis
    unfolding eq by (rule changed_inv[OF inv' ch(1)]) (simp only: ch(2) \<open>og_items s = og_items ?s0\<close>)
qed

lemma SetStreamPriority_returns:
  assumes inv: "sq_inv q"
  shows "returns (SetStreamPriority sid priority q) sq_inv"
proof -
  let ?q = "GetOrCreateStreamInfo sid q"
  have inv': "sq_inv ?q" and core: "sq_core ?q" using GetOrCreate_inv[OF inv] by (auto simp: sq_inv_def)
  let ?sch = "sq_scheduler ?q"
  let ?s = "(stream_of ?sch sid)\<lparr>st_priority := priority, st_inverse_weight := InverseWeight priority\<rparr>"
  note sch = sq_coreD(1)[OF core]
  have sorted: "sorted_wrt (ActiveStreamComparator (put_stream sid ?s ?sch)) (sch_active_streams ?sch)"
    by (rule sorted_active_cong[OF sch_invD(5)[OF sch]]) (simp add: sch_invD(1)[OF sch])
  have "sch_inv (put_stream sid ?s ?sch)"
    using sorted sch_invD(1-5)[OF sch] sch_invD(6,7)[OF sch, of sid] InverseWeight_pos[of priority]
    by (intro sch_inv_put[OF sch, of ?s _ sid]) (auto simp: stream_ok_def)
  then have "sq_inv (?q\<lparr>sq_scheduler := Stream_SetPriority sid priority ?sch\<rparr>)"
    using inv' by (simp add: Stream_SetPriority_def sq_inv_def sq_core_def sq_mode_def)
  then show ?thesis by (simp add: SetStreamPriority_def Let_def sq_inv_def)
qed

section \<open>Runs\<close>

lemma new_send_queue_inv:
  assumes "32 < mtu"
  shows "sq_inv (new_send_queue buffer_size mtu priority threshold)"
proof -
  have "mtu - 12 - 20 = mtu - 32" by (simp add: diff_diff_eq)
  moreover have "mtu - 32 \<noteq> 0" using assms by auto
  ultimately have "0 < unat (mtu - 12 - 20)" by (metis unat_gt_0)
  moreover have "stream_ok (new_scheduler_stream 0)"
    by (simp add: stream_ok_def new_scheduler_stream_def InverseWeight_pos)
  moreover have "st_next_finish_time (new_scheduler_stream 0) = 0" by (simp add: new_scheduler_stream_def)
  ultimately show ?thesis
    by (simp add: sq_inv_def sq_core_def sq_mode_def new_send_queue_def new_stream_scheduler_def sch_inv_def stream_of_def
        find_or_def out_inv_def out_stream_def bytes_to_send_in_next_message_def tw_SetLowThreshold_def)
qed

lemma emplace_new: "omap_ok m \<Longrightarrow> map_of m k = None \<Longrightarrow> emplace k v m = (True, assign k v m)"
  by (induction k v m rule: emplace.induct) (auto split: if_splits)

lemma emplace_old: "omap_ok m \<Longrightarrow> map_of m k = Some v \<Longrightarrow> emplace k w m = (False, m)"
proof (induction k w m rule: emplace.induct)
  case (2 k v k' v' m)
  have "map_of m k = None" if "k < k'"
    using "2.prems" that by (intro map_of_none_above) auto
  then show ?case using 2 by (auto split: if_splits)
qed simp

lemma SQ_RestoreFromState_inv:
  assumes "sq_inv q"
  shows "sq_inv (SQ_RestoreFromState state q)"
proof -
  have "sq_inv (fold (\<lambda>state_stream q.
         let sid = ucast (hos_id state_stream);
             (inserted, streams) = emplace sid (new_outgoing_stream (Some state_stream)) (ob_streams (sq_out q)) in
         q\<lparr>sq_scheduler := (if inserted then CreateStream sid (hos_priority state_stream) (sq_scheduler q) else sq_scheduler q),
           sq_out := (sq_out q)\<lparr>ob_streams := streams\<rparr>\<rparr>) streams q)" for streams
    using assms
  proof (induction streams arbitrary: q)
    case (Cons st streams)
    let ?sid = "ucast (hos_id st) :: u16" and ?s = "new_outgoing_stream (Some st)"
    let ?q = "q\<lparr>sq_scheduler := CreateStream ?sid (hos_priority st) (sq_scheduler q), sq_out := put_out ?sid ?s (sq_out q)\<rparr>"
    have core: "sq_core q" using Cons.prems by (simp add: sq_inv_def)
    show ?case
    proof (cases "map_of (ob_streams (sq_out q)) ?sid")
      case None
      have ch: "changed ?sid q ?q" "queue_stream ?q ?sid = ?s"
        by (rule create_core[OF core None, where st = "Some st"]; simp)+
      have "queue_stream q ?sid = new_outgoing_stream None" using None by (simp add: out_stream_def find_or_def)
      then have "sq_inv ?q" by (intro changed_inv[OF Cons.prems ch(1)]) (simp add: begun_items_def)
      from Cons.IH[OF this] show ?thesis
        using emplace_new[OF sq_coreD(4)[OF core] None, of ?s] by (simp add: put_out_def Let_def)
    next
      case (Some s)
      then have "emplace ?sid ?s (ob_streams (sq_out q)) = (False, ob_streams (sq_out q))"
        by (rule emplace_old[OF sq_coreD(4)[OF core]])
      then show ?thesis using Cons.IH[OF Cons.prems] by (simp add: Let_def)
    qed
  qed simp
  then show ?thesis unfolding SQ_RestoreFromState_def .
qed

datatype SqOp =
  SqAdd Timestamp DcSctpMessage SendOptions | SqProduce Timestamp nat | SqDiscard u16 u32
  | SqPrepareReset u16 | SqGetReady | SqCommit | SqRollback | SqReset
  | SqSetLowThreshold u16 nat | SqSetPriority u16 u16 | SqEnableInterleaving bool

text \<open>A call whose precondition does not hold ends the run with \<^const>\<open>Nullopt\<close>.\<close>

definition some_resetting :: "RRSendQueue \<Rightarrow> bool" where
  "some_resetting q = list_ex (\<lambda>(sid, s). IsResetting s) (ob_streams (sq_out q))"

fun sq_allowed :: "SqOp \<Rightarrow> RRSendQueue \<Rightarrow> bool" where
  "sq_allowed (SqAdd now message options) q = (msg_payload message \<noteq> [])"
| "sq_allowed (SqProduce now max_size) q = (0 < max_size)"
| "sq_allowed (SqDiscard sid message_id) q = discard_ok message_id (queue_stream q sid)"
| "sq_allowed SqGetReady q = (\<not> some_resetting q)"
| "sq_allowed SqCommit q = some_resetting q"
| "sq_allowed SqRollback q = some_resetting q"
| "sq_allowed (SqEnableInterleaving b) q = (\<not> sch_currently_sending_a_message (sq_scheduler q))"
| "sq_allowed _ q = True"

definition no_chunk :: "RRSendQueue outcome \<Rightarrow> (DataToSend list \<times> RRSendQueue) outcome" where
  "no_chunk m = bind_outcome m (\<lambda>q. Value ([], q))"

fun sq_call :: "SqOp \<Rightarrow> RRSendQueue \<Rightarrow> (DataToSend list \<times> RRSendQueue) outcome" where
  "sq_call (SqAdd now message options) q = no_chunk (SQ_Add now message options q)"
| "sq_call (SqProduce now max_size) q =
     bind_outcome (SQ_Produce now max_size q) (\<lambda>(data, q). Value (case data of None \<Rightarrow> [] | Some d \<Rightarrow> [d], q))"
| "sq_call (SqDiscard sid message_id) q = bind_outcome (SQ_Discard sid message_id q) (\<lambda>(_, q). Value ([], q))"
| "sq_call (SqPrepareReset sid) q = no_chunk (PrepareResetStream sid q)"
| "sq_call SqGetReady q = bind_outcome (GetStreamsReadyToBeReset q) (\<lambda>(_, q). Value ([], q))"
| "sq_call SqCommit q = no_chunk (CommitResetStreams q)"
| "sq_call SqRollback q = no_chunk (RollbackResetStreams q)"
| "sq_call SqReset q = no_chunk (SQ_Reset q)"
| "sq_call (SqSetLowThreshold sid n) q = Value ([], SetBufferedAmountLowThreshold sid n q)"
| "sq_call (SqSetPriority sid priority) q = no_chunk (SetStreamPriority sid priority q)"
| "sq_call (SqEnableInterleaving b) q = Value ([], SQ_EnableMessageInterleaving b q)"

fun sq_run :: "SqOp list \<Rightarrow> RRSendQueue \<Rightarrow> (DataToSend list \<times> RRSendQueue) outcome" where
  "sq_run [] q = Value ([], q)"
| "sq_run (op # ops) q =
     bind_outcome (guard_opt (sq_allowed op q)) (\<lambda>_.
     bind_outcome (sq_call op q) (\<lambda>(out, q).
     bind_outcome (sq_run ops q) (\<lambda>(out', q). Value (out @ out', q))))"

lemma no_chunk_returns: "returns m sq_inv \<Longrightarrow> returns (no_chunk m) (\<lambda>(out, q). sq_inv q)"
  by (simp add: no_chunk_def)

lemma sq_call_returns:
  assumes inv: "sq_inv q" and "sq_allowed op q"
  shows "returns (sq_call op q) (\<lambda>(out, q'). sq_inv q')"
proof (cases op)
  case (SqProduce now max_size)
  then show ?thesis
    using assms by (simp, intro returns_mono[OF SQ_Produce_returns[OF inv]]) auto
next
  case (SqDiscard sid message_id)
  then show ?thesis
    using assms by (simp, intro returns_mono[OF SQ_Discard_returns[OF inv]]) auto
next
  case SqGetReady
  then show ?thesis
    using assms by (simp, intro returns_mono[OF GetStreamsReadyToBeReset_returns[OF inv]]) (auto simp: some_resetting_def)
next
  case SqCommit
  then show ?thesis
    using assms for_each_resetting_returns[OF inv, of OS_Reset] returns_mono[OF OS_Reset_returns]
    by (simp add: CommitResetStreams_def some_resetting_def no_chunk_returns)
next
  case SqRollback
  then show ?thesis
    using assms for_each_resetting_returns[OF inv, of OS_Resume] returns_mono[OF OS_Resume_returns]
    by (simp add: RollbackResetStreams_def some_resetting_def no_chunk_returns)
next
  case (SqPrepareReset sid)
  then show ?thesis
    using returns_mono[OF PrepareResetStream_returns[OF inv, of sid]] by (simp add: no_chunk_returns)
next
  case (SqEnableInterleaving b)
  have sch: "sch_inv (EnableMessageInterleaving b (sq_scheduler q))"
    using inv sorted_active_cong[of "sq_scheduler q" "sch_active_streams (sq_scheduler q)" "EnableMessageInterleaving b (sq_scheduler q)"]
    by (auto simp: sq_inv_def sq_core_def sch_inv_def EnableMessageInterleaving_def)
  with SqEnableInterleaving show ?thesis
    using assms by (simp add: SQ_EnableMessageInterleaving_def sq_inv_def sq_core_def sq_mode_def)
      (simp add: EnableMessageInterleaving_def)
next
  case SqReset
  then show ?thesis
    using no_chunk_returns[OF SQ_Reset_returns[OF inv[unfolded sq_inv_def, THEN conjunct1]]] by simp
qed (use assms in \<open>simp_all add: no_chunk_returns SQ_Add_returns SetStreamPriority_returns SetBufferedAmountLowThreshold_inv\<close>)

lemma sq_run_safe:
  assumes "sq_inv q"
  shows "safe (sq_run ops q) (\<lambda>(out, q'). sq_inv q')"
  using assms
proof (induction ops arbitrary: q)
  case Nil
  then show ?case by (simp add: safe_def)
next
  case (Cons op ops)
  have "safe (bind_outcome (sq_call op q) (\<lambda>(out, q). bind_outcome (sq_run ops q) (\<lambda>(out', q). Value (out @ out', q))))
      (\<lambda>(out, q'). sq_inv q')" if "sq_allowed op q"
  proof (rule safe_bind[OF returns_safe[OF sq_call_returns[OF Cons.prems that]]], clarify)
    fix out q' assume "sq_inv q'"
    from Cons.IH[OF this] show "safe (bind_outcome (sq_run ops q') (\<lambda>(out', q). Value (out @ out', q))) (\<lambda>(out, q'). sq_inv q')"
      by (rule safe_bind) (auto simp: safe_def)
  qed
  then show ?case by simp
qed

definition start_queue :: "nat \<Rightarrow> u64 \<Rightarrow> u16 \<Rightarrow> nat \<Rightarrow> HandoverState \<Rightarrow> RRSendQueue" where
  "start_queue buffer_size mtu priority threshold state =
     SQ_RestoreFromState state (new_send_queue buffer_size mtu priority threshold)"

lemma start_queue_inv: "32 < mtu \<Longrightarrow> sq_inv (start_queue buffer_size mtu priority threshold state)"
  by (simp add: start_queue_def SQ_RestoreFromState_inv new_send_queue_inv)

lemma reached_inv:
  "32 < mtu \<Longrightarrow> sq_run ops (start_queue buffer_size mtu priority threshold state) = Value (out, q) \<Longrightarrow> sq_inv q"
  using sq_run_safe[OF start_queue_inv, of mtu ops buffer_size priority threshold state] by (auto simp: safe_def)

section \<open>Properties\<close>

text \<open>
  C5.  No sequence of calls on a send queue, new or restored from a handover state, fails a debug
  check of the queue, of a stream or of the scheduler, as long as empty messages are not sent, room
  for at least one byte is given, only partly sent messages are discarded, streams are reset in the
  documented order and interleaving is not switched in the middle of a message.  Afterwards the total
  of buffered bytes is the sum over the streams of what remains of their messages, the active streams
  are exactly those with something to send, and their virtual finish times ascend.
\<close>

theorem send_queue_consistent:
  assumes "32 < mtu"
  shows "sq_run ops (start_queue buffer_size mtu priority threshold state) \<noteq> Abort
    \<and> (\<forall>out q. sq_run ops (start_queue buffer_size mtu priority threshold state) = Value (out, q) \<longrightarrow>
      SQ_IsConsistent q
      \<and> total_buffered_amount q = msum (\<lambda>s. \<Sum>item\<leftarrow>og_items s. qi_remaining_size item) (ob_streams (sq_out q))
      \<and> sorted_wrt (ActiveStreamComparator (sq_scheduler q)) (sch_active_streams (sq_scheduler q)))"
proof (intro conjI[of "_ \<noteq> _"] allI impI)
  show "sq_run ops (start_queue buffer_size mtu priority threshold state) \<noteq> Abort"
    using sq_run_safe[OF start_queue_inv[OF assms]] by (simp add: safe_def)
  fix out q
  assume "sq_run ops (start_queue buffer_size mtu priority threshold state) = Value (out, q)"
  then have core: "sq_core q" using reached_inv[OF assms] by (simp add: sq_inv_def)
  have "msum stream_bytes (ob_streams (sq_out q)) = msum (\<lambda>s. \<Sum>item\<leftarrow>og_items s. qi_remaining_size item) (ob_streams (sq_out q))"
  proof (rule msum_cong)
    fix s assume "s \<in> snd ` set (ob_streams (sq_out q))"
    then obtain sid where "(sid, s) \<in> set (ob_streams (sq_out q))" by auto
    then have "queue_stream q sid = s"
      using omap_okD[OF sq_coreD(4)[OF core]] by (simp add: out_stream_def find_or_def)
    then show "stream_bytes s = (\<Sum>item\<leftarrow>og_items s. qi_remaining_size item)"
      using sq_coreD(3)[OF core, of sid] by (simp add: os_inv_def remaining_def)
  qed
  then show "SQ_IsConsistent q
      \<and> total_buffered_amount q = msum (\<lambda>s. \<Sum>item\<leftarrow>og_items s. qi_remaining_size item) (ob_streams (sq_out q))
      \<and> sorted_wrt (ActiveStreamComparator (sq_scheduler q)) (sch_active_streams (sq_scheduler q))"
    using core SQ_IsConsistent_core[OF core] sch_invD(5)[OF sq_coreD(1)[OF core]] sq_coreD(2)[OF core]
    by (simp add: total_buffered_amount_def out_inv_def)
qed

definition plain_options :: SendOptions where
  "plain_options = \<lparr>so_unordered = False, so_lifetime = None, so_max_retransmissions = None, so_lifecycle_id = 0\<rparr>"

definition sample_message :: "u16 \<Rightarrow> bytes \<Rightarrow> DcSctpMessage" where
  "sample_message sid payload = \<lparr>msg_stream_id = sid, msg_ppid = 51, msg_payload = payload\<rparr>"

definition sample_calls :: "SqOp list" where
  "sample_calls =
     [SqAdd 0 (sample_message 1 [1, 2, 3]) plain_options, SqAdd 0 (sample_message 2 [4]) plain_options,
      SqProduce 0 2, SqProduce 0 2, SqProduce 0 2]"

lemmas send_queue_defs = sample_message_def plain_options_def
      SQ_Add_def OS_Add_def GetOrCreateStreamInfo_def no_chunk_def Let_def
      tw_SetLowThreshold_def tw_Increase_def CreateStream_def put_out_def out_stream_def find_or_def new_outgoing_stream_def
      bytes_to_send_in_next_message_def new_queued_item_def Stream_MaybeMakeActive_def stream_of_def new_scheduler_stream_def
      Stream_MakeActive_def CalculateFinishTime_def put_stream_def checked_def OS_IsConsistent_def SQ_IsConsistent_def
      ActiveStreamComparator_def total_buffered_amount_def ActiveStreamsForTesting_def sset_of_def double_round_def

lemmas produce_defs = SQ_Produce_def Scheduler_Produce_def produce_loop.simps choose_stream_def Stream_ForceMarkInactive_def
      Stream_Produce_def OS_Produce_def produce_fragment_def allocate_numbers_def fragment_of_def decrease_buffered_def
      tw_Decrease_def make_callback_def Scheduler_IsConsistent_def after_produce_def Stream_MakeInactive_def

lemma sample_calls_run:
  "\<exists>out q. sq_run sample_calls (start_queue 100 1200 256 0 empty_handover_state) = Value (out, q)
    \<and> map (\<lambda>d. (d_stream_id (ds_data d), d_payload (ds_data d))) out = [(1, [1, 2]), (1, [3]), (2, [4])]"
  by (simp add: sample_calls_def start_queue_def SQ_RestoreFromState_def empty_handover_state_def 
      new_send_queue_def new_stream_scheduler_def send_queue_defs produce_defs PlusInfinity_def)

theorem send_queue_consistent_witness:
  "\<exists>out q. sq_run sample_calls (start_queue 100 1200 256 0 empty_handover_state) = Value (out, q) \<and> SQ_IsConsistent q
    \<and> map (\<lambda>d. (d_stream_id (ds_data d), d_payload (ds_data d))) out = [(1, [1, 2]), (1, [3]), (2, [4])]"
  using sample_calls_run send_queue_consistent[of 1200 sample_calls 100 256 0 empty_handover_state] by auto

text \<open>
  C6.  Producing ends.  The loop of the scheduler has no bound of its own: while it stays with the
  stream of an unfinished message it does not remove a stream, and would run for ever if that stream
  had nothing to produce.  In every state that calls can reach it returns, without failing a check,
  and it returns nothing only when no stream is left with anything to send.
\<close>

theorem send_queue_produce_terminates:
  assumes "32 < mtu" "sq_run ops (start_queue buffer_size mtu priority threshold state) = Value (out, q)" "0 < max_size"
  shows "(\<exists>r. produce_loop OS_Produce now max_size
        (sch_enable_message_interleaving (sq_scheduler q) \<or> \<not> sch_currently_sending_a_message (sq_scheduler q))
        (sq_scheduler q, sq_out q) = Some r)
    \<and> (\<exists>data q'. SQ_Produce now max_size q = Value (data, q')
        \<and> (data = None \<longrightarrow> (\<forall>sid. bytes_to_send_in_next_message (out_stream (sq_out q') sid) = 0)))"
proof -
  have inv: "sq_inv q" using reached_inv[OF assms(1,2)] .
  obtain data q' where p: "SQ_Produce now max_size q = Value (data, q')" "sq_inv q'"
      "data = None \<longrightarrow> sch_active_streams (sq_scheduler q') = []"
    using SQ_Produce_returns[OF inv assms(3), of now] by (auto simp: returns_def split: option.splits)
  have "bytes_to_send_in_next_message (queue_stream q' sid) = 0" if "data = None" for sid
    using that p(2,3) sq_coreD(5)[of q' sid] by (simp add: sq_inv_def)
  moreover have "produce_loop OS_Produce now max_size
      (sch_enable_message_interleaving (sq_scheduler q) \<or> \<not> sch_currently_sending_a_message (sq_scheduler q))
      (sq_scheduler q, sq_out q) \<noteq> None"
  proof
    assume "produce_loop OS_Produce now max_size
      (sch_enable_message_interleaving (sq_scheduler q) \<or> \<not> sch_currently_sending_a_message (sq_scheduler q))
      (sq_scheduler q, sq_out q) = None"
    then show False using p(1) by (simp add: SQ_Produce_def Scheduler_Produce_def Let_def)
  qed
  ultimately show ?thesis using p(1) by blast
qed

theorem send_queue_produce_terminates_witness:
  "\<exists>out q. sq_run sample_calls (start_queue 100 1200 256 0 empty_handover_state) = Value (out, q)
    \<and> (\<exists>data q'. SQ_Produce 0 2 q = Value (data, q'))"
proof -
  obtain out q where run: "sq_run sample_calls (start_queue 100 1200 256 0 empty_handover_state) = Value (out, q)"
    using sample_calls_run by blast
  have "32 < (1200 :: u64)" "0 < (2 :: nat)" by simp_all
  from send_queue_produce_terminates[OF this(1) run this(2), of 0] run show ?thesis by blast
qed

end
