(* ===== verification/Timer.thy ===== *)
theory Timer
  imports Outcome_Logic Time_Units Ordered_Maps
begin

text \<open>
  Timers, \<open>timer/timer.cc\<close>, over the interface \<open>Timeout\<close> of \<open>public/timeout.h\<close>.  Of a timeout the
  model keeps whether it runs, for how long and with which identifier; that \<open>Start\<close> is never called on a
  running timeout is a check, as in the implementation of the interface.  The callback of a timer is a
  parameter which may itself start and stop the timer, and threads a state \<open>'w\<close>.
\<close>

unbundle bit_operations_syntax

section \<open>Timeouts\<close>

type_synonym Timeout = "(int \<times> u64) option"

definition Timeout_Start :: "int \<Rightarrow> u64 \<Rightarrow> Timeout \<Rightarrow> Timeout outcome" where
  "Timeout_Start duration timeout_id timeout =
     bind_outcome (rtc_check (timeout = None)) (\<lambda>_. Value (Some (duration, timeout_id)))"

definition Timeout_Stop :: "Timeout \<Rightarrow> Timeout" where
  "Timeout_Stop timeout = None"

definition Timeout_Restart :: "int \<Rightarrow> u64 \<Rightarrow> Timeout \<Rightarrow> Timeout outcome" where
  "Timeout_Restart duration timeout_id timeout = Timeout_Start duration timeout_id (Timeout_Stop timeout)"

section \<open>Timers\<close>

datatype TimerBackoffAlgorithm = kFixed | kExponential

record TimerOptions =
  to_duration :: TimeDelta
  to_backoff_algorithm :: TimerBackoffAlgorithm
  to_max_restarts :: "int option"
  to_max_backoff_duration :: TimeDelta

record Timer =
  tm_id :: u32
  tm_options :: TimerOptions
  tm_timeout :: Timeout
  tm_duration :: TimeDelta
  tm_generation :: u32
  tm_is_running :: bool
  tm_expiration_count :: int

definition kMaxTimerDuration :: TimeDelta where
  "kMaxTimerDuration = Millis (24 * 3600 * 1000)"

definition MakeTimeoutId :: "u32 \<Rightarrow> u32 \<Rightarrow> u64" where
  "MakeTimeoutId timer_id generation = push_bit 32 (ucast timer_id) OR ucast generation"

text \<open>The loop doubles the duration at most \<open>expiration_count\<close> times.\<close>

fun backoff_loop :: "TimerOptions \<Rightarrow> TimeDelta \<Rightarrow> nat \<Rightarrow> TimeDelta" where
  "backoff_loop options duration 0 = min duration kMaxTimerDuration"
| "backoff_loop options duration (Suc n) =
     (if duration < kMaxTimerDuration
      then let duration = duration * 2 in
        if duration > to_max_backoff_duration options then to_max_backoff_duration options
        else backoff_loop options duration n
      else min duration kMaxTimerDuration)"

definition GetBackoffDuration :: "TimerOptions \<Rightarrow> TimeDelta \<Rightarrow> int \<Rightarrow> TimeDelta" where
  "GetBackoffDuration options base_duration expiration_count =
     (case to_backoff_algorithm options of
        kFixed \<Rightarrow> base_duration
      | kExponential \<Rightarrow> backoff_loop options base_duration (nat expiration_count))"

definition new_timer :: "u32 \<Rightarrow> TimerOptions \<Rightarrow> Timer" where
  "new_timer timer_id options =
     \<lparr>tm_id = timer_id, tm_options = options, tm_timeout = None, tm_duration = to_duration options,
      tm_generation = 0, tm_is_running = False, tm_expiration_count = 0\<rparr>"

text \<open>The conversion of a duration to whole milliseconds in 32 bits.\<close>

definition to_DurationMs :: "TimeDelta \<Rightarrow> int" where
  "to_DurationMs d =
     (if d = PlusInfinity \<or> d = MinusInfinity then InfiniteDuration else sint (word_of_int (to_ms d) :: 32 word))"

definition Timer_Start :: "Timer \<Rightarrow> Timer outcome" where
  "Timer_Start t =
     (let generation = tm_generation t + 1; timeout_id = MakeTimeoutId (tm_id t) generation;
          t' = t\<lparr>tm_expiration_count := 0, tm_generation := generation, tm_is_running := True\<rparr> in
      bind_outcome
        (if \<not> tm_is_running t then Timeout_Start (to_DurationMs (tm_duration t)) timeout_id (tm_timeout t)
         else Timeout_Restart (to_DurationMs (tm_duration t)) timeout_id (tm_timeout t))
        (\<lambda>timeout. Value (t'\<lparr>tm_timeout := timeout\<rparr>)))"

definition Timer_Stop :: "Timer \<Rightarrow> Timer" where
  "Timer_Stop t =
     (if tm_is_running t
      then t\<lparr>tm_timeout := Timeout_Stop (tm_timeout t), tm_expiration_count := 0, tm_is_running := False\<rparr>
      else t)"

definition Timer_set_duration :: "TimeDelta \<Rightarrow> Timer \<Rightarrow> Timer" where
  "Timer_set_duration duration t = t\<lparr>tm_duration := min duration kMaxTimerDuration\<rparr>"

text \<open>Starting the timeout again with the backed off duration and a new generation.\<close>

definition start_backed_off :: "Timer \<Rightarrow> Timer outcome" where
  "start_backed_off t =
     (let duration = GetBackoffDuration (tm_options t) (tm_duration t) (tm_expiration_count t);
          generation = tm_generation t + 1 in
      bind_outcome (Timeout_Start (to_DurationMs duration) (MakeTimeoutId (tm_id t) generation) (tm_timeout t))
        (\<lambda>timeout. Value (t\<lparr>tm_generation := generation, tm_timeout := timeout\<rparr>)))"

definition restarts_left :: "Timer \<Rightarrow> bool" where
  "restarts_left t =
     (case to_max_restarts (tm_options t) of None \<Rightarrow> True | Some n \<Rightarrow> tm_expiration_count t \<le> n)"

definition Timer_Trigger ::
  "(Timer \<times> 'w \<Rightarrow> (TimeDelta \<times> Timer \<times> 'w) outcome) \<Rightarrow> u32 \<Rightarrow> Timer \<times> 'w \<Rightarrow> (Timer \<times> 'w) outcome" where
  "Timer_Trigger on_expired generation tw =
     (case tw of (t0, w) \<Rightarrow>
      if tm_is_running t0 \<and> generation = tm_generation t0
      then
        let t = t0\<lparr>tm_expiration_count := tm_expiration_count t0 + 1, tm_is_running := False\<rparr> in
        bind_outcome (if restarts_left t then start_backed_off (t\<lparr>tm_is_running := True\<rparr>) else Value t) (\<lambda>t.
        bind_outcome (on_expired (t, w)) (\<lambda>(new_duration, t, w).
        bind_outcome (rtc_check (new_duration \<noteq> PlusInfinity)) (\<lambda>_.
        if new_duration > 0 \<and> new_duration \<noteq> tm_duration t
        then
          let t = t\<lparr>tm_duration := new_duration\<rparr> in
          if tm_is_running t
          then bind_outcome (start_backed_off (t\<lparr>tm_timeout := Timeout_Stop (tm_timeout t)\<rparr>)) (\<lambda>t. Value (t, w))
          else Value (t, w)
        else Value (t, w))))
      else Value (t0, w))"

section \<open>The timer manager\<close>

text \<open>The registered timers and the last identifier given out.\<close>

record TimerManager =
  tmm_timers :: "(u32, Timer) omap"
  tmm_next_id :: u32

definition CreateTimer :: "TimerOptions \<Rightarrow> TimerManager \<Rightarrow> (u32 \<times> TimerManager) outcome" where
  "CreateTimer options mgr =
     (let timer_id = tmm_next_id mgr + 1 in
      bind_outcome (rtc_check (timer_id \<noteq> - 1)) (\<lambda>_.
        Value (timer_id, mgr\<lparr>tmm_next_id := timer_id, tmm_timers := assign timer_id (new_timer timer_id options) (tmm_timers mgr)\<rparr>)))"

definition DestroyTimer :: "u32 \<Rightarrow> TimerManager \<Rightarrow> TimerManager" where
  "DestroyTimer timer_id mgr = mgr\<lparr>tmm_timers := erase_key timer_id (tmm_timers mgr)\<rparr>"

definition timer_of_timeout :: "u64 \<Rightarrow> u32" where
  "timer_of_timeout timeout_id = ucast (drop_bit 32 timeout_id)"

definition generation_of_timeout :: "u64 \<Rightarrow> u32" where
  "generation_of_timeout timeout_id = ucast timeout_id"

definition HandleTimeout ::
  "(u32 \<Rightarrow> Timer \<times> 'w \<Rightarrow> (TimeDelta \<times> Timer \<times> 'w) outcome) \<Rightarrow> u64 \<Rightarrow> TimerManager \<times> 'w \<Rightarrow> (TimerManager \<times> 'w) outcome" where
  "HandleTimeout on_expired timeout_id mw =
     (case mw of (mgr, w) \<Rightarrow>
      let timer_id = timer_of_timeout timeout_id in
      case map_of (tmm_timers mgr) timer_id of
        None \<Rightarrow> Value (mgr, w)
      | Some t \<Rightarrow>
          bind_outcome (Timer_Trigger (on_expired timer_id) (generation_of_timeout timeout_id) (t, w)) (\<lambda>(t, w).
            Value (mgr\<lparr>tmm_timers := assign timer_id t (tmm_timers mgr)\<rparr>, w)))"

section \<open>A timer and its timeout keep in step\<close>

text \<open>The timeout runs exactly while the timer does, with the identifier of the current generation.\<close>

definition timer_ok :: "Timer \<Rightarrow> bool" where
  "timer_ok t =
     (if tm_is_running t then \<exists>d. tm_timeout t = Some (d, MakeTimeoutId (tm_id t) (tm_generation t)) else tm_timeout t = None)"

lemma timeout_id_fields [simp]:
  "timer_of_timeout (MakeTimeoutId timer_id generation) = timer_id"
  "generation_of_timeout (MakeTimeoutId timer_id generation) = generation"
  by (rule bit_word_eqI; auto simp: timer_of_timeout_def generation_of_timeout_def MakeTimeoutId_def
      bit_simps dest: bit_imp_le_length)+

lemma Timer_Start_returns: "timer_ok t \<Longrightarrow> returns (Timer_Start t) (\<lambda>t'. timer_ok t' \<and> tm_is_running t'
    \<and> tm_expiration_count t' = 0 \<and> tm_id t' = tm_id t \<and> tm_options t' = tm_options t \<and> tm_duration t' = tm_duration t
    \<and> tm_timeout t' = Some (to_DurationMs (tm_duration t), MakeTimeoutId (tm_id t) (tm_generation t + 1)))"
  by (simp add: Timer_Start_def timer_ok_def Timeout_Start_def Timeout_Restart_def Timeout_Stop_def Let_def split: if_splits)

lemma Timer_Stop_ok [simp]: "timer_ok t \<Longrightarrow> timer_ok (Timer_Stop t)" "\<not> tm_is_running (Timer_Stop t)"
  by (simp_all add: timer_ok_def Timer_Stop_def Timeout_Stop_def)

lemma new_timer_ok [simp]: "timer_ok (new_timer timer_id options)" "\<not> tm_is_running (new_timer timer_id options)"
  by (simp_all add: timer_ok_def new_timer_def)

lemma start_backed_off_returns:
  assumes "tm_is_running t" "tm_timeout t = None"
  shows "returns (start_backed_off t) (\<lambda>t'. timer_ok t' \<and> tm_is_running t' \<and> tm_id t' = tm_id t \<and> tm_options t' = tm_options t
    \<and> tm_duration t' = tm_duration t \<and> tm_expiration_count t' = tm_expiration_count t
    \<and> tm_timeout t' = Some (to_DurationMs (GetBackoffDuration (tm_options t) (tm_duration t) (tm_expiration_count t)),
          MakeTimeoutId (tm_id t) (tm_generation t + 1)))"
  using assms by (simp add: start_backed_off_def Timeout_Start_def timer_ok_def Let_def)

lemma start_backed_off_ok: "tm_is_running t \<Longrightarrow> tm_timeout t = None \<Longrightarrow> returns (start_backed_off t) timer_ok"
  by (rule returns_mono[OF start_backed_off_returns]) simp_all

text \<open>The timeout of the current generation has expired.\<close>

definition expired :: "Timer \<Rightarrow> bool" where
  "expired t = (tm_is_running t \<and> tm_timeout t = None)"

lemma Timer_Trigger_returns:
  assumes "expired t" and w: "P w"
    and cb: "\<And>t w. timer_ok t \<Longrightarrow> P w \<Longrightarrow> returns (on_expired (t, w)) (\<lambda>(d, t', w'). timer_ok t' \<and> d \<noteq> PlusInfinity \<and> P w')"
  shows "returns (Timer_Trigger on_expired (tm_generation t) (t, w)) (\<lambda>(t', w'). timer_ok t' \<and> P w')"
proof -
  let ?t = "t\<lparr>tm_expiration_count := tm_expiration_count t + 1, tm_is_running := False\<rparr>"
  have again: "returns (if restarts_left ?t then start_backed_off (?t\<lparr>tm_is_running := True\<rparr>) else Value ?t) timer_ok"
    using assms(1) start_backed_off_ok[of "?t\<lparr>tm_is_running := True\<rparr>"]
    by (cases "restarts_left ?t") (simp_all add: expired_def timer_ok_def[of ?t])
  have after: "returns (if d > 0 \<and> d \<noteq> tm_duration t'
        then let t' = t'\<lparr>tm_duration := d\<rparr> in
          if tm_is_running t' then bind_outcome (start_backed_off (t'\<lparr>tm_timeout := Timeout_Stop (tm_timeout t')\<rparr>)) (\<lambda>t'. Value (t', w'))
          else Value (t', w')
        else Value (t', w')) (\<lambda>(t', w'). timer_ok t' \<and> P w')" if "timer_ok t'" "P w'" for d t' w'
    using that start_backed_off_ok[of "t'\<lparr>tm_duration := d, tm_timeout := None\<rparr>"] that(1)[unfolded timer_ok_def]
    by (auto simp: Let_def Timeout_Stop_def timer_ok_def[of "t'\<lparr>tm_duration := d\<rparr>"] elim!: returns_mono)
  have run: "tm_is_running t" using assms(1) by (simp add: expired_def)
  show ?thesis
    unfolding Timer_Trigger_def prod.case if_P[OF conjI[OF run refl]] Let_def[of ?t] returns_bind
  proof (rule returns_mono[OF again])
    fix t1 assume "timer_ok t1"
    show "returns (on_expired (t1, w)) (\<lambda>x. returns (case x of (new_duration, t, w) \<Rightarrow>
        bind_outcome (rtc_check (new_duration \<noteq> PlusInfinity)) (\<lambda>_.
          if 0 < new_duration \<and> new_duration \<noteq> tm_duration t
          then let t = t\<lparr>tm_duration := new_duration\<rparr> in
            if tm_is_running t then bind_outcome (start_backed_off (t\<lparr>tm_timeout := Timeout_Stop (tm_timeout t)\<rparr>)) (\<lambda>t. Value (t, w))
            else Value (t, w)
          else Value (t, w))) (\<lambda>(t', w'). timer_ok t' \<and> P w'))"
      using after by (intro returns_mono[OF cb[OF \<open>timer_ok t1\<close> w]]) (auto simp del: returns_if)
  qed
qed

lemma Timer_Trigger_stale: "generation \<noteq> tm_generation t \<or> \<not> tm_is_running t \<Longrightarrow> Timer_Trigger on_expired generation (t, w) = Value (t, w)"
  by (auto simp: Timer_Trigger_def)

section \<open>Backing off\<close>

definition backoff_cap :: "TimerOptions \<Rightarrow> TimeDelta" where
  "backoff_cap options = min (to_max_backoff_duration options) kMaxTimerDuration"

lemma backoff_loop_eq:
  assumes "0 < d" "d \<le> to_max_backoff_duration options"
    and M: "to_max_backoff_duration options \<le> kMaxTimerDuration \<or> 2 * kMaxTimerDuration \<le> to_max_backoff_duration options"
  shows "backoff_loop options d n = min (d * 2 ^ n) (backoff_cap options)"
  using assms(1,2)
proof (induction n arbitrary: d)
  case 0
  then show ?case by (simp add: backoff_cap_def min_def)
next
  case (Suc n)
  obtain e where e: "d * 2 ^ Suc n = e" by blast
  then have grow: "2 * d \<le> e" using Suc.prems(1) by (auto simp: mult_le_cancel_left1)
  show ?case
  proof (cases "d < kMaxTimerDuration \<and> d * 2 \<le> to_max_backoff_duration options")
    case True
    then show ?thesis using Suc.IH[of "d * 2"] Suc.prems by (simp add: mult_ac)
  next
    case False
    then show ?thesis unfolding e using Suc.prems M grow by (auto simp: backoff_cap_def min_def)
  qed
qed

lemma to_DurationMs_small: "0 \<le> d \<Longrightarrow> d \<le> kMaxTimerDuration \<Longrightarrow> to_DurationMs d = to_ms d"
proof -
  assume d: "0 \<le> d" "d \<le> kMaxTimerDuration"
  then have "0 \<le> to_ms d" "to_ms d \<le> 24 * 3600 * 1000"
    by (simp_all add: to_ms_nonneg to_ms_le_Millis kMaxTimerDuration_def)
  then have "sint (word_of_int (to_ms d) :: 32 word) = to_ms d"
    by (simp add: signed_of_int signed_take_bit_int_eq_self)
  moreover have "d \<noteq> PlusInfinity \<and> d \<noteq> MinusInfinity"
    using d by (simp add: kMaxTimerDuration_def Millis_def PlusInfinity_def MinusInfinity_def)
  ultimately show "to_DurationMs d = to_ms d" by (simp add: to_DurationMs_def)
qed

text \<open>The timeout of a timer expires, and its callback leaves the timer alone.\<close>

definition expire_once :: "Timer \<Rightarrow> Timer outcome" where
  "expire_once t =
     (case tm_timeout t of
        None \<Rightarrow> Value t
      | Some (_, timeout_id) \<Rightarrow>
          bind_outcome (Timer_Trigger (\<lambda>(t, w). Value (0, t, w)) (generation_of_timeout timeout_id) (t\<lparr>tm_timeout := None\<rparr>, ()))
            (\<lambda>(t, _). Value t))"

fun expire_times :: "nat \<Rightarrow> Timer \<Rightarrow> Timer outcome" where
  "expire_times 0 t = Value t"
| "expire_times (Suc k) t = bind_outcome (expire_times k t) expire_once"

definition may_run :: "TimerOptions \<Rightarrow> nat \<Rightarrow> bool" where
  "may_run options k = (k = 0 \<or> (case to_max_restarts options of None \<Rightarrow> True | Some n \<Rightarrow> int k \<le> n))"

definition after_expiries :: "TimerOptions \<Rightarrow> TimeDelta \<Rightarrow> nat \<Rightarrow> Timer \<Rightarrow> bool" where
  "after_expiries options b k t =
     (timer_ok t \<and> tm_options t = options \<and> tm_duration t = b \<and> (tm_is_running t \<longleftrightarrow> may_run options k)
      \<and> (tm_is_running t \<longrightarrow> tm_expiration_count t = int k
           \<and> fst (the (tm_timeout t)) = to_ms (min (b * 2 ^ k) (backoff_cap options))))"

lemma expire_once_step:
  assumes ok: "after_expiries options b k t" and exp: "to_backoff_algorithm options = kExponential"
    and b: "0 < b" "b \<le> to_max_backoff_duration options"
    and M: "to_max_backoff_duration options \<le> kMaxTimerDuration \<or> 2 * kMaxTimerDuration \<le> to_max_backoff_duration options"
  shows "returns (expire_once t) (after_expiries options b (Suc k))"
proof (cases "tm_is_running t")
  case False
  then have "\<not> may_run options (Suc k)"
    using ok by (auto simp: after_expiries_def may_run_def split: option.splits)
  then show ?thesis
    using False ok by (simp add: expire_once_def after_expiries_def timer_ok_def)
next
  case True
  then obtain d where t: "tm_timeout t = Some (d, MakeTimeoutId (tm_id t) (tm_generation t))"
    using ok by (auto simp: after_expiries_def timer_ok_def)
  let ?t = "t\<lparr>tm_timeout := None, tm_expiration_count := tm_expiration_count t + 1, tm_is_running := False\<rparr>"
  have opts: "tm_options t = options" "tm_duration t = b" "tm_expiration_count t = int k"
    using ok True by (simp_all add: after_expiries_def)
  have left: "restarts_left ?t = may_run options (Suc k)"
    by (simp add: restarts_left_def may_run_def opts add.commute split: option.splits)
  have "0 < min (b * 2 ^ Suc k) (backoff_cap options)" "min (b * 2 ^ Suc k) (backoff_cap options) \<le> kMaxTimerDuration"
    using b by (simp_all add: backoff_cap_def kMaxTimerDuration_def Millis_def)
  then have dur: "to_DurationMs (GetBackoffDuration options b (int (Suc k))) = to_ms (min (b * 2 ^ Suc k) (backoff_cap options))"
    using backoff_loop_eq[OF b M, of "Suc k"] exp by (simp add: GetBackoffDuration_def to_DurationMs_small nat_add_distrib)
  have "returns (if restarts_left ?t then start_backed_off (?t\<lparr>tm_is_running := True\<rparr>) else Value ?t) (after_expiries options b (Suc k))"
  proof (cases "restarts_left ?t")
    case True
    then show ?thesis
      using start_backed_off_returns[of "?t\<lparr>tm_is_running := True\<rparr>"] left dur
      by (auto simp: after_expiries_def opts add.commute elim!: returns_mono)
  next
    case False
    then show ?thesis using left by (simp add: after_expiries_def timer_ok_def opts)
  qed
  then show ?thesis
    using True by (simp add: expire_once_def t Timer_Trigger_def Let_def PlusInfinity_def cong: if_cong)
qed

section \<open>Properties\<close>


definition sample_timer :: Timer where
  "sample_timer = new_timer 1 \<lparr>to_duration = Millis 1000, to_backoff_algorithm = kExponential, to_max_restarts = Some 3,
     to_max_backoff_duration = Millis 3000\<rparr>"


end
