(* ===== verification/Task_Queue_Timeout.thy ===== *)
theory Task_Queue_Timeout
  imports Timer
begin

text \<open>
  The implementation of timeouts by delayed tasks, \<open>timer/task_queue_timeout.cc\<close>.  A posted task cannot
  be taken back, so stopping a timeout leaves its task in the queue, and a later expiry reuses it.  A
  task is the time at which it is due and the safety flag it was posted with, of which a new one is a
  new number; a task with an old flag does nothing.
\<close>

section \<open>The implementation\<close>

record TaskQueueTimeout =
  tq_safety_flag :: nat
  tq_posted_task_expiration :: Timestamp
  tq_timeout_expiration :: Timestamp
  tq_timeout_id :: u64

type_synonym posted_task = "Timestamp \<times> nat"

definition new_task_queue_timeout :: TaskQueueTimeout where
  "new_task_queue_timeout =
     \<lparr>tq_safety_flag = 0, tq_posted_task_expiration = PlusInfinity, tq_timeout_expiration = PlusInfinity, tq_timeout_id = 0\<rparr>"

definition TaskQueueTimeout_Start ::
  "Timestamp \<Rightarrow> int \<Rightarrow> u64 \<Rightarrow> TaskQueueTimeout \<times> posted_task list \<Rightarrow> (TaskQueueTimeout \<times> posted_task list) outcome" where
  "TaskQueueTimeout_Start now duration_ms timeout_id st =
     (case st of (t0, tasks) \<Rightarrow>
      bind_outcome (rtc_check (tq_timeout_expiration t0 = PlusInfinity)) (\<lambda>_.
      let t = t0\<lparr>tq_timeout_expiration := time_plus now (ToTimeDelta duration_ms), tq_timeout_id := timeout_id\<rparr> in
      if tq_timeout_expiration t \<ge> tq_posted_task_expiration t then Value (t, tasks)
      else
        let t = (if tq_posted_task_expiration t \<noteq> PlusInfinity then t\<lparr>tq_safety_flag := tq_safety_flag t + 1\<rparr> else t);
            t = t\<lparr>tq_posted_task_expiration := tq_timeout_expiration t\<rparr> in
        Value (t, tasks @ [(time_plus now (Millis duration_ms), tq_safety_flag t)])))"

definition TaskQueueTimeout_Stop :: "TaskQueueTimeout \<Rightarrow> TaskQueueTimeout" where
  "TaskQueueTimeout_Stop t = t\<lparr>tq_timeout_expiration := PlusInfinity\<rparr>"

text \<open>The body of the posted task; the result says which timeout is reported as expired, if any.\<close>

definition run_task ::
  "Timestamp \<Rightarrow> nat \<Rightarrow> TaskQueueTimeout \<times> posted_task list \<Rightarrow> (u64 option \<times> TaskQueueTimeout \<times> posted_task list) outcome" where
  "run_task now flag st =
     (case st of (t, tasks) \<Rightarrow>
      if flag \<noteq> tq_safety_flag t then Value (None, t, tasks)
      else
        bind_outcome (rtc_check (tq_posted_task_expiration t \<noteq> PlusInfinity)) (\<lambda>_.
        let t = t\<lparr>tq_posted_task_expiration := PlusInfinity\<rparr> in
        if tq_timeout_expiration t = PlusInfinity then Value (None, t, tasks)
        else
          let remaining = time_minus (tq_timeout_expiration t) now;
              t = t\<lparr>tq_timeout_expiration := PlusInfinity\<rparr> in
          if remaining > 0
          then bind_outcome (TaskQueueTimeout_Start now (to_ms remaining) (tq_timeout_id t) (t, tasks)) (\<lambda>st. Value (None, st))
          else Value (Some (tq_timeout_id t), t, tasks)))"

section \<open>Sequences of calls and of tasks that run\<close>

text \<open>
  The queue runs the task at the head of the list of those that are due.  The times are those of a
  clock in whole milliseconds.
\<close>

datatype TimeoutOp = ToStart int int u64 | ToStop | ToRun nat int

type_synonym timeout_state = "TaskQueueTimeout \<times> posted_task list"

fun to_allowed :: "int \<Rightarrow> TimeoutOp \<Rightarrow> timeout_state \<Rightarrow> bool" where
  "to_allowed clock (ToStart now_ms d timeout_id) (t, tasks) =
     (tq_timeout_expiration t = PlusInfinity \<and> clock \<le> now_ms \<and> 0 \<le> d \<and> now_ms + d < 2 ^ 40 \<and> d < InfiniteDuration)"
| "to_allowed clock ToStop st = True"
| "to_allowed clock (ToRun i now_ms) (t, tasks) =
     (i < length tasks \<and> fst (tasks ! i) \<le> Millis now_ms \<and> clock \<le> now_ms \<and> now_ms < 2 ^ 40)"

fun clock_after :: "int \<Rightarrow> TimeoutOp \<Rightarrow> int" where
  "clock_after clock (ToStart now_ms d timeout_id) = now_ms"
| "clock_after clock ToStop = clock"
| "clock_after clock (ToRun i now_ms) = now_ms"

definition drop_nth :: "nat \<Rightarrow> 'a list \<Rightarrow> 'a list" where
  "drop_nth i xs = take i xs @ drop (Suc i) xs"

fun to_call :: "TimeoutOp \<Rightarrow> timeout_state \<Rightarrow> (u64 option \<times> timeout_state) outcome" where
  "to_call (ToStart now_ms d timeout_id) st =
     bind_outcome (TaskQueueTimeout_Start (Millis now_ms) d timeout_id st) (\<lambda>st. Value (None, st))"
| "to_call ToStop (t, tasks) = Value (None, TaskQueueTimeout_Stop t, tasks)"
| "to_call (ToRun i now_ms) (t, tasks) = run_task (Millis now_ms) (snd (tasks ! i)) (t, drop_nth i tasks)"

fun to_run :: "int \<Rightarrow> TimeoutOp list \<Rightarrow> timeout_state \<Rightarrow> (int \<times> timeout_state) outcome" where
  "to_run clock [] st = Value (clock, st)"
| "to_run clock (op # ops) st =
     bind_outcome (guard_opt (to_allowed clock op st)) (\<lambda>_.
     bind_outcome (to_call op st) (\<lambda>(r, st). to_run (clock_after clock op) ops st))"

section \<open>Invariant\<close>

definition whole_ms :: "int \<Rightarrow> bool" where
  "whole_ms x = (\<exists>k. x = Millis k \<and> 0 \<le> k \<and> k < 2 ^ 40)"

definition live :: "TaskQueueTimeout \<Rightarrow> posted_task list \<Rightarrow> posted_task list" where
  "live t tasks = filter (\<lambda>x. snd x = tq_safety_flag t) tasks"

definition tq_inv :: "int \<Rightarrow> timeout_state \<Rightarrow> bool" where
  "tq_inv clock st =
     (case st of (t, tasks) \<Rightarrow>
        live t tasks = (if tq_posted_task_expiration t = PlusInfinity then [] else [(tq_posted_task_expiration t, tq_safety_flag t)])
        \<and> (\<forall>x \<in> set tasks. snd x \<le> tq_safety_flag t)
        \<and> (tq_timeout_expiration t \<noteq> PlusInfinity \<longrightarrow> tq_posted_task_expiration t \<le> tq_timeout_expiration t \<and> whole_ms (tq_timeout_expiration t)
             \<and> tq_timeout_expiration t < Millis (clock + InfiniteDuration)))"

lemma whole_ms_finite: "whole_ms x \<Longrightarrow> 0 \<le> x \<and> x < PlusInfinity \<and> x \<noteq> MinusInfinity"
  by (auto simp: whole_ms_def Millis_def PlusInfinity_def MinusInfinity_def)

lemma expiry_eq:
  assumes "0 \<le> now_ms" "0 \<le> d" "now_ms + d < 2 ^ 40" "d < InfiniteDuration"
  shows "time_plus (Millis now_ms) (ToTimeDelta d) = Millis (now_ms + d)"
    "time_plus (Millis now_ms) (Millis d) = Millis (now_ms + d)" "whole_ms (Millis (now_ms + d))"
  using assms by (auto simp: time_plus_def ToTimeDelta_def Millis_def PlusInfinity_def MinusInfinity_def InfiniteDuration_def whole_ms_def
      intro!: exI[of _ "now_ms + d"])

lemma Start_returns:
  assumes inv: "tq_inv clock (t, tasks)" and ok: "to_allowed clock (ToStart now_ms d timeout_id) (t, tasks)" "0 \<le> clock"
  shows "returns (TaskQueueTimeout_Start (Millis now_ms) d timeout_id (t, tasks))
    (\<lambda>(t', tasks'). tq_inv now_ms (t', tasks') \<and> tq_timeout_expiration t' = Millis (now_ms + d) \<and> tq_timeout_id t' = timeout_id)"
proof -
  let ?e = "Millis (now_ms + d)"
  have e: "time_plus (Millis now_ms) (ToTimeDelta d) = ?e" "time_plus (Millis now_ms) (Millis d) = ?e" "whole_ms ?e"
    using ok by (intro expiry_eq; simp)+
  note fin = whole_ms_finite[OF e(3)]
  have old: "filter (\<lambda>x. snd x = Suc (tq_safety_flag t)) tasks = []"
    using inv by (auto simp: tq_inv_def filter_empty_conv)
  show ?thesis
    using inv ok old fin e unfolding TaskQueueTimeout_Start_def
    by (auto simp: tq_inv_def live_def Let_def le_Suc_eq Millis_def)
qed

lemma live_drop_nth:
  assumes "live t tasks = [x]" "i < length tasks" "snd (tasks ! i) = tq_safety_flag t"
  shows "tasks ! i = x" "live t (drop_nth i tasks) = []"
proof -
  have "tasks = take i tasks @ tasks ! i # drop (Suc i) tasks" using assms(2) by (rule id_take_nth_drop)
  then have "live t tasks = live t (take i tasks) @ tasks ! i # live t (drop (Suc i) tasks)"
    using assms(3) by (metis (mono_tags, lifting) filter.simps(2) filter_append live_def)
  then show "tasks ! i = x" "live t (drop_nth i tasks) = []"
    using assms(1) by (simp_all add: Cons_eq_append_conv append_eq_Cons_conv drop_nth_def live_def[of t "_ @ _"])
      (auto simp: live_def)
qed

lemma live_drop_other:
  assumes "i < length tasks" "snd (tasks ! i) \<noteq> tq_safety_flag t"
  shows "live t (drop_nth i tasks) = live t tasks"
proof -
  have "tasks = take i tasks @ tasks ! i # drop (Suc i) tasks" using assms(1) by (rule id_take_nth_drop)
  then have "live t tasks = live t (take i tasks) @ live t (drop (Suc i) tasks)"
    using assms(2) by (metis (mono_tags, lifting) filter.simps(2) filter_append live_def)
  then show ?thesis by (simp add: drop_nth_def live_def)
qed

lemma set_drop_nth: "x \<in> set (drop_nth i xs) \<Longrightarrow> x \<in> set xs"
  by (auto simp: drop_nth_def dest: in_set_takeD in_set_dropD)

definition reports :: "TaskQueueTimeout \<Rightarrow> nat \<Rightarrow> int \<Rightarrow> u64 option" where
  "reports t flag now_ms =
     (if flag = tq_safety_flag t \<and> tq_timeout_expiration t \<noteq> PlusInfinity \<and> tq_timeout_expiration t \<le> Millis now_ms
      then Some (tq_timeout_id t) else None)"

lemma run_task_returns:
  assumes inv: "tq_inv clock (t, tasks)" and ok: "to_allowed clock (ToRun i now_ms) (t, tasks)" "0 \<le> clock"
  shows "returns (to_call (ToRun i now_ms) (t, tasks)) (\<lambda>(r, t', tasks'). tq_inv now_ms (t', tasks')
    \<and> r = reports t (snd (tasks ! i)) now_ms
    \<and> (r = None \<longrightarrow> tq_timeout_expiration t' = tq_timeout_expiration t \<and> tq_timeout_id t' = tq_timeout_id t)
    \<and> (r \<noteq> None \<longrightarrow> tq_timeout_expiration t' = PlusInfinity))"
proof (cases "snd (tasks ! i) = tq_safety_flag t")
  case False
  have "Millis (clock + InfiniteDuration) \<le> Millis (now_ms + InfiniteDuration)" using ok by (simp add: Millis_def)
  then show ?thesis
    using False inv ok live_drop_other[of i tasks t]
    by (auto simp: run_task_def tq_inv_def reports_def dest!: set_drop_nth)
next
  case True
  have posted: "tq_posted_task_expiration t \<noteq> PlusInfinity"
  proof
    assume "tq_posted_task_expiration t = PlusInfinity"
    then have "\<forall>x \<in> set tasks. snd x \<noteq> tq_safety_flag t" using inv by (simp add: tq_inv_def live_def filter_empty_conv)
    then show False using True ok(1) by simp
  qed
  let ?t = "t\<lparr>tq_posted_task_expiration := PlusInfinity, tq_timeout_expiration := PlusInfinity\<rparr>"
  have "live t (drop_nth i tasks) = []"
    using live_drop_nth(2)[of t tasks _ i] inv posted True ok(1) by (simp add: tq_inv_def)
  then have inv1: "tq_inv now_ms (?t, drop_nth i tasks)"
    using inv by (auto simp: tq_inv_def live_def dest!: set_drop_nth)
  show ?thesis
  proof (cases "tq_timeout_expiration t = PlusInfinity")
    case inf: True
    have "?t = t\<lparr>tq_posted_task_expiration := PlusInfinity\<rparr>" using inf by (cases t) simp
    then have "tq_inv now_ms (t\<lparr>tq_posted_task_expiration := PlusInfinity\<rparr>, drop_nth i tasks)" using inv1 by metis
    then show ?thesis using True posted inf by (simp add: run_task_def reports_def)
  next
    case False
    then obtain k where k: "tq_timeout_expiration t = Millis k" "0 \<le> k" "k < 2 ^ 40" "k < clock + InfiniteDuration"
      using inv by (auto simp: tq_inv_def whole_ms_def Millis_def)
    have rem: "time_minus (tq_timeout_expiration t) (Millis now_ms) = Millis (k - now_ms)"
      using k ok by (simp add: time_minus_def Millis_def PlusInfinity_def MinusInfinity_def)
    show ?thesis
    proof (cases "now_ms < k")
      case later: True
      have "to_allowed now_ms (ToStart now_ms (k - now_ms) (tq_timeout_id t)) (?t, drop_nth i tasks)" "0 \<le> now_ms"
        using later k ok by simp_all
      note start = Start_returns[OF inv1 this]
      have "0 < Millis (k - now_ms)" "\<not> Millis k \<le> Millis now_ms" using later by (simp_all add: Millis_def)
      then show ?thesis
        using True posted False rem k(1) start
        by (auto simp: run_task_def reports_def Let_def elim!: returns_mono)
    next
      case due: False
      then have "\<not> 0 < Millis (k - now_ms)" "Millis k \<le> Millis now_ms" by (simp_all add: Millis_def)
      then show ?thesis using True posted False rem inv1 k(1) by (simp add: run_task_def reports_def Let_def)
    qed
  qed
qed

lemma to_run_safe:
  assumes "tq_inv clock st" "0 \<le> clock"
  shows "safe (to_run clock ops st) (\<lambda>(clock', st'). tq_inv clock' st' \<and> 0 \<le> clock')"
  using assms
proof (induction ops arbitrary: clock st)
  case (Cons op ops)
  obtain t tasks where st: "st = (t, tasks)" by fastforce
  have "returns (to_call op st) (\<lambda>(r, st'). tq_inv (clock_after clock op) st' \<and> 0 \<le> clock_after clock op)" if "to_allowed clock op st"
  proof (cases op)
    case (ToStart now_ms d timeout_id)
    then show ?thesis
      using that Cons.prems st returns_mono[OF Start_returns[of clock t tasks now_ms d timeout_id]] by auto
  next
    case ToStop
    then show ?thesis using Cons.prems st by (auto simp: tq_inv_def TaskQueueTimeout_Stop_def live_def)
  next
    case (ToRun i now_ms)
    then show ?thesis
      using that Cons.prems st by (simp only:, intro returns_mono[OF run_task_returns[of clock t tasks]]) auto
  qed
  then show ?case
    using Cons.IH[of "clock_after clock op"] by (auto intro!: safe_bind[OF returns_safe])
qed (simp add: safe_def)

section \<open>Properties\<close>

text \<open>
  C35.  A timeout built from delayed tasks fires exactly when it should.  Whatever the calls of \<open>Start\<close>
  and \<open>Stop\<close> and whichever due tasks have run, at times that do not go back, no check fails.  While the
  timeout runs there is a task with the current flag that is due no later than the timeout expires.
  Running any due task reports the timeout exactly if that task has the current flag, the timeout
  runs and its time has come; otherwise it leaves the expiry and the identifier as they are.  So a
  running timeout is reported once, not before it expires, and a stopped one is not reported.
\<close>

theorem timeout_fires_exactly:
  "to_run 0 ops (new_task_queue_timeout, []) \<noteq> Abort
   \<and> (\<forall>clock t tasks. to_run 0 ops (new_task_queue_timeout, []) = Value (clock, t, tasks) \<longrightarrow>
      (tq_timeout_expiration t \<noteq> PlusInfinity \<longrightarrow>
         (\<exists>task \<in> set tasks. snd task = tq_safety_flag t \<and> fst task \<le> tq_timeout_expiration t))
      \<and> (\<forall>i now_ms. to_allowed clock (ToRun i now_ms) (t, tasks) \<longrightarrow>
          (\<exists>r t' tasks'. to_call (ToRun i now_ms) (t, tasks) = Value (r, t', tasks')
            \<and> r = (if snd (tasks ! i) = tq_safety_flag t \<and> tq_timeout_expiration t \<noteq> PlusInfinity
                    \<and> tq_timeout_expiration t \<le> Millis now_ms then Some (tq_timeout_id t) else None)
            \<and> (r = None \<longrightarrow> tq_timeout_expiration t' = tq_timeout_expiration t \<and> tq_timeout_id t' = tq_timeout_id t)
            \<and> (r \<noteq> None \<longrightarrow> tq_timeout_expiration t' = PlusInfinity))))"
proof -
  have start: "tq_inv 0 (new_task_queue_timeout, [])" by (simp add: tq_inv_def new_task_queue_timeout_def live_def)
  note safe = to_run_safe[OF start, of ops, simplified]
  have due: "\<exists>task \<in> set tasks. snd task = tq_safety_flag t \<and> fst task \<le> tq_timeout_expiration t"
    if "tq_inv clock (t, tasks)" "tq_timeout_expiration t \<noteq> PlusInfinity" for clock t tasks
  proof -
    have "tq_posted_task_expiration t \<le> tq_timeout_expiration t" "tq_timeout_expiration t < PlusInfinity"
      using that whole_ms_finite by (auto simp: tq_inv_def)
    then have "live t tasks = [(tq_posted_task_expiration t, tq_safety_flag t)]"
      using that by (auto simp: tq_inv_def)
    then have "(tq_posted_task_expiration t, tq_safety_flag t) \<in> set (live t tasks)" by simp
    then show ?thesis
      using \<open>tq_posted_task_expiration t \<le> _\<close> by (force simp: live_def)
  qed
  have run: "\<exists>r t' tasks'. to_call (ToRun i now_ms) (t, tasks) = Value (r, t', tasks') \<and> r = reports t (snd (tasks ! i)) now_ms
      \<and> (r = None \<longrightarrow> tq_timeout_expiration t' = tq_timeout_expiration t \<and> tq_timeout_id t' = tq_timeout_id t)
      \<and> (r \<noteq> None \<longrightarrow> tq_timeout_expiration t' = PlusInfinity)"
    if "tq_inv clock (t, tasks)" "0 \<le> clock" "to_allowed clock (ToRun i now_ms) (t, tasks)" for clock t tasks i now_ms
    using run_task_returns[OF that(1,3,2)] by (auto simp: returns_def)
  show ?thesis
    using safe due run unfolding safe_def reports_def by blast
qed

theorem timeout_fires_exactly_witness:
  "\<exists>clock t tasks. to_run 0 [ToStart 0 10 7, ToStop, ToStart 5 20 8, ToRun 0 10] (new_task_queue_timeout, []) = Value (clock, t, tasks)
    \<and> (\<exists>task \<in> set tasks. snd task = tq_safety_flag t \<and> fst task \<le> tq_timeout_expiration t)
    \<and> (\<exists>t' tasks'. to_call (ToRun 0 25) (t, tasks) = Value (Some 8, t', tasks'))"
proof -
  let ?run = "to_run 0 [ToStart 0 10 7, ToStop, ToStart 5 20 8, ToRun 0 10] (new_task_queue_timeout, [])"
  let ?t = "\<lparr>tq_safety_flag = 0, tq_posted_task_expiration = 25000, tq_timeout_expiration = 25000, tq_timeout_id = 8\<rparr>"
  have run: "?run = Value (10, ?t, [(25000, 0)])"
    by (simp add: new_task_queue_timeout_def TaskQueueTimeout_Start_def TaskQueueTimeout_Stop_def run_task_def drop_nth_def
        time_plus_def time_minus_def ToTimeDelta_def Millis_def PlusInfinity_def MinusInfinity_def InfiniteDuration_def
        to_ms_def DivideRoundToNearest_def Let_def)
  have "tq_timeout_expiration ?t \<noteq> PlusInfinity" "to_allowed 10 (ToRun 0 25) (?t, [(25000, 0)])"
      "tq_timeout_expiration ?t \<le> Millis 25"
    by (simp_all add: PlusInfinity_def Millis_def)
  moreover note timeout_fires_exactly[of "[ToStart 0 10 7, ToStop, ToStart 5 20 8, ToRun 0 10]", THEN conjunct2, rule_format, OF run]
  ultimately have "\<exists>t' tasks'. to_call (ToRun 0 25) (?t, [(25000, 0)]) = Value (Some 8, t', tasks')"
      "\<exists>task \<in> set [(25000, 0)]. snd task = tq_safety_flag ?t \<and> fst task \<le> tq_timeout_expiration ?t"
    by fastforce+
  then show ?thesis using run by blast
qed

end
