(* ===== verification/Retransmission_Queue.thy ===== *)
theory Retransmission_Queue
  imports Outstanding_Operations Reassembly_Queue Timer Options Send_Queue
begin

text \<open>
  Congestion control and the choice of the chunks to send, \<open>tx/retransmission_queue.cc\<close>.  The send
  queue behind its interface is a pair of parameters, \<open>produce\<close> and \<open>discard\<close>, over a state \<open>'q\<close> that the
  operations thread through.  Callbacks are recorded in the order of the calls; sizes are 64-bit words.
\<close>

section \<open>State\<close>

datatype TxEvent =
    SocketEvent SendQueueEvent
  | OnLifecycleMessageDelivered u64
  | OnLifecycleMessageFullySent u64
  | OnNewRtt TimeDelta
  | OnClearRetransmissionCounter

datatype CongestionAlgorithmPhase = kSlowStart | kCongestionAvoidance

record RetransmissionQueue =
  tx_options :: DcSctpOptions
  tx_min_bytes_required_to_send :: u64
  tx_partial_reliability :: bool
  tx_data_chunk_header_size :: u64
  tx_t3_rtx :: Timer
  tx_tsn_unwrapper :: "32 SeqNumUnwrapper"
  tx_cwnd :: u64
  tx_rwnd :: u64
  tx_rtx_packets_count :: u64
  tx_rtx_bytes_count :: u64
  tx_ssthresh :: u64
  tx_partial_bytes_acked :: u64
  tx_outstanding :: OutstandingData
  tx_fast_recovery_exit_tsn :: "int option"
  tx_events :: "TxEvent list"

abbreviation tx_mtu :: "RetransmissionQueue \<Rightarrow> u64" where
  "tx_mtu rq \<equiv> of_nat (opt_mtu (tx_options rq))"

abbreviation tx_unacked_bytes :: "RetransmissionQueue \<Rightarrow> u64" where
  "tx_unacked_bytes rq \<equiv> od_unacked_bytes (tx_outstanding rq)"

definition add_event :: "TxEvent \<Rightarrow> RetransmissionQueue \<Rightarrow> RetransmissionQueue" where
  "add_event e rq = rq\<lparr>tx_events := tx_events rq @ [e]\<rparr>"

text \<open>
  The factor for the smallest packet is the same single-precision 0.9 as the one of the receiver's
  watermark, and so is the product.
\<close>

definition new_retransmission_queue :: "u32 \<Rightarrow> u64 \<Rightarrow> Timer \<Rightarrow> DcSctpOptions \<Rightarrow> bool \<Rightarrow> bool \<Rightarrow> RetransmissionQueue" where
  "new_retransmission_queue my_initial_tsn a_rwnd t3_rtx options supports_partial_reliability use_message_interleaving =
     (let header = of_nat (kHeaderSize (if use_message_interleaving then IDataChunk_config else DataChunk_config));
          (last_tsn, unwrapper) = Unwrap new_unwrapper (my_initial_tsn - 1)
      in \<lparr>tx_options = options, tx_min_bytes_required_to_send = watermark_of (of_nat (opt_mtu options)),
          tx_partial_reliability = supports_partial_reliability, tx_data_chunk_header_size = header,
          tx_t3_rtx = t3_rtx, tx_tsn_unwrapper = unwrapper,
          tx_cwnd = of_nat (opt_cwnd_mtus_initial options) * of_nat (opt_mtu options),
          tx_rwnd = a_rwnd, tx_rtx_packets_count = 0, tx_rtx_bytes_count = 0, tx_ssthresh = a_rwnd,
          tx_partial_bytes_acked = 0, tx_outstanding = new_outstanding_data header last_tsn,
          tx_fast_recovery_exit_tsn = None, tx_events = []\<rparr>)"

definition Tx_GetSerializedChunkSize :: "RetransmissionQueue \<Rightarrow> Data \<Rightarrow> u64" where
  "Tx_GetSerializedChunkSize rq data = RoundUpTo4 (tx_data_chunk_header_size rq + of_nat (Data_size data))"

text \<open>The sum is accumulated in a 32-bit signed integer.\<close>

definition accumulate_sizes :: "RetransmissionQueue \<Rightarrow> (u32 \<times> Data) list \<Rightarrow> u64" where
  "accumulate_sizes rq chunks =
     scast (fold (\<lambda>(tsn, data) r. ucast (scast r + Tx_GetSerializedChunkSize rq data)) chunks (0 :: u32))"

definition is_in_fast_recovery :: "RetransmissionQueue \<Rightarrow> bool" where
  "is_in_fast_recovery rq = (tx_fast_recovery_exit_tsn rq \<noteq> None)"

definition phase :: "RetransmissionQueue \<Rightarrow> CongestionAlgorithmPhase" where
  "phase rq = (if tx_cwnd rq \<le> tx_ssthresh rq then kSlowStart else kCongestionAvoidance)"

definition max_bytes_to_send :: "RetransmissionQueue \<Rightarrow> u64" where
  "max_bytes_to_send rq =
     (let left = (if tx_unacked_bytes rq \<ge> tx_cwnd rq then 0 else tx_cwnd rq - tx_unacked_bytes rq) in
      if tx_unacked_bytes rq = 0 then left else min (tx_rwnd rq) left)"

definition can_send_data :: "RetransmissionQueue \<Rightarrow> bool" where
  "can_send_data rq =
     (tx_cwnd rq < of_nat (opt_avoid_fragmentation_cwnd_mtus (tx_options rq)) * tx_mtu rq
      \<or> max_bytes_to_send rq \<ge> tx_min_bytes_required_to_send rq)"

definition tx_next_tsn :: "RetransmissionQueue \<Rightarrow> u32" where
  "tx_next_tsn rq = Wrap (next_tsn (tx_outstanding rq))"

definition last_assigned_tsn :: "RetransmissionQueue \<Rightarrow> u32" where
  "last_assigned_tsn rq = Wrap (AddTo (next_tsn (tx_outstanding rq)) (- 1))"

section \<open>Acknowledgements\<close>

definition MaybeExitFastRecovery :: "int \<Rightarrow> RetransmissionQueue \<Rightarrow> RetransmissionQueue" where
  "MaybeExitFastRecovery cumulative_tsn_ack rq =
     (case tx_fast_recovery_exit_tsn rq of
        None \<Rightarrow> rq
      | Some tsn \<Rightarrow> if cumulative_tsn_ack \<ge> tsn then rq\<lparr>tx_fast_recovery_exit_tsn := None\<rparr> else rq)"

definition HandleIncreasedCumulativeTsnAck :: "u64 \<Rightarrow> u64 \<Rightarrow> RetransmissionQueue \<Rightarrow> RetransmissionQueue" where
  "HandleIncreasedCumulativeTsnAck unacked_bytes total_bytes_acked rq =
     (let is_fully_utilized = (unacked_bytes + tx_mtu rq \<ge> tx_cwnd rq) in
      case phase rq of
        kSlowStart \<Rightarrow>
          if is_fully_utilized \<and> \<not> is_in_fast_recovery rq
          then rq\<lparr>tx_cwnd := tx_cwnd rq + min total_bytes_acked (tx_mtu rq)\<rparr> else rq
      | kCongestionAvoidance \<Rightarrow>
          let pba = tx_partial_bytes_acked rq + total_bytes_acked in
          if pba \<ge> tx_cwnd rq \<and> is_fully_utilized
          then rq\<lparr>tx_partial_bytes_acked := pba - tx_cwnd rq, tx_cwnd := tx_cwnd rq + tx_mtu rq\<rparr>
          else rq\<lparr>tx_partial_bytes_acked := pba\<rparr>)"

definition HandlePacketLoss :: "int \<Rightarrow> RetransmissionQueue \<Rightarrow> RetransmissionQueue" where
  "HandlePacketLoss highest_tsn_acked rq =
     (if \<not> is_in_fast_recovery rq
      then let ssthresh = max (tx_cwnd rq div 2) (of_nat (opt_cwnd_mtus_min (tx_options rq)) * tx_mtu rq) in
        rq\<lparr>tx_ssthresh := ssthresh, tx_cwnd := ssthresh, tx_partial_bytes_acked := 0,
           tx_fast_recovery_exit_tsn := Some (highest_outstanding_tsn (tx_outstanding rq))\<rparr>
      else rq)"

definition UpdateReceiverWindow :: "u32 \<Rightarrow> RetransmissionQueue \<Rightarrow> RetransmissionQueue" where
  "UpdateReceiverWindow a_rwnd rq =
     rq\<lparr>tx_rwnd := (if tx_unacked_bytes rq \<ge> ucast a_rwnd then 0 else ucast a_rwnd - tx_unacked_bytes rq)\<rparr>"

definition ensure_timer :: "RetransmissionQueue \<Rightarrow> RetransmissionQueue outcome" where
  "ensure_timer rq =
     (if \<not> tm_is_running (tx_t3_rtx rq)
      then bind_outcome (Timer_Start (tx_t3_rtx rq)) (\<lambda>t. Value (rq\<lparr>tx_t3_rtx := t\<rparr>)) else Value rq)"

definition StartT3RtxTimerIfOutstandingData :: "RetransmissionQueue \<Rightarrow> RetransmissionQueue outcome" where
  "StartT3RtxTimerIfOutstandingData rq =
     (if od_outstanding_data (tx_outstanding rq) = [] then Value rq else ensure_timer rq)"

definition IsSackValid :: "u32 \<Rightarrow> GapAckBlock list \<Rightarrow> RetransmissionQueue \<Rightarrow> bool" where
  "IsSackValid cumulative_tsn_ack gap_ack_blocks rq =
     (let cum = PeekUnwrap (tx_tsn_unwrapper rq) cumulative_tsn_ack; od = tx_outstanding rq in
      if cum < od_last_cumulative_tsn_ack od then False
      else if cum > highest_outstanding_tsn od then False
      else \<not> list_ex (\<lambda>block. AddTo cum (uint (gab_end block)) > highest_outstanding_tsn od) gap_ack_blocks)"

definition UpdateRTT :: "Timestamp \<Rightarrow> int \<Rightarrow> RetransmissionQueue \<Rightarrow> RetransmissionQueue outcome" where
  "UpdateRTT now cumulative_tsn_ack rq =
     bind_outcome (MeasureRTT now cumulative_tsn_ack (tx_outstanding rq)) (\<lambda>rtt.
     Value (if rtt \<noteq> PlusInfinity \<and> rtt \<noteq> MinusInfinity then add_event (OnNewRtt rtt) rq else rq))"

definition lifecycle_events :: "AckInfo \<Rightarrow> TxEvent list" where
  "lifecycle_events ack_info =
     concat (map (\<lambda>i. [OnLifecycleMessageDelivered i, SocketEvent (OnLifecycleEnd i)]) (ai_acked_lifecycle_ids ack_info))
     @ concat (map (\<lambda>i. [SocketEvent (OnLifecycleMessageExpired i True), SocketEvent (OnLifecycleEnd i)])
         (ai_abandoned_lifecycle_ids ack_info))"

text \<open>What follows the update of the outstanding data: windows, timer and error counter.\<close>

definition after_sack :: "int \<Rightarrow> u64 \<Rightarrow> int \<Rightarrow> u32 \<Rightarrow> AckInfo \<Rightarrow> RetransmissionQueue \<Rightarrow> RetransmissionQueue outcome" where
  "after_sack old_last_cumulative_tsn_ack old_unacked_bytes cumulative_tsn_ack a_rwnd ack_info rq =
     (let rq = UpdateReceiverWindow a_rwnd rq;
          rq = (if cumulative_tsn_ack > old_last_cumulative_tsn_ack
                then HandleIncreasedCumulativeTsnAck old_unacked_bytes (ai_bytes_acked ack_info)
                  (rq\<lparr>tx_t3_rtx := Timer_Stop (tx_t3_rtx rq)\<rparr>)
                else rq);
          rq = (if ai_has_packet_loss ack_info then HandlePacketLoss (ai_highest_tsn_acked ack_info) rq else rq);
          rq = (if ai_bytes_acked ack_info > 0 then add_event OnClearRetransmissionCounter rq else rq)
      in StartT3RtxTimerIfOutstandingData rq)"

definition Tx_HandleSack ::
  "(u16 \<Rightarrow> u32 \<Rightarrow> 'q \<Rightarrow> bool \<times> 'q) \<Rightarrow> Timestamp \<Rightarrow> u32 \<Rightarrow> u32 \<Rightarrow> GapAckBlock list \<Rightarrow> RetransmissionQueue \<times> 'q
    \<Rightarrow> (bool \<times> RetransmissionQueue \<times> 'q) outcome" where
  "Tx_HandleSack discard now cumulative_tsn_ack a_rwnd gap_ack_blocks s =
     (case s of (rq0, q0) \<Rightarrow>
      if \<not> IsSackValid cumulative_tsn_ack gap_ack_blocks rq0 then Value (False, rq0, q0)
      else
        let (cum, unwrapper) = Unwrap (tx_tsn_unwrapper rq0) cumulative_tsn_ack;
            rq1 = rq0\<lparr>tx_tsn_unwrapper := unwrapper\<rparr> in
        bind_outcome (if gap_ack_blocks = [] then UpdateRTT now cum rq1 else Value rq1) (\<lambda>rq2.
        let rq3 = MaybeExitFastRecovery cum rq2 in
        bind_outcome (OD_HandleSack discard cum gap_ack_blocks (is_in_fast_recovery rq3) (tx_outstanding rq3, q0))
          (\<lambda>(ack_info, od, q).
        bind_outcome
          (after_sack (od_last_cumulative_tsn_ack (tx_outstanding rq0)) (tx_unacked_bytes rq0) cum a_rwnd ack_info
             (rq3\<lparr>tx_outstanding := od, tx_events := tx_events rq3 @ lifecycle_events ack_info\<rparr>))
          (\<lambda>rq. Value (True, rq, q)))))"

definition HandleT3RtxTimerExpiry ::
  "(u16 \<Rightarrow> u32 \<Rightarrow> 'q \<Rightarrow> bool \<times> 'q) \<Rightarrow> RetransmissionQueue \<times> 'q \<Rightarrow> (RetransmissionQueue \<times> 'q) outcome" where
  "HandleT3RtxTimerExpiry discard s =
     (case s of (rq0, q0) \<Rightarrow>
      let rq = rq0\<lparr>tx_ssthresh := max (tx_cwnd rq0 div 2) (4 * tx_mtu rq0), tx_cwnd := 1 * tx_mtu rq0,
                   tx_partial_bytes_acked := 0\<rparr> in
      bind_outcome (NackAll discard (tx_outstanding rq, q0)) (\<lambda>(od, q). Value (rq\<lparr>tx_outstanding := od\<rparr>, q)))"

section \<open>Sending\<close>

definition GetChunksForFastRetransmit ::
  "u64 \<Rightarrow> RetransmissionQueue \<Rightarrow> ((u32 \<times> Data) list \<times> RetransmissionQueue) outcome" where
  "GetChunksForFastRetransmit bytes_in_packet rq0 =
     bind_outcome (rtc_check (has_data_to_be_fast_retransmitted (tx_outstanding rq0))) (\<lambda>_.
     bind_outcome (rtc_check (IsDivisibleBy4 bytes_in_packet)) (\<lambda>_.
     bind_outcome (GetChunksToBeFastRetransmitted bytes_in_packet (tx_outstanding rq0)) (\<lambda>(to_be_sent, od).
     bind_outcome (rtc_check (to_be_sent \<noteq> [])) (\<lambda>_.
     let rq = rq0\<lparr>tx_outstanding := od,
                   tx_t3_rtx := (if fst (hd to_be_sent) = Wrap (next_value (od_last_cumulative_tsn_ack od))
                                 then Timer_Stop (tx_t3_rtx rq0) else tx_t3_rtx rq0)\<rparr> in
     bind_outcome (ensure_timer rq) (\<lambda>rq.
     Value (to_be_sent, rq\<lparr>tx_rtx_packets_count := tx_rtx_packets_count rq + 1,
                           tx_rtx_bytes_count := tx_rtx_bytes_count rq + accumulate_sizes rq to_be_sent\<rparr>))))))"

text \<open>One new chunk: it is counted against the packet and the receiver's window and given a number.\<close>

definition send_chunk ::
  "(u16 \<Rightarrow> u32 \<Rightarrow> 'q \<Rightarrow> bool \<times> 'q) \<Rightarrow> Timestamp \<Rightarrow> DataToSend \<Rightarrow> (u32 \<times> Data) list \<Rightarrow> RetransmissionQueue \<times> 'q
    \<Rightarrow> ((u32 \<times> Data) list \<times> RetransmissionQueue \<times> 'q) outcome" where
  "send_chunk discard now chunk to_be_sent s =
     (case s of (rq0, q0) \<Rightarrow>
      let rq = rq0\<lparr>tx_rwnd := tx_rwnd rq0 - Tx_GetSerializedChunkSize rq0 (ds_data chunk)\<rparr> in
      bind_outcome
        (OD_Insert discard (ds_message_id chunk) (ds_data chunk) now
           (if tx_partial_reliability rq then ds_max_retransmissions chunk else NoLimit)
           (if tx_partial_reliability rq then ds_expires_at chunk else PlusInfinity)
           (ds_lifecycle_id chunk) (tx_outstanding rq, q0)) (\<lambda>(tsn, od, q).
      let rq = rq\<lparr>tx_outstanding := od\<rparr> in
      case tsn of
        None \<Rightarrow> Value (to_be_sent, rq, q)
      | Some tsn \<Rightarrow>
          bind_outcome
            (if ds_lifecycle_id chunk \<noteq> 0
             then bind_outcome (rtc_check (d_is_end (ds_data chunk))) (\<lambda>_.
                  Value (add_event (OnLifecycleMessageFullySent (ds_lifecycle_id chunk)) rq))
             else Value rq)
            (\<lambda>rq. Value (to_be_sent @ [(Wrap tsn, ds_data chunk)], rq, q))))"

text \<open>The loop; \<open>None\<close> stands for never returning.\<close>

partial_function (option) send_loop ::
  "(Timestamp \<Rightarrow> nat \<Rightarrow> 'q \<Rightarrow> (DataToSend option \<times> 'q) outcome) \<Rightarrow> (u16 \<Rightarrow> u32 \<Rightarrow> 'q \<Rightarrow> bool \<times> 'q) \<Rightarrow> Timestamp \<Rightarrow> u64
    \<Rightarrow> (u32 \<times> Data) list \<Rightarrow> RetransmissionQueue \<times> 'q \<Rightarrow> ((u32 \<times> Data) list \<times> RetransmissionQueue \<times> 'q) outcome option" where
  "send_loop produce discard now max_bytes to_be_sent s =
     (if max_bytes > tx_data_chunk_header_size (fst s)
      then (case bind_outcome (rtc_check (IsDivisibleBy4 max_bytes)) (\<lambda>_.
                 bind_outcome (produce now (unat (max_bytes - tx_data_chunk_header_size (fst s))) (snd s)) (\<lambda>(chunk_opt, q).
                 case chunk_opt of
                   None \<Rightarrow> Value (None, to_be_sent, fst s, q)
                 | Some chunk \<Rightarrow> bind_outcome (send_chunk discard now chunk to_be_sent (fst s, q)) (\<lambda>s'.
                     Value (Some (max_bytes - Tx_GetSerializedChunkSize (fst s) (ds_data chunk)), s')))) of
              Value (rest, to_be_sent, s') \<Rightarrow>
                (case rest of None \<Rightarrow> Some (Value (to_be_sent, s'))
                 | Some max_bytes \<Rightarrow> send_loop produce discard now max_bytes to_be_sent s')
            | Nullopt \<Rightarrow> Some Nullopt
            | Abort \<Rightarrow> Some Abort)
      else Some (Value (to_be_sent, s)))"

text \<open>A call whose loop never returns is counted as failing.\<close>

definition GetChunksToSend ::
  "(Timestamp \<Rightarrow> nat \<Rightarrow> 'q \<Rightarrow> (DataToSend option \<times> 'q) outcome) \<Rightarrow> (u16 \<Rightarrow> u32 \<Rightarrow> 'q \<Rightarrow> bool \<times> 'q) \<Rightarrow> Timestamp \<Rightarrow> u64
    \<Rightarrow> RetransmissionQueue \<times> 'q \<Rightarrow> ((u32 \<times> Data) list \<times> RetransmissionQueue \<times> 'q) outcome" where
  "GetChunksToSend produce discard now bytes_remaining_in_packet s =
     (case s of (rq0, q0) \<Rightarrow>
      bind_outcome (rtc_check (IsDivisibleBy4 bytes_remaining_in_packet)) (\<lambda>_.
      let max_bytes = RoundDownTo4 (min (max_bytes_to_send rq0) bytes_remaining_in_packet) in
      bind_outcome (GetChunksToBeRetransmitted max_bytes (tx_outstanding rq0)) (\<lambda>(to_be_sent, od).
      let bytes_retransmitted = accumulate_sizes rq0 to_be_sent;
          rq1 = rq0\<lparr>tx_outstanding := od\<rparr>;
          rq = (if to_be_sent \<noteq> []
                then rq1\<lparr>tx_rtx_packets_count := tx_rtx_packets_count rq1 + 1,
                          tx_rtx_bytes_count := tx_rtx_bytes_count rq1 + bytes_retransmitted\<rparr> else rq1) in
      case send_loop produce discard now (max_bytes - bytes_retransmitted) to_be_sent (rq, q0) of
        None \<Rightarrow> Abort
      | Some result \<Rightarrow>
          bind_outcome result (\<lambda>(to_be_sent, rq, q).
          bind_outcome (if to_be_sent \<noteq> [] then ensure_timer rq else Value rq) (\<lambda>rq.
          Value (to_be_sent, rq, q))))))"

definition Tx_ShouldSendForwardTsn ::
  "(u16 \<Rightarrow> u32 \<Rightarrow> 'q \<Rightarrow> bool \<times> 'q) \<Rightarrow> Timestamp \<Rightarrow> RetransmissionQueue \<times> 'q \<Rightarrow> (bool \<times> RetransmissionQueue \<times> 'q) outcome" where
  "Tx_ShouldSendForwardTsn discard now s =
     (case s of (rq, q) \<Rightarrow>
      if \<not> tx_partial_reliability rq then Value (False, rq, q)
      else bind_outcome (ExpireOutstandingChunks discard now (tx_outstanding rq, q)) (\<lambda>(od, q).
           Value (ShouldSendForwardTsn od, rq\<lparr>tx_outstanding := od\<rparr>, q)))"

section \<open>Stream resets and handover\<close>

definition Tx_BeginResetStreams ::
  "('q \<Rightarrow> (u16 list \<times> 'q) outcome) \<Rightarrow> RetransmissionQueue \<times> 'q \<Rightarrow> (u16 list \<times> RetransmissionQueue \<times> 'q) outcome" where
  "Tx_BeginResetStreams get_streams_ready s =
     (case s of (rq, q) \<Rightarrow>
      bind_outcome (get_streams_ready q) (\<lambda>(ready, q).
      Value (ready, rq\<lparr>tx_outstanding := OD_BeginResetStreams (tx_outstanding rq)\<rparr>, q)))"

definition Tx_GetHandoverReadiness :: "RetransmissionQueue \<Rightarrow> HandoverReadinessStatus" where
  "Tx_GetHandoverReadiness rq =
     (let add = (\<lambda>b reason status. if b then status_Add_reason status reason else status) in
      add (has_data_to_be_retransmitted (tx_outstanding rq)) kRetransmissionQueueNotEmpty
        (add (tx_fast_recovery_exit_tsn rq \<noteq> None) kRetransmissionQueueFastRecovery
          (add (od_outstanding_data (tx_outstanding rq) \<noteq> []) kRetransmissionQueueOutstandingData ready_status)))"

definition Tx_AddHandoverState :: "RetransmissionQueue \<Rightarrow> HandoverState \<Rightarrow> HandoverState" where
  "Tx_AddHandoverState rq state =
     state\<lparr>hs_tx := (hs_tx state)\<lparr>htx_next_tsn := tx_next_tsn rq, htx_rwnd := ucast (tx_rwnd rq),
       htx_cwnd := ucast (tx_cwnd rq), htx_ssthresh := ucast (tx_ssthresh rq),
       htx_partial_bytes_acked := ucast (tx_partial_bytes_acked rq)\<rparr>\<rparr>"

definition Tx_RestoreFromState :: "HandoverState \<Rightarrow> RetransmissionQueue \<Rightarrow> RetransmissionQueue outcome" where
  "Tx_RestoreFromState state rq =
     bind_outcome (rtc_check (od_outstanding_data (tx_outstanding rq) = [])) (\<lambda>_.
     bind_outcome (rtc_check (\<not> tm_is_running (tx_t3_rtx rq))) (\<lambda>_.
     bind_outcome (rtc_check (tx_partial_bytes_acked rq = 0)) (\<lambda>_.
     case Unwrap (tx_tsn_unwrapper rq) (htx_next_tsn (hs_tx state) - 1) of (tsn, unwrapper) \<Rightarrow>
     bind_outcome (ResetSequenceNumbers tsn (tx_outstanding rq)) (\<lambda>od.
     Value (rq\<lparr>tx_cwnd := ucast (htx_cwnd (hs_tx state)), tx_rwnd := ucast (htx_rwnd (hs_tx state)),
       tx_ssthresh := ucast (htx_ssthresh (hs_tx state)),
       tx_partial_bytes_acked := ucast (htx_partial_bytes_acked (hs_tx state)),
       tx_tsn_unwrapper := unwrapper, tx_outstanding := od\<rparr>)))))"

end
