(* ===== verification/Outstanding_Links.thy ===== *)
theory Outstanding_Links
  imports Outstanding_Operations
begin

text \<open>
  What the operations on the outstanding data do to the messages that the chunks belong to, to the
  bytes in flight and to the state behind the \<open>discard\<close> callback.  These facts hold of every state and
  say what a call did if it returned.
\<close>

section \<open>The messages of the chunks\<close>

definition item_key :: "Item \<Rightarrow> u16 \<times> u32" where
  "item_key item = (d_stream_id (it_data item), it_message_id item)"

definition od_keys :: "OutstandingData \<Rightarrow> (u16 \<times> u32) set" where
  "od_keys od = item_key ` set (od_outstanding_data od)"

text \<open>A chunk that still has to reach the peer.\<close>

definition od_live :: "OutstandingData \<Rightarrow> bool" where
  "od_live od = (\<exists>item \<in> set (od_outstanding_data od). \<not> is_acked item \<and> \<not> is_abandoned item)"

definition sizes_ok :: "nat \<Rightarrow> OutstandingData \<Rightarrow> bool" where
  "sizes_ok cap od = (\<forall>item \<in> set (od_outstanding_data od). unat (GetSerializedChunkSize od (it_data item)) \<le> cap)"

lemma item_key_simps [simp]:
  "item_key (Item_Ack item) = item_key item" "item_key (Item_MarkAsRetransmitted item) = item_key item"
  "item_key (abandon_if other item) = item_key item" "item_key (placeholder item) = item_key item"
  "item_key (new_item mid data t mr ex lc) = (d_stream_id data, mid)"
  by (simp_all add: item_key_def Item_Ack_def Item_MarkAsRetransmitted_def new_item_def message_end_def placeholder_def)

lemma it_data_simps [simp]:
  "it_data (Item_Ack item) = it_data item" "it_data (Item_MarkAsRetransmitted item) = it_data item"
  by (simp_all add: Item_Ack_def Item_MarkAsRetransmitted_def)

text \<open>Nothing but the state of the items changes.\<close>

definition same_chunk :: "Item \<Rightarrow> Item \<Rightarrow> bool" where
  "same_chunk item item' =
     (item_key item' = item_key item \<and> (it_data item' = it_data item \<or> it_data item' = message_end item))"

definition same_data :: "OutstandingData \<Rightarrow> OutstandingData \<Rightarrow> bool" where
  "same_data od od' =
     (od_data_chunk_header_size od' = od_data_chunk_header_size od
      \<and> (\<forall>item' \<in> set (od_outstanding_data od'). \<exists>item \<in> set (od_outstanding_data od). same_chunk item item'))"

lemma same_chunk_refl [simp]: "same_chunk item item"
  by (simp add: same_chunk_def)

lemma same_chunk_trans: "same_chunk a b \<Longrightarrow> same_chunk b c \<Longrightarrow> same_chunk a c"
  by (auto simp: same_chunk_def message_end_def)

lemma same_data_refl [simp]: "same_data od od"
  by (auto simp: same_data_def intro: same_chunk_refl)

lemma same_data_trans: "same_data od od1 \<Longrightarrow> same_data od1 od2 \<Longrightarrow> same_data od od2"
  unfolding same_data_def using same_chunk_trans by fastforce

lemma same_data_keys: "same_data od od' \<Longrightarrow> od_keys od' \<subseteq> od_keys od"
  unfolding same_data_def od_keys_def same_chunk_def by fastforce

lemma same_chunk_size:
  assumes "same_chunk item item'"
  shows "Data_size (it_data item') = Data_size (it_data item) \<or> Data_size (it_data item') = 0"
  using assms by (auto simp: same_chunk_def Data_size_def message_end_def)

lemma same_data_sizes:
  assumes "same_data od od'" "sizes_ok cap od" "unat (RoundUpTo4 (od_data_chunk_header_size od)) \<le> cap"
  shows "sizes_ok cap od'"
  unfolding sizes_ok_def GetSerializedChunkSize_def
proof
  fix item' assume "item' \<in> set (od_outstanding_data od')"
  then obtain item where item: "item \<in> set (od_outstanding_data od)" "same_chunk item item'"
    using assms(1) by (auto simp: same_data_def)
  have h: "od_data_chunk_header_size od' = od_data_chunk_header_size od" using assms(1) by (simp add: same_data_def)
  show "unat (RoundUpTo4 (od_data_chunk_header_size od' + of_nat (Data_size (it_data item')))) \<le> cap"
    using same_chunk_size[OF item(2)] assms(2,3) item(1) unfolding h
    by (auto simp: sizes_ok_def GetSerializedChunkSize_def)
qed

lemma same_data_update:
  assumes "i < length (od_outstanding_data od) \<Longrightarrow> same_chunk (od_outstanding_data od ! i) item"
    and "od_outstanding_data od' = (od_outstanding_data od)[i := item]"
    and "od_data_chunk_header_size od' = od_data_chunk_header_size od"
  shows "same_data od od'"
proof -
  have "\<exists>y \<in> set (od_outstanding_data od). same_chunk y x" if x: "x \<in> set (od_outstanding_data od')" for x
  proof (cases "x \<in> set (od_outstanding_data od)")
    case True
    then show ?thesis by (intro bexI[of _ x]) simp_all
  next
    case False
    then have i: "i < length (od_outstanding_data od)"
      using x unfolding assms(2) by (metis list_update_beyond not_le)
    have "x = item"
      using x False set_update_subset_insert[of "od_outstanding_data od" i item] unfolding assms(2) by blast
    then show ?thesis using assms(1)[OF i] i by (intro bexI[of _ "od_outstanding_data od ! i"]) simp_all
  qed
  then show ?thesis using assms(3) by (simp add: same_data_def)
qed

lemma same_chunk_simps [simp]:
  "same_chunk item (Item_Ack item)" "same_chunk item (Item_MarkAsRetransmitted item)" "same_chunk item (abandon_if other item)"
  "same_chunk item (placeholder item)"
  by (simp_all add: same_chunk_def item_key_def abandon_if_def placeholder_def new_item_def message_end_def
      Item_MarkAsRetransmitted_def)

section \<open>Acknowledging\<close>

lemma AckChunk_same: "AckChunk tsn i (a, od) = Value (a', od') \<Longrightarrow> same_data od od'"
proof (cases "is_acked (od_outstanding_data od ! i)")
  case False
  moreover assume "AckChunk tsn i (a, od) = Value (a', od')"
  ultimately show ?thesis
    by (intro same_data_update[of i od "Item_Ack (od_outstanding_data od ! i)"])
      (auto simp: AckChunk_def Let_def split: if_splits)
qed (simp add: AckChunk_def Let_def)

lemma same_data_tl:
  "od_outstanding_data od' = tl (od_outstanding_data od) \<Longrightarrow> od_data_chunk_header_size od' = od_data_chunk_header_size od
    \<Longrightarrow> same_data od od'"
  by (cases "od_outstanding_data od") (auto simp: same_data_def intro: same_chunk_refl)

lemma RemoveAcked_loop_same: "RemoveAcked_loop cum a od = Value (a', od') \<Longrightarrow> same_data od od'"
proof (induction cum a od arbitrary: a' od' rule: RemoveAcked_loop.induct)
  case (1 cum a od)
  show ?case
  proof (cases "od_outstanding_data od \<noteq> [] \<and> od_last_cumulative_tsn_ack od < cum")
    case True
    then obtain a1 od1 a2 where s: "AckChunk (next_value (od_last_cumulative_tsn_ack od)) 0 (a, od) = Value (a1, od1)"
        "report_lifecycle (hd (od_outstanding_data od1)) a1 = Value a2"
        "RemoveAcked_loop cum a2 (od1\<lparr>od_outstanding_data := tl (od_outstanding_data od1),
             od_last_cumulative_tsn_ack := next_value (od_last_cumulative_tsn_ack od1)\<rparr>) = Value (a', od')"
      using "1.prems" by (subst (asm) RemoveAcked_loop.simps) auto
    from 1(1)[OF True s(1), of a2] s(2,3) have "same_data (od1\<lparr>od_outstanding_data := tl (od_outstanding_data od1),
             od_last_cumulative_tsn_ack := next_value (od_last_cumulative_tsn_ack od1)\<rparr>) od'" by simp
    then have "same_data od1 od'"
      by (rule same_data_trans[rotated]) (rule same_data_tl, simp_all)
    then show ?thesis by (rule same_data_trans[OF AckChunk_same[OF s(1)]])
  next
    case False
    then show ?thesis using "1.prems" by (subst (asm) RemoveAcked_loop.simps) auto
  qed
qed

lemma RemoveAcked_same: "RemoveAcked cum (a, od) = Value (a', od') \<Longrightarrow> same_data od od'"
  by (auto simp: RemoveAcked_def same_data_def dest!: RemoveAcked_loop_same)

lemma ack_in_range_same: "ack_in_range tsn (a, od) = Value (a', od') \<Longrightarrow> same_data od od'"
  by (auto simp: ack_in_range_def dest: AckChunk_same split: if_splits)

lemma fold_outcome_inv:
  assumes "fold_outcome f xs s = Value s'" "P s" "\<And>x s s'. x \<in> set xs \<Longrightarrow> P s \<Longrightarrow> f x s = Value s' \<Longrightarrow> P s'"
  shows "P s'"
  using assms by (induction xs arbitrary: s) auto

lemma AckGapBlocks_same:
  assumes "AckGapBlocks cum bs (a, od) = Value (a', od')"
  shows "same_data od od'"
proof -
  let ?P = "\<lambda>s :: AckInfo \<times> OutstandingData. same_data od (snd s)"
  have "?P (a', od')"
    using assms[unfolded AckGapBlocks_def]
  proof (rule fold_outcome_inv[where P = ?P])
    fix b s s' assume "same_data od (snd s)"
      "fold_outcome ack_in_range [AddTo cum (uint (gab_start b))..AddTo cum (uint (gab_end b))] s = Value s'"
    from this(2,1) show "same_data od (snd s')"
      by (rule fold_outcome_inv[where P = ?P]) (metis ack_in_range_same prod.collapse same_data_trans)
  qed simp
  then show ?thesis by simp
qed

section \<open>Abandoning\<close>

lemma abandon_loop_Value:
  "abandon_loop item tsn items sets = Value (items', sets') \<Longrightarrow> items' = map (abandon_if item) items"
proof (induction item tsn items sets arbitrary: items' sets' rule: abandon_loop.induct)
  case (2 item tsn other others sets)
  have "it_lifecycle other = kAbandoned \<Longrightarrow> abandon_if item other = other"
    by (simp add: abandon_if_def)
  then show ?case
    using 2 by (fastforce simp: Let_def abandon_if_def same_message_def is_abandoned_def Item_Abandon_def split: if_splits)
qed simp

text \<open>What a call that abandons a message did, if it returned.\<close>

lemma AbandonAllFor_Value:
  assumes "AbandonAllFor discard item (od, q) = Value (od', q')"
  shows "q' = snd (discard (fst (item_key item)) (snd (item_key item)) q)"
    and "\<exists>ext. od_outstanding_data od' = map (abandon_if item) (od_outstanding_data od @ ext) \<and> set ext \<subseteq> {placeholder item}"
    and "od_unacked_bytes od' = od_unacked_bytes od" "od_data_chunk_header_size od' = od_data_chunk_header_size od"
    and "od_last_cumulative_tsn_ack od' = od_last_cumulative_tsn_ack od"
proof -
  obtain d q1 where d: "discard (d_stream_id (it_data item)) (it_message_id item) q = (d, q1)" by fastforce
  let ?ext = "if d then [placeholder item] else []"
  have "\<exists>sets. od_outstanding_data od' = map (abandon_if item) (od_outstanding_data od @ ?ext) \<and> q' = q1
      \<and> od_unacked_bytes od' = od_unacked_bytes od \<and> od_data_chunk_header_size od' = od_data_chunk_header_size od
      \<and> od_last_cumulative_tsn_ack od' = od_last_cumulative_tsn_ack od"
    using assms by (auto simp: AbandonAllFor_def d Let_def placeholder_def dest!: abandon_loop_Value split: if_splits)
  then show "q' = snd (discard (fst (item_key item)) (snd (item_key item)) q)"
    "\<exists>ext. od_outstanding_data od' = map (abandon_if item) (od_outstanding_data od @ ext) \<and> set ext \<subseteq> {placeholder item}"
    "od_unacked_bytes od' = od_unacked_bytes od" "od_data_chunk_header_size od' = od_data_chunk_header_size od"
    "od_last_cumulative_tsn_ack od' = od_last_cumulative_tsn_ack od"
    by (auto simp: item_key_def d intro!: exI[of _ ?ext])
qed

lemma AbandonAllFor_same:
  assumes "AbandonAllFor discard item (od, q) = Value (od', q')" "item \<in> set (od_outstanding_data od)"
  shows "same_data od od'"
proof -
  obtain ext where ext: "od_outstanding_data od' = map (abandon_if item) (od_outstanding_data od @ ext)" "set ext \<subseteq> {placeholder item}"
    using AbandonAllFor_Value(2)[OF assms(1)] by blast
  have "\<exists>y \<in> set (od_outstanding_data od). same_chunk y x" if x: "x \<in> set (od_outstanding_data od')" for x
  proof -
    obtain y where y: "x = abandon_if item y" "y \<in> set (od_outstanding_data od) \<or> y = placeholder item"
      using x ext by auto
    then show ?thesis
      using assms(2) same_chunk_trans[OF _ same_chunk_simps(3)] by (metis same_chunk_refl same_chunk_simps(3,4))
  qed
  then show ?thesis
    using AbandonAllFor_Value(4)[OF assms(1)] by (simp add: same_data_def)
qed

lemma AbandonAllFor_live:
  assumes "AbandonAllFor discard item (od, q) = Value (od', q')" "od_live od'"
  shows "\<exists>x \<in> set (od_outstanding_data od). \<not> is_acked x \<and> \<not> is_abandoned x \<and> \<not> same_message item x"
proof -
  obtain ext where ext: "od_outstanding_data od' = map (abandon_if item) (od_outstanding_data od @ ext)" "set ext \<subseteq> {placeholder item}"
    using AbandonAllFor_Value(2)[OF assms(1)] by blast
  then show ?thesis
    using assms(2) by (auto simp: od_live_def abandon_if_def item_states split: if_splits)
qed

section \<open>Chunks that are sent\<close>

lemma GetItem_bound: "GetItem tsn od = Value i \<Longrightarrow> i < length (od_outstanding_data od)"
  by (auto simp: GetItem_def Let_def nat_less_iff)

lemma unat_u64: "unat (x :: u64) < 2 ^ 64"
proof -
  have "unat x < 2 ^ LENGTH(64)" by (rule unsigned_less)
  then show ?thesis by simp
qed

definition chunk_bytes :: "OutstandingData \<Rightarrow> (u32 \<times> Data) list \<Rightarrow> nat" where
  "chunk_bytes od chunks = (\<Sum>(tsn, data)\<leftarrow>chunks. unat (GetSerializedChunkSize od data))"

lemma chunk_bytes_simps [simp]:
  "chunk_bytes od [] = 0" "chunk_bytes od (xs @ ys) = chunk_bytes od xs + chunk_bytes od ys"
  "chunk_bytes od [(tsn, data)] = unat (GetSerializedChunkSize od data)"
  by (simp_all add: chunk_bytes_def)

lemma GetSerializedChunkSize_cong:
  "od_data_chunk_header_size od' = od_data_chunk_header_size od \<Longrightarrow> GetSerializedChunkSize od' = GetSerializedChunkSize od"
  by (simp add: GetSerializedChunkSize_def fun_eq_iff)

definition took :: "u64 \<Rightarrow> OutstandingData \<Rightarrow> (u32 \<times> Data) list \<Rightarrow> OutstandingData \<Rightarrow> bool" where
  "took max_size od extracted od' =
     (same_data od od' \<and> chunk_bytes od extracted \<le> unat max_size
      \<and> od_unacked_bytes od' = od_unacked_bytes od + of_nat (chunk_bytes od extracted)
      \<and> (extracted = [] \<longrightarrow> od_outstanding_data od' = od_outstanding_data od))"

lemma resent_took:
  assumes "i < length (od_outstanding_data od)" "GetSerializedChunkSize od (it_data (od_outstanding_data od ! i)) \<le> max_size"
  shows "took max_size od [(tsn, it_data (od_outstanding_data od ! i))] (resent i od)"
  using assms same_data_update[of i od "Item_MarkAsRetransmitted (od_outstanding_data od ! i)" "resent i od"]
  by (simp add: took_def resent_def Let_def word_le_nat_alt)

lemma took_append:
  assumes "took max_size od e od1" "took (max_size - of_nat (chunk_bytes od e)) od1 e' od2"
  shows "took max_size od (e @ e') od2"
proof -
  have h: "chunk_bytes od1 = chunk_bytes od"
    using assms(1) GetSerializedChunkSize_cong[of od1 od] by (simp add: took_def same_data_def chunk_bytes_def fun_eq_iff)
  have le: "chunk_bytes od e \<le> unat max_size" using assms(1) by (simp add: took_def)
  then have "chunk_bytes od e < 2 ^ 64" using unat_u64[of max_size] by simp
  then have "unat (of_nat (chunk_bytes od e) :: u64) = chunk_bytes od e" by (simp add: unat_of_nat)
  then have "unat (max_size - of_nat (chunk_bytes od e)) = unat max_size - chunk_bytes od e"
    using le by (simp add: unat_sub word_le_nat_alt)
  then show ?thesis
    using assms le same_data_trans by (auto simp: took_def h)
qed

lemma Extract_took:
  "ExtractChunksThatCanFit chunks max_size od = Value (extracted, left, od') \<Longrightarrow> took max_size od extracted od'"
proof (induction chunks arbitrary: max_size od extracted left od')
  case (Cons tsn chunks)
  obtain i where i: "GetItem tsn od = Value i" using Cons.prems by (auto simp: Let_def)
  let ?data = "it_data (od_outstanding_data od ! i)"
  let ?size = "GetSerializedChunkSize od ?data"
  define e where "e = (if ?size \<le> max_size then [(Wrap tsn :: u32, ?data)] else [])"
  define od1 where "od1 = (if ?size \<le> max_size then resent i od else od)"
  have t: "took max_size od e od1"
    using resent_took[OF GetItem_bound[OF i]] by (simp add: took_def e_def od1_def)
  have max: "max_size - of_nat (chunk_bytes od e) = (if ?size \<le> max_size then max_size - ?size else max_size)"
    by (simp add: e_def)
  have "extracted = e \<and> od' = od1
      \<or> (\<exists>e' l'. ExtractChunksThatCanFit chunks (max_size - of_nat (chunk_bytes od e)) od1 = Value (e', l', od') \<and> extracted = e @ e')"
    using Cons.prems unfolding max by (auto simp: i Let_def resent_def e_def od1_def split: if_splits)
  then show ?case
    using t took_append[OF t Cons.IH] by auto
qed (simp add: took_def)

lemma took_cong:
  "took max_size od e od1 \<Longrightarrow> od_outstanding_data od2 = od_outstanding_data od1 \<Longrightarrow> od_unacked_bytes od2 = od_unacked_bytes od1
    \<Longrightarrow> od_data_chunk_header_size od2 = od_data_chunk_header_size od1 \<Longrightarrow> took max_size od e od2"
  by (simp add: took_def same_data_def)

lemma GetChunksToBeRetransmitted_took:
  assumes "GetChunksToBeRetransmitted max_size od = Value (extracted, od')"
  shows "took max_size od extracted od'"
proof -
  obtain left od1 where e: "ExtractChunksThatCanFit (od_to_be_retransmitted od) max_size od = Value (extracted, left, od1)"
      and od': "od' = od1\<lparr>od_to_be_retransmitted := left\<rparr>"
    using assms unfolding GetChunksToBeRetransmitted_def by auto
  show ?thesis by (rule took_cong[OF Extract_took[OF e]]) (simp_all add: od')
qed

lemma GetChunksToBeFastRetransmitted_took:
  assumes "GetChunksToBeFastRetransmitted max_size od = Value (extracted, od')"
  shows "took max_size od extracted od'"
proof -
  obtain left od1 where e: "ExtractChunksThatCanFit (od_to_be_fast_retransmitted od) max_size od = Value (extracted, left, od1)"
      and od': "od' = (if left \<noteq> []
        then od1\<lparr>od_to_be_fast_retransmitted := left, od_to_be_retransmitted := fold sset_insert left
                (od_to_be_retransmitted (od1\<lparr>od_to_be_fast_retransmitted := left\<rparr>)), od_to_be_fast_retransmitted := []\<rparr>
        else od1\<lparr>od_to_be_fast_retransmitted := left\<rparr>)"
    using assms unfolding GetChunksToBeFastRetransmitted_def Let_def by (auto split del: if_split)
  show ?thesis by (rule took_cong[OF Extract_took[OF e]]) (simp_all add: od')
qed

text \<open>A first chunk that fits is taken.\<close>

lemma Extract_some:
  assumes "ExtractChunksThatCanFit (tsn # chunks) max_size od = Value (extracted, left, od')" "sizes_ok (unat max_size) od"
  shows "extracted \<noteq> []"
proof -
  obtain i where i: "GetItem tsn od = Value i" using assms(1) by (auto simp: Let_def)
  have "GetSerializedChunkSize od (it_data (od_outstanding_data od ! i)) \<le> max_size"
    using assms(2) GetItem_bound[OF i] by (simp add: sizes_ok_def word_le_nat_alt)
  then show ?thesis using assms(1) by (auto simp: i Let_def split: if_splits)
qed

lemma GetChunksToBeFastRetransmitted_some:
  assumes "GetChunksToBeFastRetransmitted max_size od = Value (extracted, od')" "od_to_be_fast_retransmitted od \<noteq> []"
    and "sizes_ok (unat max_size) od"
  shows "extracted \<noteq> []"
proof -
  obtain left od1 where "ExtractChunksThatCanFit (od_to_be_fast_retransmitted od) max_size od = Value (extracted, left, od1)"
    using assms(1) unfolding GetChunksToBeFastRetransmitted_def Let_def by (auto split del: if_split)
  moreover obtain tsn chunks where "od_to_be_fast_retransmitted od = tsn # chunks"
    using assms(2) by (cases "od_to_be_fast_retransmitted od") auto
  ultimately show ?thesis using Extract_some[OF _ assms(3)] by metis
qed

lemma OD_Insert_Value:
  assumes "OD_Insert discard mid data t mr ex lc (od, q) = Value (tsn, od', q')"
  shows "od_unacked_bytes od' = od_unacked_bytes od + GetSerializedChunkSize od data"
    and "od_data_chunk_header_size od' = od_data_chunk_header_size od"
    and "tsn = None \<Longrightarrow> od_live od' \<Longrightarrow> od_live od"
    and "sizes_ok cap od \<Longrightarrow> unat (GetSerializedChunkSize od data) \<le> cap
      \<Longrightarrow> unat (RoundUpTo4 (od_data_chunk_header_size od)) \<le> cap \<Longrightarrow> sizes_ok cap od'"
    and "od_keys od' \<subseteq> insert (d_stream_id data, mid) (od_keys od)"
    and "q' = q \<or> q' = snd (discard (d_stream_id data) mid q)"
proof -
  define item where "item = new_item mid data t mr ex lc"
  define od1 where "od1 = od\<lparr>od_unacked_bytes := od_unacked_bytes od + GetSerializedChunkSize od data,
      od_unacked_items := od_unacked_items od + 1, od_outstanding_data := od_outstanding_data od @ [item]\<rparr>"
  have item: "item_key item = (d_stream_id data, mid)" "item \<in> set (od_outstanding_data od1)" "it_data item = data"
    by (simp_all add: item_def od1_def new_item_def item_key_def)
  have cases: "tsn \<noteq> None \<and> od' = od1 \<and> q' = q \<or> tsn = None \<and> AbandonAllFor discard item (od1, q) = Value (od', q')"
    using assms unfolding OD_Insert_def Let_def prod.case item_def[symmetric] od1_def[symmetric] by (auto split: if_splits)
  then have same: "same_data od1 od'" using AbandonAllFor_same[OF _ item(2)] by auto
  have h1: "od_data_chunk_header_size od1 = od_data_chunk_header_size od" by (simp add: od1_def)
  show "od_unacked_bytes od' = od_unacked_bytes od + GetSerializedChunkSize od data"
    using cases AbandonAllFor_Value(3)[of discard item od1 q od' q'] by (auto simp: od1_def)
  show "od_data_chunk_header_size od' = od_data_chunk_header_size od" using same by (simp add: same_data_def h1)
  show "q' = q \<or> q' = snd (discard (d_stream_id data) mid q)"
    using cases AbandonAllFor_Value(1)[of discard item od1 q od' q'] by (auto simp: item(1))
  show "od_keys od' \<subseteq> insert (d_stream_id data, mid) (od_keys od)"
    using same_data_keys[OF same] item(1) by (auto simp: od_keys_def od1_def)
  show "sizes_ok cap od'" if "sizes_ok cap od" "unat (GetSerializedChunkSize od data) \<le> cap"
      "unat (RoundUpTo4 (od_data_chunk_header_size od)) \<le> cap"
    using that item(3) GetSerializedChunkSize_cong[OF h1]
    by (intro same_data_sizes[OF same]) (auto simp: sizes_ok_def h1, auto simp: od1_def)
  show "od_live od" if "tsn = None" "od_live od'"
    using cases that AbandonAllFor_live[of discard item od1 q od' q'] by (auto simp: od_live_def od1_def same_message_def)
qed

section \<open>The state behind the callback\<close>

text \<open>The state changes only by discarding messages of outstanding chunks.\<close>

inductive discards :: "(u16 \<Rightarrow> u32 \<Rightarrow> 'q \<Rightarrow> bool \<times> 'q) \<Rightarrow> (u16 \<times> u32) set \<Rightarrow> 'q \<Rightarrow> 'q \<Rightarrow> bool"
  for discard K where
  none: "discards discard K q q"
| one: "discards discard K q q' \<Longrightarrow> (sid, mid) \<in> K \<Longrightarrow> discards discard K q (snd (discard sid mid q'))"

lemma discards_trans: "discards discard K q' q'' \<Longrightarrow> discards discard K q q' \<Longrightarrow> discards discard K q q''"
  by (induction rule: discards.induct) (auto intro: discards.one)

lemma discards_mono: "discards discard K q q' \<Longrightarrow> K \<subseteq> L \<Longrightarrow> discards discard L q q'"
  by (induction rule: discards.induct) (auto intro: discards.intros)

definition linked_step ::
  "(u16 \<Rightarrow> u32 \<Rightarrow> 'q \<Rightarrow> bool \<times> 'q) \<Rightarrow> OutstandingData \<times> 'q \<Rightarrow> OutstandingData \<times> 'q \<Rightarrow> bool" where
  "linked_step discard s s' = (same_data (fst s) (fst s') \<and> discards discard (od_keys (fst s)) (snd s) (snd s'))"

lemma linked_step_refl [simp]: "linked_step discard s s"
  by (simp add: linked_step_def discards.none)

lemma linked_step_trans:
  "linked_step discard s s1 \<Longrightarrow> linked_step discard s1 s2 \<Longrightarrow> linked_step discard s s2"
  unfolding linked_step_def using discards_trans discards_mono same_data_keys same_data_trans by metis

lemma linked_step_same: "same_data od od' \<Longrightarrow> linked_step discard (od, q) (od', q)"
  by (simp add: linked_step_def discards.none)

lemma AbandonAllFor_step:
  assumes "AbandonAllFor discard item (od, q) = Value (od', q')" "item \<in> set (od_outstanding_data od)"
  shows "linked_step discard (od, q) (od', q')"
proof -
  have "item_key item \<in> od_keys od" using assms(2) by (simp add: od_keys_def)
  then have "discards discard (od_keys od) q q'"
    using AbandonAllFor_Value(1)[OF assms(1)] discards.one[OF discards.none, of "fst (item_key item)" "snd (item_key item)"] by simp
  then show ?thesis using AbandonAllFor_same[OF assms] by (simp add: linked_step_def)
qed

lemma Item_Nack_chunk: "Item_Nack now item = Value (action, item') \<Longrightarrow> same_chunk item item'"
  by (auto simp: Item_Nack_def Let_def Item_Abandon_def same_chunk_def item_key_def split: if_splits)

lemma NackItem_linked:
  assumes "NackItem discard tsn now fast (od, q) = Value (b, od', q')"
  shows "linked_step discard (od, q) (od', q')"
proof -
  obtain i action item where i: "GetItem tsn od = Value i" and n: "Item_Nack now (od_outstanding_data od ! i) = Value (action, item)"
    using assms by (auto simp: NackItem_def Let_def)
  define od2 where "od2 = (if is_outstanding (od_outstanding_data od ! i)
      then od\<lparr>od_unacked_bytes := od_unacked_bytes od - GetSerializedChunkSize od (it_data (od_outstanding_data od ! i)),
              od_unacked_items := od_unacked_items od - 1\<rparr> else od)\<lparr>od_outstanding_data := (od_outstanding_data od)[i := item]\<rparr>"
  have same: "same_data od od2"
    using Item_Nack_chunk[OF n] by (intro same_data_update[of i od item]) (simp_all add: od2_def)
  have "item \<in> set (od_outstanding_data od2)"
    using GetItem_bound[OF i] by (simp add: od2_def set_update_memI)
  moreover have "od' = od2 \<and> q' = q \<or> (\<exists>x. od' = od2\<lparr>od_to_be_fast_retransmitted := x\<rparr> \<and> q' = q)
      \<or> (\<exists>x. od' = od2\<lparr>od_to_be_retransmitted := x\<rparr> \<and> q' = q) \<or> AbandonAllFor discard item (od2, q) = Value (od', q')"
    using assms unfolding NackItem_def prod.case i bind_outcome.simps Let_def n
    by (cases action) (auto simp: od2_def split: if_splits)
  ultimately have "linked_step discard (od2, q) (od', q')"
    by (auto simp: linked_step_def same_data_def discards.none dest: AbandonAllFor_step intro: same_chunk_refl)
  then show ?thesis by (rule linked_step_trans[OF linked_step_same[OF same]])
qed

lemma nack_between_step:
  "nack_between discard fast cur mx tsn (loss, s) = Value (loss', s') \<Longrightarrow> linked_step discard s s'"
proof (induction "nat (cur - tsn)" arbitrary: tsn loss s)
  case 0
  then show ?case by (cases s) (simp add: nack_between.simps[of _ _ _ _ tsn])
next
  case (Suc n)
  obtain od q where s: "s = (od, q)" by fastforce
  show ?case
  proof (cases "tsn < cur \<and> tsn \<le> mx \<and> tsn < next_tsn od")
    case True
    then obtain b s1 where step: "NackItem discard tsn False fast (od, q) = Value (b, s1)"
        "nack_between discard fast cur mx (next_value tsn) (loss \<or> b, s1) = Value (loss', s')"
      using Suc.prems unfolding s by (subst (asm) nack_between.simps) auto
    have "linked_step discard s1 s'" using Suc.hyps(1)[OF _ step(2)] Suc.hyps(2) by (simp add: next_value_def)
    moreover have "linked_step discard s s1" using NackItem_linked[of discard tsn False fast od q b] step(1) s by (cases s1) simp
    ultimately show ?thesis by (rule linked_step_trans[rotated])
  next
    case False
    then show ?thesis using Suc.prems unfolding s by (subst (asm) nack_between.simps) auto
  qed
qed

lemma nack_blocks_step:
  "nack_blocks discard fast cum mx prev bs (loss, s) = Value (loss', s') \<Longrightarrow> linked_step discard s s'"
proof (induction bs arbitrary: prev loss s)
  case (Cons b bs)
  then obtain loss1 s1 where step:
      "nack_between discard fast (AddTo cum (uint (gab_start b))) mx (next_value prev) (loss, s) = Value (loss1, s1)"
      "nack_blocks discard fast cum mx (AddTo cum (uint (gab_end b))) bs (loss1, s1) = Value (loss', s')"
    by auto
  show ?case by (rule linked_step_trans[OF nack_between_step[OF step(1)] Cons.IH[OF step(2)]])
qed simp

lemma OD_HandleSack_step:
  assumes "OD_HandleSack discard cum bs rec (od, q) = Value (a, od', q')"
  shows "linked_step discard (od, q) (od', q')"
proof -
  obtain a1 od1 a2 od2 loss where s: "RemoveAcked cum (new_ack_info cum, od) = Value (a1, od1)"
      "AckGapBlocks cum bs (a1, od1) = Value (a2, od2)"
      "\<exists>fast mx loss0. nack_blocks discard fast cum mx cum bs (loss0, od2, q) = Value (loss, od', q')"
    using assms by (fastforce simp: OD_HandleSack_def NackBetweenAckBlocks_def Let_def)
  have "same_data od od2" by (rule same_data_trans[OF RemoveAcked_same[OF s(1)] AckGapBlocks_same[OF s(2)]])
  moreover have "linked_step discard (od2, q) (od', q')" using s(3) nack_blocks_step by blast
  ultimately show ?thesis by (rule linked_step_trans[OF linked_step_same])
qed

lemma expire_loop_step:
  "expire_loop discard now idx s = Value s' \<Longrightarrow> (\<forall>i \<in> set idx. i < length (od_outstanding_data (fst s)))
    \<Longrightarrow> linked_step discard s s' \<and> (od_live (fst s') \<longrightarrow> od_live (fst s))"
proof (induction idx arbitrary: s)
  case (Cons i idx)
  obtain od q where s: "s = (od, q)" by fastforce
  let ?item = "od_outstanding_data od ! i"
  show ?case
  proof (cases "\<not> is_abandoned ?item \<and> is_nacked ?item \<and> has_expired now ?item")
    case True
    then obtain od1 q1 where a: "AbandonAllFor discard ?item (od, q) = Value (od1, q1)"
        "expire_loop discard now idx (od1, q1) = Value s'"
      using Cons.prems(1) by (auto simp: s Let_def)
    have "length (od_outstanding_data od) \<le> length (od_outstanding_data od1)"
      using AbandonAllFor_Value(2)[OF a(1)] by auto
    then have "\<forall>j \<in> set idx. j < length (od_outstanding_data od1)" using Cons.prems(2) by (auto simp: s)
    then have "linked_step discard (od1, q1) s'" "od_live (fst s') \<longrightarrow> od_live od1"
      using Cons.IH[OF a(2)] by simp_all
    moreover have "linked_step discard (od, q) (od1, q1)"
      using Cons.prems(2) by (intro AbandonAllFor_step[OF a(1)]) (simp add: s)
    moreover have "od_live od1 \<longrightarrow> od_live od" using AbandonAllFor_live[OF a(1)] by (auto simp: od_live_def)
    ultimately show ?thesis using s linked_step_trans[of discard "(od, q)" "(od1, q1)" s'] by simp
  next
    case False
    then show ?thesis using Cons by (cases "is_abandoned ?item") (auto simp: s Let_def)
  qed
qed simp

lemma ExpireOutstandingChunks_step:
  assumes "ExpireOutstandingChunks discard now (od, q) = Value (od', q')"
  shows "linked_step discard (od, q) (od', q')" "od_live od' \<Longrightarrow> od_live od"
  using assms expire_loop_step[of discard now "[0..<length (od_outstanding_data od)]" "(od, q)" "(od', q')"]
  by (auto simp: ExpireOutstandingChunks_def)

lemma NackAll_step:
  assumes "NackAll discard (od, q) = Value (od', q')"
  shows "linked_step discard (od, q) (od', q')"
proof -
  obtain tsns where "fold_outcome (\<lambda>tsn s. bind_outcome (NackItem discard tsn True False s) (\<lambda>(nacked, s'). Value s')) tsns (od, q)
      = Value (od', q')"
    using assms by (auto simp: NackAll_def Let_def)
  then show ?thesis
    by (rule fold_outcome_inv[where P = "linked_step discard (od, q)"])
      (auto intro: linked_step_trans NackItem_linked)
qed

end
