(* ===== verification/Send_Queue_Tracking.thy ===== *)
theory Send_Queue_Tracking
  imports Send_Queue_Runs
begin

text \<open>
  What the sender of chunks relies on: the chunks of a message agree on whether it is reliable, and a
  message of which a chunk has been sent is either partly sent or gone from the queue.  Both follow
  from the labels of the queued messages, which no operation changes.
\<close>

section \<open>Labels\<close>

definition track_items :: "QueuedItem list \<Rightarrow> (u32 \<times> MessageAttributes \<times> bool) list" where
  "track_items items = map (\<lambda>i. (qi_message_id i, qi_attributes i, begun i)) items"

abbreviation track :: "OutgoingStreams \<Rightarrow> u16 \<Rightarrow> (u32 \<times> MessageAttributes \<times> bool) list" where
  "track p sid \<equiv> track_items (og_items (out_stream p sid))"

definition reliable_attributes :: "MessageAttributes \<Rightarrow> bool" where
  "reliable_attributes a = (ma_expires_at a = PlusInfinity \<and> ma_max_retransmissions a = NoLimit)"

text \<open>No message of the stream with this identifier is still wholly unsent.\<close>

definition sent :: "OutgoingStreams \<Rightarrow> u16 \<Rightarrow> u32 \<Rightarrow> bool" where
  "sent p sid mid = (\<forall>a b. (mid, a, b) \<in> set (track p sid) \<longrightarrow> b)"

definition tracked :: "(u16 \<Rightarrow> u32 \<Rightarrow> bool) \<Rightarrow> (u16 \<times> u32) set \<Rightarrow> OutgoingStreams \<Rightarrow> bool" where
  "tracked R S p =
     ((\<forall>sid. distinct (map fst (track p sid)))
      \<and> (\<forall>sid m a b. (m, a, b) \<in> set (track p sid) \<longrightarrow> R sid m = reliable_attributes a)
      \<and> (\<forall>sid m. (sid, m) \<in> S \<longrightarrow> sent p sid m))"

text \<open>How the labels of a stream change: messages go, and are begun, but are neither added nor relabelled.\<close>

definition later :: "(u32 \<times> MessageAttributes \<times> bool) list \<Rightarrow> (u32 \<times> MessageAttributes \<times> bool) list \<Rightarrow> bool" where
  "later xs ys =
     ((\<forall>m a b'. (m, a, b') \<in> set ys \<longrightarrow> (\<exists>b. (m, a, b) \<in> set xs \<and> (b \<longrightarrow> b'))) \<and> (distinct (map fst xs) \<longrightarrow> distinct (map fst ys)))"

lemma later_refl [simp]: "later xs xs"
  by (auto simp: later_def)

lemma later_trans: "later xs ys \<Longrightarrow> later ys zs \<Longrightarrow> later xs zs"
  unfolding later_def by blast

lemma later_sub: "set ys \<subseteq> set xs \<Longrightarrow> (distinct (map fst xs) \<Longrightarrow> distinct (map fst ys)) \<Longrightarrow> later xs ys"
  by (auto simp: later_def)

lemma later_take: "later xs (take k xs)"
  by (rule later_sub) (simp_all add: set_take_subset flip: take_map)

lemma later_drop: "later xs (drop k xs)"
  by (rule later_sub) (simp_all add: set_drop_subset flip: drop_map)

lemma later_tl: "later xs (tl xs)"
  using later_drop[of xs 1] by (simp add: drop_Suc)

lemma tracked_later:
  assumes "tracked R S p" "\<And>sid. later (track p sid) (track p' sid)"
  shows "tracked R S p'"
proof -
  have old: "\<exists>b. (m, a, b) \<in> set (track p sid) \<and> (b \<longrightarrow> b')" if "(m, a, b') \<in> set (track p' sid)" for m a b' sid
    using assms(2)[of sid] that unfolding later_def by blast
  have "sent p' sid m" if "sent p sid m" for sid m
    using that old unfolding sent_def by blast
  moreover have "distinct (map fst (track p' sid))" for sid
    using assms(1) assms(2)[of sid] by (simp add: tracked_def later_def)
  moreover have "R sid m = reliable_attributes a" if "(m, a, b') \<in> set (track p' sid)" for sid m a b'
    using assms(1) old[OF that] unfolding tracked_def by blast
  ultimately show ?thesis
    using assms(1) unfolding tracked_def by blast
qed

lemma sent_later:
  assumes "sent p sid m" "later (track p sid) (track p' sid)"
  shows "sent p' sid m"
  using assms unfolding sent_def later_def by blast

section \<open>Producing\<close>

definition labelled :: "(u16 \<Rightarrow> u32 \<Rightarrow> bool) \<Rightarrow> DataToSend \<Rightarrow> OutgoingStreams \<Rightarrow> bool" where
  "labelled R d p =
     (R (d_stream_id (ds_data d)) (ds_message_id d) = (ds_expires_at d = PlusInfinity \<and> ds_max_retransmissions d = NoLimit)
      \<and> sent p (d_stream_id (ds_data d)) (ds_message_id d))"

lemma track_dropWhile: "later (track_items items) (track_items (dropWhile P items))"
  using later_drop[of "track_items items" "length (takeWhile P items)"]
  by (simp add: track_items_def dropWhile_eq_drop drop_map)

lemma track_next_stream:
  assumes "items_ok sid (item # rest)" "0 < max_size"
  shows "later (track_items (item # rest)) (track_items (og_items (next_stream max_size item rest s)))"
proof -
  obtain i s' where i: "allocate_numbers item s = (i, s')" by fastforce
  note frame = allocate_numbers_frame[OF i]
  have "later (x # xs) xs" for x :: "u32 \<times> MessageAttributes \<times> bool" and xs using later_tl[of "x # xs"] by simp
  moreover have "begun (next_item max_size item s)" if "max_size < qi_remaining_size item"
    using assms that by (intro next_item_begun(2)) (auto simp: items_ok_Cons)
  ultimately show ?thesis
    using frame by (auto simp: next_stream_def track_items_def next_item_def i Let_def later_def)
qed

lemma next_chunk_label:
  "ds_message_id (next_chunk max_size item s) = qi_message_id item"
  "ds_expires_at (next_chunk max_size item s) = ma_expires_at (qi_attributes item)"
  "ds_max_retransmissions (next_chunk max_size item s) = ma_max_retransmissions (qi_attributes item)"
proof -
  obtain i s' where i: "allocate_numbers item s = (i, s')" by fastforce
  show "ds_message_id (next_chunk max_size item s) = qi_message_id item"
    "ds_expires_at (next_chunk max_size item s) = ma_expires_at (qi_attributes item)"
    "ds_max_retransmissions (next_chunk max_size item s) = ma_max_retransmissions (qi_attributes item)"
    using allocate_numbers_frame[OF i] by (simp_all add: next_chunk_def i Let_def)
qed

lemma next_stream_sent:
  assumes "items_ok sid (item # rest)" "0 < max_size" "distinct (map qi_message_id (item # rest))"
    and "(qi_message_id item, a, b) \<in> set (track_items (og_items (next_stream max_size item rest s)))"
  shows b
proof -
  have "begun (next_item max_size item s)" if "max_size < qi_remaining_size item"
    using assms that by (intro next_item_begun(2)) (auto simp: items_ok_Cons)
  then show ?thesis
    using assms(3,4) by (auto simp: next_stream_def track_items_def Let_def split: if_splits)
qed

lemma OS_Produce_tracked:
  assumes p: "out_inv p" "0 < next_bytes sid p" "0 < max_size" and t: "tracked R S p"
  shows "returns (OS_Produce sid now max_size p) (\<lambda>(data, p'). tracked R S p'
    \<and> (case data of None \<Rightarrow> True | Some d \<Rightarrow> labelled R d p'))"
proof -
  let ?items = "og_items (out_stream p sid)"
  have inv: "items_ok sid ?items" using p(1) by (simp add: out_inv_def os_inv_def)
  have "returns (OS_Produce sid now max_size p) (produced_ok sid now max_size p)"
    using p next_bytes_pause[OF p(2)] by (intro OS_Produce_returns) simp_all
  then show ?thesis
  proof (rule returns_mono, clarify, goal_cases)
    case (1 data p')
    then have other: "\<And>sid'. sid' \<noteq> sid \<Longrightarrow> out_stream p' sid' = out_stream p sid'" by (simp add: produced_ok_def Let_def)
    have tr: "tracked R S p'" if "later (track p sid) (track p' sid)"
    proof (rule tracked_later[OF t])
      fix x show "later (track p x) (track p' x)" using that other[of x] by (cases "x = sid") simp_all
    qed
    show ?case
    proof (cases "dropWhile (overdue now) ?items")
      case Nil
      then have "later (track p sid) (track p' sid)" "data = None"
        using 1(2) by (simp_all add: produced_ok_def Let_def track_items_def later_def del: dropWhile_eq_Nil_conv)
      then show ?thesis using tr by simp
    next
      case (Cons item rest)
      then have ok: "items_ok sid (item # rest)" using items_ok_dropWhile[OF inv, of "overdue now"] by simp
      let ?w = "without_overdue now ?items (out_stream p sid)"
      have d: "data = Some (next_chunk max_size item ?w)" "out_stream p' sid = next_stream max_size item rest ?w"
        using 1(2) Cons by (simp_all add: produced_ok_def Let_def)
      have lab: "later (track p sid) (track_items (item # rest))"
        using track_dropWhile[of ?items "overdue now"] Cons by simp
      have "later (track p sid) (track p' sid)"
        using later_trans[OF lab track_next_stream[OF ok p(3)]] d(2) by simp
      moreover have "distinct (map fst (track_items (item # rest)))"
        using lab t unfolding later_def tracked_def by blast
      then have "distinct (map qi_message_id (item # rest))" by (simp add: track_items_def comp_def)
      then have "sent p' sid (qi_message_id item)"
        using next_stream_sent[OF ok p(3)] unfolding sent_def d(2) by blast
      moreover have "R sid (qi_message_id item) = reliable_attributes (qi_attributes item)"
      proof -
        have "(qi_message_id item, qi_attributes item, begun item) \<in> set (track_items (item # rest))"
          by (simp add: track_items_def)
        then obtain b where "(qi_message_id item, qi_attributes item, b) \<in> set (track p sid)"
          using lab unfolding later_def by blast
        then show ?thesis using t unfolding tracked_def by blast
      qed
      ultimately show ?thesis
        using tr d(1) next_chunk_end(1)[OF ok p(3)] by (simp add: labelled_def next_chunk_label reliable_attributes_def)
    qed
  qed
qed

interpretation tracked: stream_producer OS_Produce "\<lambda>sid p. bytes_to_send_in_next_message (out_stream p sid)"
  "\<lambda>p. out_inv p \<and> tracked R S p" partly_sent "\<lambda>max_size d p. chunk_fits max_size d \<and> labelled R d p" for R S
proof (unfold_locales, goal_cases)
  case (1 p sid max_size now)
  then have p: "out_inv p" "0 < next_bytes sid p" "0 < max_size" "tracked R S p" by simp_all
  show ?case
    by (rule returns_mono[OF returns_conj[OF out.produce_law[OF p(1-3)] OS_Produce_tracked[OF p]]])
      (auto split: option.splits)
next
  case (2 p sid)
  then show ?case by (auto intro: out.continuing_law)
qed

lemma SQ_Produce_tracked:
  assumes "sq_inv q" "tracked R S (sq_out q)" "0 < max_size"
  shows "returns (SQ_Produce now max_size q) (\<lambda>(data, q'). sq_inv q' \<and> tracked R S (sq_out q')
    \<and> (case data of None \<Rightarrow> True | Some d \<Rightarrow> chunk_fits max_size d \<and> labelled R d (sq_out q'))
    \<and> sq_current_message_id q' = sq_current_message_id q)"
proof -
  have "tracked.sched_ok R S (sq_scheduler q) (sq_out q)"
    using assms(1,2) by (auto simp: sq_inv_sched out.sched_ok_def tracked.sched_ok_def)
  from tracked.Scheduler_Produce_returns[OF this assms(3), of now] show ?thesis
    unfolding SQ_Produce_def
    by (simp, elim returns_mono) (auto simp: sq_inv_sched out.sched_ok_def tracked.sched_ok_def split: option.splits)
qed

section \<open>The other operations\<close>

abbreviation queue_later :: "RRSendQueue \<Rightarrow> RRSendQueue \<Rightarrow> bool" where
  "queue_later q q' \<equiv> (\<forall>sid. later (track (sq_out q) sid) (track (sq_out q') sid))"

lemma changed_later:
  assumes "changed sid q q'" "later (track (sq_out q) sid) (track (sq_out q') sid)"
  shows "queue_later q q'"
proof
  fix x show "later (track (sq_out q) x) (track (sq_out q') x)"
    using assms by (cases "x = sid") (simp_all add: changed_def)
qed

lemma queue_later_trans: "queue_later q q' \<Longrightarrow> queue_later q' q'' \<Longrightarrow> queue_later q q''"
  using later_trans by blast

lemma GetOrCreate_track: "sq_core q \<Longrightarrow> track (sq_out (GetOrCreateStreamInfo sid q)) x = track (sq_out q) x"
  using GetOrCreate_core(2)[of q sid x] by simp

lemma sent_discard_ok: "sent (sq_out q) sid mid \<Longrightarrow> discard_ok mid (queue_stream q sid)"
  by (cases "og_items (queue_stream q sid)") (fastforce simp: sent_def discard_ok_def track_items_def)+

lemma SQ_Discard_later:
  assumes inv: "sq_inv q" and s: "sent (sq_out q) sid mid"
  shows "returns (SQ_Discard sid mid q) (\<lambda>(b, q'). sq_inv q' \<and> queue_later q q')"
proof -
  let ?q = "GetOrCreateStreamInfo sid q"
  have core: "sq_core q" "sq_core ?q" using inv GetOrCreate_inv[OF inv] by (auto simp: sq_inv_def)
  note tr = GetOrCreate_track[OF core(1), of sid]
  have "returns (OS_Discard sid mid ?q) (\<lambda>(b, q'). sq_core q' \<and> queue_later q q')"
  proof (rule returns_mono[OF OS_Discard_returns[OF core(2)]], goal_cases)
    case 1
    show ?case using sent_discard_ok[OF s] GetOrCreate_core(2)[OF core(1), of sid sid] by simp
  next
    case (2 r)
    obtain b q' where r: "r = (b, q')" by fastforce
    show ?case
    proof (cases b)
      case True
      then have ch: "changed sid (?q\<lparr>sq_scheduler := ForceReschedule (sq_scheduler ?q)\<rparr>) q'"
          "og_items (queue_stream q' sid) = tl (og_items (queue_stream ?q sid))"
        using 2(2) r by simp_all
      have "later (track (sq_out ?q) sid) (track (sq_out q') sid)"
        using later_tl[of "track (sq_out ?q) sid"] by (simp add: ch(2) track_items_def map_tl)
      then have "queue_later q q'" using changed_later[OF ch(1)] by (simp add: tr)
      then show ?thesis using ch(1) r by (simp add: changed_def)
    qed (use 2(2) r tr core in auto)
  qed
  then have "returns (SQ_Discard sid mid q) (\<lambda>(b, q'). queue_later q q')"
    unfolding SQ_Discard_def by (simp, elim returns_mono) auto
  from returns_conj[OF SQ_Discard_returns[OF inv sent_discard_ok[OF s]] this] show ?thesis
    by (rule returns_mono) auto
qed

lemma PrepareResetStream_later:
  assumes inv: "sq_inv q"
  shows "returns (PrepareResetStream sid q) (\<lambda>q'. sq_inv q' \<and> queue_later q q')"
proof -
  let ?q = "GetOrCreateStreamInfo sid q"
  have core: "sq_core q" "sq_core ?q" using inv GetOrCreate_inv[OF inv] by (auto simp: sq_inv_def)
  note tr = GetOrCreate_track[OF core(1), of sid]
  have "returns (OS_Pause sid ?q) (\<lambda>q'. sq_core q' \<and> queue_later q q')"
  proof (rule returns_mono[OF OS_Pause_returns[OF core(2)]], goal_cases)
    case (1 q')
    then obtain k where ch: "changed sid ?q q'" "og_items (queue_stream q' sid) = take k (og_items (queue_stream ?q sid))" by blast
    have "later (track (sq_out ?q) sid) (track (sq_out q') sid)"
      using later_take[of "track (sq_out ?q) sid" k] by (simp add: ch(2) track_items_def take_map)
    then show ?case using changed_later[OF ch(1)] ch(1) by (simp add: tr changed_def)
  qed
  then have "returns (PrepareResetStream sid q) (queue_later q)"
    unfolding PrepareResetStream_def by (simp, elim returns_mono) auto
  from returns_conj[OF PrepareResetStream_returns[OF inv, of sid] this] show ?thesis
    by (rule returns_mono) auto
qed

lemma GetStreamsReadyToBeReset_later:
  assumes inv: "sq_inv q" and none: "\<not> some_resetting q"
  shows "returns (GetStreamsReadyToBeReset q) (\<lambda>(ready, q'). sq_inv q' \<and> queue_later q q')"
proof -
  have "queue_stream q' sid = resetting_of (queue_stream q sid)"
    if "GetStreamsReadyToBeReset q = Value (ready, q')" for ready q' sid
    using that none out_stream_map[of resetting_of "sq_out q" sid]
    by (auto simp: GetStreamsReadyToBeReset_def mark_resetting_eq some_resetting_def resetting_of_def IsReadyToBeReset_def)
  then show ?thesis
    by (intro returns_mono[OF GetStreamsReadyToBeReset_returns[OF inv none[unfolded some_resetting_def]]])
      (auto simp: resetting_of_def)
qed

lemma for_each_resetting_later:
  assumes inv: "sq_inv q" and some: "some_resetting q"
    and f: "\<And>sid q. sq_core q \<Longrightarrow> IsResetting (queue_stream q sid) \<Longrightarrow>
      returns (f sid q) (\<lambda>q'. changed sid q q' \<and> later (track (sq_out q) sid) (track (sq_out q') sid))"
  shows "returns (for_each_resetting f q) (\<lambda>q'. sq_inv q' \<and> queue_later q q')"
proof -
  have "returns (fold_outcome (\<lambda>sid q. if IsResetting (queue_stream q sid) then f sid q else Value q)
      (map fst (ob_streams (sq_out q))) q) (\<lambda>q'. sq_core q' \<and> queue_later q q')"
  proof (rule fold_outcome_returns)
    show "sq_core q \<and> queue_later q q" using inv by (simp add: sq_inv_def)
    fix sid q' assume q': "sq_core q' \<and> queue_later q q'"
    show "returns (if IsResetting (queue_stream q' sid) then f sid q' else Value q') (\<lambda>q''. sq_core q'' \<and> queue_later q q'')"
    proof (cases "IsResetting (queue_stream q' sid)")
      case True
      then have "returns (f sid q') (\<lambda>q''. sq_core q'' \<and> queue_later q q'')"
      proof (intro returns_mono[OF f])
        fix q'' assume "changed sid q' q'' \<and> later (track (sq_out q') sid) (track (sq_out q'') sid)"
        then show "sq_core q'' \<and> queue_later q q''"
          using queue_later_trans[of q q' q''] changed_later[of sid q' q''] q' by (simp add: changed_def)
      qed (use q' in simp)
      then show ?thesis using True by simp
    qed (use q' in simp)
  qed
  then have "returns (for_each_resetting f q) (queue_later q)"
    using some unfolding for_each_resetting_def some_resetting_def by (simp, elim returns_mono) auto
  moreover have "returns (for_each_resetting f q) sq_inv"
    using some f by (intro for_each_resetting_returns[OF inv]) (auto simp: some_resetting_def intro: returns_mono)
  ultimately show ?thesis by (rule returns_conj[rotated])
qed

lemma track_unbegun:
  assumes "items_ok sid items" "\<not> begun_items items"
  shows "track_items items = map (\<lambda>l. (fst l, snd l, False)) (map item_label items)"
proof -
  have "\<not> begun i" if "i \<in> set items" for i
    using assms that by (cases items) (auto simp: items_ok_Cons begun_items_def unsent_def begun_def)
  then show ?thesis by (simp add: track_items_def item_label_def)
qed

lemma CommitResetStreams_later:
  assumes "sq_inv q" "some_resetting q"
  shows "returns (CommitResetStreams q) (\<lambda>q'. sq_inv q' \<and> queue_later q q')"
  unfolding CommitResetStreams_def
proof (rule for_each_resetting_later[OF assms])
  fix sid q assume q: "sq_core q" "IsResetting (queue_stream q sid)"
  have ok: "items_ok sid (og_items (queue_stream q sid))" "\<not> begun_items (og_items (queue_stream q sid))"
    using sq_coreD(3)[OF q(1), of sid] q(2) by (simp_all add: os_inv_def IsResetting_def)
  show "returns (OS_Reset sid q) (\<lambda>q'. changed sid q q' \<and> later (track (sq_out q) sid) (track (sq_out q') sid))"
  proof (rule returns_mono[OF OS_Reset_returns[OF q(1)]], goal_cases)
    case (1 q')
    then have ok': "items_ok sid (og_items (queue_stream q' sid))"
      using sq_coreD(3)[of q' sid] by (simp add: changed_def os_inv_def)
    show ?case using 1 by (simp add: track_unbegun[OF ok] track_unbegun[OF ok'] del: map_map)
  qed
qed

lemma RollbackResetStreams_later:
  assumes "sq_inv q" "some_resetting q"
  shows "returns (RollbackResetStreams q) (\<lambda>q'. sq_inv q' \<and> queue_later q q')"
  unfolding RollbackResetStreams_def
  by (rule for_each_resetting_later[OF assms]) (auto intro!: returns_mono[OF OS_Resume_returns])

text \<open>A new message must have an identifier that no other message of its stream has.\<close>

lemma SQ_Add_tracked:
  assumes inv: "sq_inv q" and m: "msg_payload message \<noteq> []" and sid: "sid = msg_stream_id message"
    and t: "tracked R S (sq_out q)" and fresh: "(sid, sq_current_message_id q) \<notin> S" "sq_current_message_id q \<notin> fst ` set (track (sq_out q) sid)"
  shows "returns (SQ_Add now message options q) (\<lambda>q'. sq_inv q'
    \<and> (\<exists>r. tracked (R(sid := (R sid)(sq_current_message_id q := r))) S (sq_out q')))"
proof -
  let ?q = "GetOrCreateStreamInfo sid q" and ?id = "sq_current_message_id q"
  have core: "sq_core q" "sq_core ?q" using inv GetOrCreate_inv[OF inv] by (auto simp: sq_inv_def)
  note tr = GetOrCreate_track[OF core(1), of sid]
  have id: "sq_current_message_id ?q = ?id" by (simp add: GetOrCreateStreamInfo_def)
  have fin: "tracked (R(sid := (R sid)(?id := reliable_attributes attr))) S (sq_out q')"
    if "track (sq_out q') sid = track (sq_out q) sid @ [(?id, attr, False)]"
      "\<And>x. x \<noteq> sid \<Longrightarrow> track (sq_out q') x = track (sq_out q) x" for q' attr
  proof -
    have new: "(m, a, b) \<in> set (track (sq_out q') x) \<longleftrightarrow>
        (m, a, b) \<in> set (track (sq_out q) x) \<or> x = sid \<and> m = ?id \<and> a = attr \<and> \<not> b" for x m a b
      using that by (cases "x = sid") auto
    have "m \<noteq> ?id" if "(m, a, b) \<in> set (track (sq_out q) sid)" for m a b
      using fresh(2) that by force
    moreover have "distinct (map fst (track (sq_out q') x))" for x
      using t fresh(2) that(1) that(2)[of x] by (cases "x = sid") (auto simp: tracked_def)
    moreover have "sent (sq_out q') x m" if "(x, m) \<in> S" for x m
      using t fresh(1) that unfolding tracked_def sent_def new by blast
    moreover have "R x m = reliable_attributes a" if "(m, a, b) \<in> set (track (sq_out q) x)" for x m a b
      using t that unfolding tracked_def by blast
    ultimately show ?thesis
      unfolding tracked_def new by auto
  qed
  have "returns (bind_outcome (OS_Add message attributes ?q) checked)
      (\<lambda>q'. \<exists>r. tracked (R(sid := (R sid)(?id := r))) S (sq_out q'))" for attributes
  proof -
    have "\<exists>r. tracked (R(sid := (R sid)(?id := r))) S (sq_out q')"
      if "changed sid ?q q'" "og_items (queue_stream q' sid) = og_items (queue_stream ?q sid) @ [new_queued_item ?id message attributes]" for q'
    proof -
      have "track (sq_out q') sid = track (sq_out q) sid @ [(?id, attributes, False)]"
        using that(2) by (simp add: tr[symmetric]) (simp add: track_items_def new_queued_item_def begun_def)
      moreover have "track (sq_out q') x = track (sq_out q) x" if "x \<noteq> sid" for x
        using \<open>changed sid ?q q'\<close> that tr[of x] by (simp add: changed_def)
      ultimately show ?thesis using fin by blast
    qed
    then have "returns (OS_Add message attributes ?q) (\<lambda>q'. sq_core q' \<and> (\<exists>r. tracked (R(sid := (R sid)(?id := r))) S (sq_out q')))"
      by (intro returns_mono[OF OS_Add_returns[OF core(2) m sid]]) (auto simp: id changed_def)
    then show ?thesis by (simp, elim returns_mono) auto
  qed
  then have "returns (SQ_Add now message options q) (\<lambda>q'. \<exists>r. tracked (R(sid := (R sid)(?id := r))) S (sq_out q'))"
    using m sid by (simp add: SQ_Add_def Let_def)
  with SQ_Add_returns[OF inv m] show ?thesis by (rule returns_conj)
qed

end
