(* ===== verification/Transmission.thy ===== *)
theory Transmission
  imports Retransmission_Queue Outstanding_Links Send_Queue_Tracking
begin

text \<open>
  The transmission path as a whole: the retransmission queue over the interface of the send queue,
  and that interface implemented by the modelled send queue.  The invariant links the outstanding
  chunks with the queued messages and with the retransmission timer.
\<close>

section \<open>Sizes\<close>

lemma IsDivisibleBy4_iff: "IsDivisibleBy4 (x :: u64) \<longleftrightarrow> unat x mod 4 = 0"
proof -
  have "(3 :: u64) = mask 2" by (simp add: mask_eq_exp_minus_1)
  then have "x AND 3 = take_bit 2 x" by (simp add: take_bit_eq_mask)
  then have "unat (x AND 3) = unat x mod 4" by (simp add: take_bit_eq_mod unat_mod)
  then show ?thesis by (metis IsDivisibleBy4_def unsigned_0 unsigned_word_eqI)
qed

lemma unat_RoundDownTo4: "unat (RoundDownTo4 (x :: u64)) = unat x div 4 * 4"
  unfolding RoundDownTo4_def by (rule unat_and_not_3)

lemma unat_diff: "y \<le> x \<Longrightarrow> unat (x - y :: u64) = unat x - unat y"
  by (rule unat_sub) simp

text \<open>A chunk that fits into what is left of a packet takes a multiple of four bytes of it.\<close>

lemma chunk_size_fits:
  fixes header max_bytes :: u64
  assumes "unat max_bytes mod 4 = 0" "header < max_bytes" "n \<le> unat (max_bytes - header)" "unat max_bytes < 2 ^ 32"
  shows "unat (RoundUpTo4 (header + of_nat n)) = round4 (unat header + n)" "round4 (unat header + n) \<le> unat max_bytes"
proof -
  have n: "n \<le> unat max_bytes - unat header" using assms(2,3) by (simp add: unat_diff)
  have h: "unat header < unat max_bytes" using assms(2) by (simp add: word_less_nat_alt)
  have "header + of_nat n = of_nat (unat header + n)" by simp
  then show "unat (RoundUpTo4 (header + of_nat n)) = round4 (unat header + n)"
    using RoundUpTo4_u64[of "unat header + n"] n h assms(4) by (simp del: of_nat_add)
  show "round4 (unat header + n) \<le> unat max_bytes"
    using n h assms(1) unfolding round4_def by presburger
qed

lemma accumulate_sizes_eq:
  assumes "(\<Sum>(tsn, data)\<leftarrow>chunks. unat (Tx_GetSerializedChunkSize rq data)) < 2 ^ 31"
  shows "accumulate_sizes rq chunks = of_nat (\<Sum>(tsn, data)\<leftarrow>chunks. unat (Tx_GetSerializedChunkSize rq data))"
proof -
  let ?f = "\<lambda>(tsn :: u32, data) (r :: u32). ucast ((scast r :: u64) + Tx_GetSerializedChunkSize rq data) :: u32"
  have small: "(scast (of_nat n :: u32) :: u64) = of_nat n" if "n < 2 ^ 31" for n
    using that by (simp add: signed_of_nat signed_take_bit_int_eq_self)
  have "k + (\<Sum>(tsn, data)\<leftarrow>chunks. unat (Tx_GetSerializedChunkSize rq data)) < 2 ^ 31 \<Longrightarrow>
      fold ?f chunks (of_nat k) = of_nat (k + (\<Sum>(tsn, data)\<leftarrow>chunks. unat (Tx_GetSerializedChunkSize rq data)))" for k
  proof (induction chunks arbitrary: k)
    case (Cons c chunks)
    obtain tsn data where c: "c = (tsn, data)" by fastforce
    let ?s = "unat (Tx_GetSerializedChunkSize rq data)"
    have "k < 2 ^ 31" using Cons.prems by simp
    from small[OF this] have "?f c (of_nat k) = ucast (of_nat (k + ?s) :: u64)"
      unfolding c prod.case by simp
    also have "\<dots> = of_nat (k + ?s)"
    proof -
      have "k + ?s < 2 ^ LENGTH(64)" using Cons.prems by (simp add: c)
      then show ?thesis by (simp only: unsigned_of_nat take_bit_nat_eq_self)
    qed
    finally show ?case using Cons.IH[of "k + ?s"] Cons.prems by (simp add: c add.assoc)
  qed simp
  from this[of 0] show ?thesis
    using assms small by (simp add: accumulate_sizes_def)
qed

lemma unat_min_le: "unat (min a b :: u64) \<le> unat a" "unat (min a b :: u64) \<le> unat b"
  by (simp_all add: min_def word_le_nat_alt)

text \<open>What may be sent never takes the bytes in flight past the congestion window.\<close>

lemma window_bound:
  assumes "n \<le> unat (max_bytes_to_send rq)"
  shows "unat (tx_unacked_bytes rq + of_nat n) \<le> max (unat (tx_unacked_bytes rq)) (unat (tx_cwnd rq))"
proof (cases "tx_cwnd rq \<le> tx_unacked_bytes rq")
  case True
  then have "max_bytes_to_send rq = 0" by (simp add: max_bytes_to_send_def min_def)
  then have "n = 0" using assms by simp
  then show ?thesis by simp
next
  case False
  then have "max_bytes_to_send rq \<le> tx_cwnd rq - tx_unacked_bytes rq" by (simp add: max_bytes_to_send_def Let_def)
  then have n: "n \<le> unat (tx_cwnd rq) - unat (tx_unacked_bytes rq)"
    using assms False by (simp add: word_le_nat_alt unat_diff)
  then have "unat (tx_unacked_bytes rq) + n \<le> unat (tx_cwnd rq)" using False by (simp add: word_le_nat_alt)
  moreover have "unat (tx_unacked_bytes rq + of_nat n) \<le> unat (tx_unacked_bytes rq) + n"
    using unat_of_nat[of "unat (tx_unacked_bytes rq) + n", where ?'a = 64] by simp
  ultimately show ?thesis by simp
qed

section \<open>The invariant of the retransmission queue\<close>

text \<open>Without partial reliability every message is sent as a reliable one.\<close>

definition tx_reliability :: "(u16 \<Rightarrow> u32 \<Rightarrow> bool) \<Rightarrow> RetransmissionQueue \<Rightarrow> u16 \<Rightarrow> u32 \<Rightarrow> bool" where
  "tx_reliability R rq = (if tx_partial_reliability rq then R else (\<lambda>_ _. True))"

definition tx_fixed :: "RetransmissionQueue \<Rightarrow> bool" where
  "tx_fixed rq =
     ((tx_data_chunk_header_size rq = 16 \<or> tx_data_chunk_header_size rq = 20)
      \<and> od_data_chunk_header_size (tx_outstanding rq) = tx_data_chunk_header_size rq
      \<and> timer_ok (tx_t3_rtx rq) \<and> to_max_restarts (tm_options (tx_t3_rtx rq)) = None)"

definition tx_core :: "(u16 \<Rightarrow> u32 \<Rightarrow> bool) \<Rightarrow> nat \<Rightarrow> RetransmissionQueue \<Rightarrow> bool" where
  "tx_core R cap rq =
     ((\<exists>n B. od_inv (tx_reliability R rq) n B (tx_outstanding rq)) \<and> sizes_ok cap (tx_outstanding rq) \<and> tx_fixed rq
      \<and> (od_live (tx_outstanding rq) \<longrightarrow> tm_is_running (tx_t3_rtx rq)))"

text \<open>The queue is not about to overflow its counters.\<close>

definition spare :: "RetransmissionQueue \<Rightarrow> bool" where
  "spare rq =
     (length (od_outstanding_data (tx_outstanding rq)) < 2 ^ 29
      \<and> (\<forall>item \<in> set (od_outstanding_data (tx_outstanding rq)). unat (it_num_retransmissions item) < 65534))"

lemma load_le: "load od \<le> 2 * length (od_outstanding_data od)"
proof -
  have "(\<Sum>item\<leftarrow>xs. if is_abandoned item then 1 else 2) \<le> 2 * length xs" for xs
    by (induction xs) auto
  then show ?thesis by (simp add: load_def)
qed

lemma spare_inv:
  assumes "od_inv R n B (tx_outstanding rq)" "spare rq"
  shows "od_inv R 65533 (2 ^ 30) (tx_outstanding rq)"
  using assms load_le[of "tx_outstanding rq"] by (fastforce simp: od_inv_def spare_def item_ok_def)

text \<open>Congestion control leaves the rest of the state alone.\<close>

definition same_tx :: "RetransmissionQueue \<Rightarrow> RetransmissionQueue \<Rightarrow> bool" where
  "same_tx rq rq' =
     (tx_outstanding rq' = tx_outstanding rq \<and> tx_data_chunk_header_size rq' = tx_data_chunk_header_size rq
      \<and> tx_partial_reliability rq' = tx_partial_reliability rq \<and> tx_t3_rtx rq' = tx_t3_rtx rq \<and> tx_options rq' = tx_options rq)"

lemma same_tx_simps [simp]:
  "same_tx rq rq" "same_tx rq (MaybeExitFastRecovery cum rq)" "same_tx rq (HandleIncreasedCumulativeTsnAck u b rq)"
  "same_tx rq (HandlePacketLoss tsn rq)" "same_tx rq (UpdateReceiverWindow w rq)" "same_tx rq (add_event e rq)"
  by (auto simp: same_tx_def MaybeExitFastRecovery_def HandleIncreasedCumulativeTsnAck_def HandlePacketLoss_def
      UpdateReceiverWindow_def add_event_def Let_def split: option.splits CongestionAlgorithmPhase.splits)

lemma ensure_timer_returns:
  assumes "timer_ok (tx_t3_rtx rq)"
  shows "returns (ensure_timer rq) (\<lambda>rq'. \<exists>t. rq' = rq\<lparr>tx_t3_rtx := t\<rparr> \<and> timer_ok t
    \<and> tm_is_running t \<and> tm_options t = tm_options (tx_t3_rtx rq))"
proof (cases "tm_is_running (tx_t3_rtx rq)")
  case False
  then show ?thesis
    by (simp add: ensure_timer_def, intro returns_mono[OF Timer_Start_returns[OF assms]]) auto
next
  case True
  then show ?thesis by (auto simp: ensure_timer_def assms intro!: exI[of _ "tx_t3_rtx rq"])
qed

lemma Timer_Stop_options [simp]: "tm_options (Timer_Stop t) = tm_options t"
  by (simp add: Timer_Stop_def)

lemma after_sack_returns:
  assumes "timer_ok (tx_t3_rtx rq)"
  shows "returns (after_sack old ob cum w a rq) (\<lambda>rq'. tx_outstanding rq' = tx_outstanding rq
    \<and> tx_data_chunk_header_size rq' = tx_data_chunk_header_size rq \<and> tx_partial_reliability rq' = tx_partial_reliability rq
    \<and> timer_ok (tx_t3_rtx rq') \<and> tm_options (tx_t3_rtx rq') = tm_options (tx_t3_rtx rq)
    \<and> (od_outstanding_data (tx_outstanding rq) \<noteq> [] \<longrightarrow> tm_is_running (tx_t3_rtx rq')))"
proof -
  define rq1 where "rq1 = UpdateReceiverWindow w rq"
  define rq2 where "rq2 = (if cum > old then HandleIncreasedCumulativeTsnAck ob (ai_bytes_acked a)
      (rq1\<lparr>tx_t3_rtx := Timer_Stop (tx_t3_rtx rq1)\<rparr>) else rq1)"
  define rq3 where "rq3 = (if ai_has_packet_loss a then HandlePacketLoss (ai_highest_tsn_acked a) rq2 else rq2)"
  define rq4 where "rq4 = (if ai_bytes_acked a > 0 then add_event OnClearRetransmissionCounter rq3 else rq3)"
  have "same_tx rq rq1" by (simp add: rq1_def)
  moreover have "same_tx (if cum > old then rq1\<lparr>tx_t3_rtx := Timer_Stop (tx_t3_rtx rq1)\<rparr> else rq1) rq2"
    by (simp add: rq2_def)
  moreover have "same_tx rq2 rq3" "same_tx rq3 rq4"
    by (simp_all add: rq3_def rq4_def)
  ultimately have frame: "tx_outstanding rq4 = tx_outstanding rq" "tx_data_chunk_header_size rq4 = tx_data_chunk_header_size rq"
      "tx_partial_reliability rq4 = tx_partial_reliability rq" "timer_ok (tx_t3_rtx rq4)"
      "tm_options (tx_t3_rtx rq4) = tm_options (tx_t3_rtx rq)"
    using assms by (auto simp: same_tx_def split: if_splits)
  have "after_sack old ob cum w a rq = StartT3RtxTimerIfOutstandingData rq4"
    by (simp only: after_sack_def Let_def rq1_def rq2_def rq3_def rq4_def)
  moreover have "returns (StartT3RtxTimerIfOutstandingData rq4) (\<lambda>rq'. \<exists>t. rq' = rq4\<lparr>tx_t3_rtx := t\<rparr> \<and> timer_ok t
    \<and> (od_outstanding_data (tx_outstanding rq) \<noteq> [] \<longrightarrow> tm_is_running t) \<and> tm_options t = tm_options (tx_t3_rtx rq4))"
  proof (cases "od_outstanding_data (tx_outstanding rq) = []")
    case True
    then show ?thesis
      using frame(1,4) by (auto simp: StartT3RtxTimerIfOutstandingData_def intro!: exI[of _ "tx_t3_rtx rq4"])
  next
    case False
    then have "StartT3RtxTimerIfOutstandingData rq4 = ensure_timer rq4"
      using frame(1) by (simp add: StartT3RtxTimerIfOutstandingData_def)
    then show ?thesis by (simp only:) (rule returns_mono[OF ensure_timer_returns[OF frame(4)]], blast)
  qed
  ultimately show ?thesis
    by (simp only:) (erule returns_mono, auto simp: frame)
qed

lemma MeasureRTT_returns: "od_inv R n B od \<Longrightarrow> returns (MeasureRTT now tsn od) (\<lambda>_. True)"
proof (cases "tsn > od_last_cumulative_tsn_ack od \<and> tsn < next_tsn od")
  case True
  moreover assume inv: "od_inv R n B od"
  ultimately obtain i where "i < length (od_outstanding_data od)" "tsn = tsn_at od i"
    using in_range_index[of od tsn] by blast
  then show ?thesis
    using GetItem_ok[OF od_inv_length[OF inv]] True by (simp add: MeasureRTT_def Let_def)
qed (auto simp: MeasureRTT_def)

lemma UpdateRTT_returns:
  "od_inv R n B (tx_outstanding rq) \<Longrightarrow> returns (UpdateRTT now cum rq) (same_tx rq)"
  unfolding UpdateRTT_def by (simp, intro returns_mono[OF MeasureRTT_returns]) auto

text \<open>
  The expiry of the retransmission timer: its timeout has fired, the timer restarts itself and calls
  the queue, which returns no new duration.
\<close>

definition t3_expires ::
  "(u16 \<Rightarrow> u32 \<Rightarrow> 'q \<Rightarrow> bool \<times> 'q) \<Rightarrow> RetransmissionQueue \<times> 'q \<Rightarrow> (RetransmissionQueue \<times> 'q) outcome" where
  "t3_expires discard s =
     (case s of (rq, q) \<Rightarrow>
      bind_outcome (Timer_Trigger (\<lambda>(t, rq, q).
          bind_outcome (HandleT3RtxTimerExpiry discard (rq\<lparr>tx_t3_rtx := t\<rparr>, q)) (\<lambda>(rq, q). Value (0, tx_t3_rtx rq, rq, q)))
        (tm_generation (tx_t3_rtx rq)) ((tx_t3_rtx rq)\<lparr>tm_timeout := None\<rparr>, rq, q)) (\<lambda>(t, rq, q).
      Value (rq\<lparr>tx_t3_rtx := t\<rparr>, q)))"

section \<open>The retransmission queue over the interface of the send queue\<close>

locale message_source =
  fixes produce :: "Timestamp \<Rightarrow> nat \<Rightarrow> 'q \<Rightarrow> (DataToSend option \<times> 'q) outcome"
    and discard :: "u16 \<Rightarrow> u32 \<Rightarrow> 'q \<Rightarrow> bool \<times> 'q"
    and qinv :: "(u16 \<Rightarrow> u32 \<Rightarrow> bool) \<Rightarrow> 'q \<Rightarrow> bool" and begun_or_gone :: "'q \<Rightarrow> u16 \<Rightarrow> u32 \<Rightarrow> bool"
  assumes produce_law: "qinv R q \<Longrightarrow> 0 < max_size \<Longrightarrow> returns (produce now max_size q) (\<lambda>(data, q'). qinv R q'
      \<and> (\<forall>s m. begun_or_gone q s m \<longrightarrow> begun_or_gone q' s m)
      \<and> (case data of None \<Rightarrow> True | Some d \<Rightarrow> chunk_fits max_size d
           \<and> R (d_stream_id (ds_data d)) (ds_message_id d) = (ds_expires_at d = PlusInfinity \<and> ds_max_retransmissions d = NoLimit)
           \<and> begun_or_gone q' (d_stream_id (ds_data d)) (ds_message_id d)))"
    and discard_law: "qinv R q \<Longrightarrow> begun_or_gone q sid mid \<Longrightarrow> qinv R (snd (discard sid mid q))
      \<and> (\<forall>s m. begun_or_gone q s m \<longrightarrow> begun_or_gone (snd (discard sid mid q)) s m)"
begin

definition linked :: "(u16 \<Rightarrow> u32 \<Rightarrow> bool) \<Rightarrow> OutstandingData \<times> 'q \<Rightarrow> bool" where
  "linked R s = (qinv R (snd s) \<and> (\<forall>sid mid. (sid, mid) \<in> od_keys (fst s) \<longrightarrow> begun_or_gone (snd s) sid mid))"

lemma linked_discards:
  assumes "discards discard K q q'" "qinv R q" "\<forall>(sid, mid) \<in> K. begun_or_gone q sid mid"
  shows "qinv R q' \<and> (\<forall>s m. begun_or_gone q s m \<longrightarrow> begun_or_gone q' s m)"
  using assms
proof (induction rule: discards.induct)
  case (one q q' sid mid)
  then have "qinv R q'" "begun_or_gone q' sid mid" by auto
  from discard_law[OF this] show ?case using one by auto
qed simp

lemma linked_linked_step:
  assumes "linked R s" "linked_step discard s s'"
  shows "linked R s'"
proof -
  have "qinv R (snd s') \<and> (\<forall>sid m. begun_or_gone (snd s) sid m \<longrightarrow> begun_or_gone (snd s') sid m)"
    using assms linked_discards[of "od_keys (fst s)" "snd s" "snd s'" R] by (auto simp: linked_def linked_step_def)
  moreover have "od_keys (fst s') \<subseteq> od_keys (fst s)"
    using assms(2) same_data_keys by (simp add: linked_step_def)
  ultimately show ?thesis using assms(1) by (auto simp: linked_def)
qed

definition tx_inv :: "(u16 \<Rightarrow> u32 \<Rightarrow> bool) \<Rightarrow> nat \<Rightarrow> RetransmissionQueue \<times> 'q \<Rightarrow> bool" where
  "tx_inv R cap s = (tx_core R cap (fst s) \<and> linked R (tx_outstanding (fst s), snd s))"

lemma header_le: "tx_fixed rq \<Longrightarrow> 20 \<le> cap \<Longrightarrow> unat (RoundUpTo4 (od_data_chunk_header_size (tx_outstanding rq))) \<le> cap"
  by (auto simp: tx_fixed_def RoundUpTo4_def)

lemma step_core:
  assumes inv: "tx_inv R cap (rq, q)" and cap: "20 \<le> cap" and step: "linked_step discard (tx_outstanding rq, q) (od, q')"
    and od: "od_inv (tx_reliability R rq) n B od"
    and rq': "tx_outstanding rq' = od" "tx_data_chunk_header_size rq' = tx_data_chunk_header_size rq"
      "tx_partial_reliability rq' = tx_partial_reliability rq" "timer_ok (tx_t3_rtx rq')" "tm_options (tx_t3_rtx rq') = tm_options (tx_t3_rtx rq)"
    and live: "od_live od \<Longrightarrow> tm_is_running (tx_t3_rtx rq')"
  shows "tx_inv R cap (rq', q')"
proof -
  have core: "sizes_ok cap (tx_outstanding rq)" "tx_fixed rq" using inv by (simp_all add: tx_inv_def tx_core_def)
  have same: "same_data (tx_outstanding rq) od" using step by (simp add: linked_step_def)
  have "sizes_ok cap od" by (rule same_data_sizes[OF same core(1) header_le[OF core(2) cap]])
  moreover have "tx_fixed rq'" using core(2) same rq' by (simp add: tx_fixed_def same_data_def)
  moreover have "linked R (od, q')" using linked_linked_step[OF _ step] inv by (simp add: tx_inv_def)
  moreover have "tx_reliability R rq' = tx_reliability R rq" using rq'(3) by (simp add: tx_reliability_def)
  then have "\<exists>n B. od_inv (tx_reliability R rq') n B od" using od by metis
  ultimately show ?thesis
    using live rq'(1) by (simp add: tx_inv_def tx_core_def)
qed

lemma Tx_HandleSack_returns:
  assumes inv: "tx_inv R cap (rq, q)" and cap: "20 \<le> cap" and sp: "spare rq" and fast: "od_to_be_fast_retransmitted (tx_outstanding rq) = []"
  shows "returns (Tx_HandleSack discard now cum a_rwnd bs (rq, q)) (\<lambda>(b, s). tx_inv R cap s)"
proof (cases "IsSackValid cum bs rq")
  case False
  then show ?thesis using inv by (simp add: Tx_HandleSack_def)
next
  case True
  obtain c u where u: "Unwrap (tx_tsn_unwrapper rq) cum = (c, u)" by fastforce
  have c: "od_last_cumulative_tsn_ack (tx_outstanding rq) \<le> c"
    using True u fst_Unwrap[of "tx_tsn_unwrapper rq" cum] by (auto simp: IsSackValid_def Let_def split: if_splits)
  obtain n B where "od_inv (tx_reliability R rq) n B (tx_outstanding rq)" using inv by (auto simp: tx_inv_def tx_core_def)
  note od = spare_inv[OF this sp]
  let ?rq1 = "rq\<lparr>tx_tsn_unwrapper := u\<rparr>"
  have "returns (if bs = [] then UpdateRTT now c ?rq1 else Value ?rq1) (same_tx ?rq1)"
    using UpdateRTT_returns[of _ _ _ ?rq1] od by simp
  then have "returns (if bs = [] then UpdateRTT now c ?rq1 else Value ?rq1) (\<lambda>rq2. returns
      (let rq3 = MaybeExitFastRecovery c rq2 in
        bind_outcome (OD_HandleSack discard c bs (is_in_fast_recovery rq3) (tx_outstanding rq3, q))
          (\<lambda>(ack_info, od, q).
        bind_outcome
          (after_sack (od_last_cumulative_tsn_ack (tx_outstanding rq)) (tx_unacked_bytes rq) c a_rwnd ack_info
             (rq3\<lparr>tx_outstanding := od, tx_events := tx_events rq3 @ lifecycle_events ack_info\<rparr>))
          (\<lambda>rq. Value (True, rq, q)))) (\<lambda>(b, s). tx_inv R cap s))"
  proof (rule returns_mono, goal_cases)
    case (1 rq2)
    define rq3 where "rq3 = MaybeExitFastRecovery c rq2"
    have rq3: "same_tx rq rq3" using 1(2) same_tx_simps(2)[of rq2 c] by (simp add: same_tx_def rq3_def)
    have ok: "timer_ok (tx_t3_rtx rq3)" using inv rq3 by (simp add: tx_inv_def tx_core_def tx_fixed_def same_tx_def)
    have "returns (OD_HandleSack discard c bs (is_in_fast_recovery rq3) (tx_outstanding rq, q)) (\<lambda>(a, od, q').
        od_inv (tx_reliability R rq) 65533 (2 ^ 30) od \<and> linked_step discard (tx_outstanding rq, q) (od, q'))"
      by (rule returns_mono[OF OD_HandleSack_returns[OF od _ fast c]]) (auto dest: OD_HandleSack_step)
    moreover have eq: "tx_outstanding rq3 = tx_outstanding rq" using rq3 by (simp add: same_tx_def)
    ultimately show ?case
      unfolding Let_def rq3_def[symmetric] returns_bind eq
    proof (elim returns_mono, goal_cases)
      case (1 r)
      obtain a od' q' where r: "r = (a, od', q')" by (cases r) auto
      have "tx_inv R cap (rq', q')" if "tx_outstanding rq' = od'"
          "tx_data_chunk_header_size rq' = tx_data_chunk_header_size rq3" "tx_partial_reliability rq' = tx_partial_reliability rq3"
          "timer_ok (tx_t3_rtx rq')" "tm_options (tx_t3_rtx rq') = tm_options (tx_t3_rtx rq3)"
          "od_outstanding_data od' \<noteq> [] \<longrightarrow> tm_is_running (tx_t3_rtx rq')" for rq'
        using that 1 rq3 r by (intro step_core[OF inv cap, of od' q']) (auto simp: same_tx_def od_live_def)
      then show ?case
        unfolding r prod.case returns_bind using ok by (intro returns_mono[OF after_sack_returns]) auto
    qed
  qed
  then show ?thesis using True by (simp add: Tx_HandleSack_def u Let_def)
qed

lemma fixed_size:
  "tx_fixed rq \<Longrightarrow> GetSerializedChunkSize (tx_outstanding rq) = Tx_GetSerializedChunkSize rq"
  by (simp add: tx_fixed_def GetSerializedChunkSize_def Tx_GetSerializedChunkSize_def fun_eq_iff)

lemma GetChunksForFastRetransmit_returns:
  assumes inv: "tx_inv R cap (rq, q)" and cap: "20 \<le> cap" "cap mod 4 = 0" "cap < 2 ^ 64" and sp: "spare rq"
    and fast: "od_to_be_fast_retransmitted (tx_outstanding rq) \<noteq> []"
  shows "returns (GetChunksForFastRetransmit (of_nat cap) rq) (\<lambda>(sent, rq'). tx_inv R cap (rq', q)
    \<and> od_to_be_fast_retransmitted (tx_outstanding rq') = [])"
proof -
  obtain n B where "od_inv (tx_reliability R rq) n B (tx_outstanding rq)" using inv by (auto simp: tx_inv_def tx_core_def)
  note od = spare_inv[OF this sp]
  have c: "unat (of_nat cap :: u64) = cap" using cap(3) by (simp add: unat_of_nat)
  have div: "IsDivisibleBy4 (of_nat cap :: u64)" using cap(2) by (simp add: IsDivisibleBy4_iff c)
  have sizes: "sizes_ok (unat (of_nat cap :: u64)) (tx_outstanding rq)" and ok: "timer_ok (tx_t3_rtx rq)"
    using inv by (simp_all add: c tx_inv_def tx_core_def tx_fixed_def)
  have "returns (GetChunksToBeFastRetransmitted (of_nat cap) (tx_outstanding rq)) (\<lambda>(e, od').
      od_inv (tx_reliability R rq) 65534 (2 ^ 30) od' \<and> od_to_be_fast_retransmitted od' = [] \<and> e \<noteq> []
      \<and> linked_step discard (tx_outstanding rq, q) (od', q))"
    by (rule returns_mono[OF GetChunksToBeFastRetransmitted_returns[OF od]])
      (auto simp: took_def dest: GetChunksToBeFastRetransmitted_some[OF _ fast sizes]
        intro!: linked_step_same dest: GetChunksToBeFastRetransmitted_took)
  then show ?thesis
    using fast div unfolding GetChunksForFastRetransmit_def has_data_to_be_fast_retransmitted_def
  proof (simp add: Let_def del: returns_if split del: if_split, elim returns_mono, goal_cases)
    case (1 r)
    obtain e od' where r: "r = (e, od')" by fastforce
    let ?t = "if fst (hd e) = Wrap (next_value (od_last_cumulative_tsn_ack od')) then Timer_Stop (tx_t3_rtx rq) else tx_t3_rtx rq"
    have t: "timer_ok ?t" "tm_options ?t = tm_options (tx_t3_rtx rq)" using ok by simp_all
    have "tx_inv R cap (rq', q)" if "tx_outstanding rq' = od'" "tx_data_chunk_header_size rq' = tx_data_chunk_header_size rq"
        "tx_partial_reliability rq' = tx_partial_reliability rq" "timer_ok (tx_t3_rtx rq')" "tm_options (tx_t3_rtx rq') = tm_options ?t"
        "tm_is_running (tx_t3_rtx rq')" for rq'
      using 1 that r t by (intro step_core[OF inv cap(1), of od' q]) auto
    then show ?case
      using 1 r t ensure_timer_returns[of "rq\<lparr>tx_outstanding := od', tx_t3_rtx := ?t\<rparr>"]
      by (simp del: returns_if split del: if_split, elim returns_mono) auto
  qed
qed

lemma t3_expires_returns:
  assumes inv: "tx_inv R cap (rq, q)" and cap: "20 \<le> cap" and sp: "spare rq" and run: "tm_is_running (tx_t3_rtx rq)"
  shows "returns (t3_expires discard (rq, q)) (tx_inv R cap)"
proof -
  obtain n B where "od_inv (tx_reliability R rq) n B (tx_outstanding rq)" using inv by (auto simp: tx_inv_def tx_core_def)
  note od = spare_inv[OF this sp]
  let ?t = "(tx_t3_rtx rq)\<lparr>tm_timeout := None, tm_expiration_count := tm_expiration_count (tx_t3_rtx rq) + 1, tm_is_running := True\<rparr>"
  have left: "restarts_left t" if "tm_options t = tm_options (tx_t3_rtx rq)" for t
    using inv that by (simp add: restarts_left_def tx_inv_def tx_core_def tx_fixed_def)
  have start: "returns (start_backed_off ?t) (\<lambda>t. timer_ok t \<and> tm_is_running t \<and> tm_options t = tm_options (tx_t3_rtx rq))"
    by (rule returns_mono[OF start_backed_off_returns]) simp_all
  have t3: "returns (HandleT3RtxTimerExpiry discard (rq\<lparr>tx_t3_rtx := t\<rparr>, q)) (\<lambda>(rq', q'). tx_inv R cap (rq', q') \<and> tx_t3_rtx rq' = t)"
    if "timer_ok t" "tm_is_running t" "tm_options t = tm_options (tx_t3_rtx rq)" for t
  proof -
    have "returns (NackAll discard (tx_outstanding rq, q)) (\<lambda>(od', q'). od_inv (tx_reliability R rq) 65533 (2 ^ 30) od'
        \<and> linked_step discard (tx_outstanding rq, q) (od', q'))"
      by (rule returns_mono[OF NackAll_returns[OF od]]) (auto dest: NackAll_step)
    then show ?thesis
      using that by (simp add: HandleT3RtxTimerExpiry_def Let_def, elim returns_mono)
        (auto intro!: step_core[OF inv cap])
  qed
  have "returns (start_backed_off ?t) (\<lambda>t. returns (HandleT3RtxTimerExpiry discard (rq\<lparr>tx_t3_rtx := t\<rparr>, q))
      (\<lambda>(rq', q'). tx_inv R cap (rq'\<lparr>tx_t3_rtx := tx_t3_rtx rq'\<rparr>, q')))"
    by (rule returns_mono[OF start], rule returns_mono[OF t3]) auto
  then show ?thesis
    using run left by (simp add: t3_expires_def Timer_Trigger_def Let_def PlusInfinity_def case_prod_beta) 
qed

lemma Tx_ShouldSendForwardTsn_returns:
  assumes inv: "tx_inv R cap (rq, q)" and cap: "20 \<le> cap" and now: "now < PlusInfinity"
  shows "returns (Tx_ShouldSendForwardTsn discard now (rq, q)) (\<lambda>(b, s). tx_inv R cap s)"
proof (cases "tx_partial_reliability rq")
  case True
  obtain n B where od: "od_inv (tx_reliability R rq) n B (tx_outstanding rq)" using inv by (auto simp: tx_inv_def tx_core_def)
  have t: "timer_ok (tx_t3_rtx rq)" "od_live (tx_outstanding rq) \<longrightarrow> tm_is_running (tx_t3_rtx rq)"
    using inv by (simp_all add: tx_inv_def tx_core_def tx_fixed_def)
  have "returns (ExpireOutstandingChunks discard now (tx_outstanding rq, q)) (\<lambda>(od', q'). tx_inv R cap (rq\<lparr>tx_outstanding := od'\<rparr>, q'))"
  proof (rule returns_mono[OF ExpireOutstandingChunks_returns[OF od now]], clarify, goal_cases)
    case (1 od' q')
    show ?case
      using ExpireOutstandingChunks_step[OF 1(1)] 1(2) t
      by (intro step_core[OF inv cap, of od' q']) auto
  qed
  then show ?thesis
    using True by (simp add: Tx_ShouldSendForwardTsn_def, elim returns_mono) auto
qed (use inv in \<open>simp add: Tx_ShouldSendForwardTsn_def\<close>)

text \<open>Sending new chunks.  The timer is only started once all of them are in the packet.\<close>

definition loop_inv :: "(u16 \<Rightarrow> u32 \<Rightarrow> bool) \<Rightarrow> nat \<Rightarrow> nat \<Rightarrow> nat \<Rightarrow> RetransmissionQueue \<times> 'q \<Rightarrow> bool" where
  "loop_inv R n B cap s =
     (od_inv (tx_reliability R (fst s)) n B (tx_outstanding (fst s)) \<and> sizes_ok cap (tx_outstanding (fst s)) \<and> tx_fixed (fst s)
      \<and> linked R (tx_outstanding (fst s), snd s))"

definition loop_frame :: "RetransmissionQueue \<Rightarrow> RetransmissionQueue \<Rightarrow> bool" where
  "loop_frame rq rq' =
     (tx_data_chunk_header_size rq' = tx_data_chunk_header_size rq \<and> tx_partial_reliability rq' = tx_partial_reliability rq
      \<and> tx_t3_rtx rq' = tx_t3_rtx rq \<and> tx_options rq' = tx_options rq \<and> tx_cwnd rq' = tx_cwnd rq)"

lemma loop_frame_simps: "loop_frame rq rq" "loop_frame rq rq1 \<Longrightarrow> loop_frame rq1 rq2 \<Longrightarrow> loop_frame rq rq2"
  by (simp_all add: loop_frame_def)

lemma send_chunk_returns:
  assumes inv: "loop_inv R n B cap (rq, q)" and cap: "20 \<le> cap" and B: "B + 3 < 2 ^ 31" and now: "now < PlusInfinity"
    and fits: "chunk_fits m chunk" "unat (Tx_GetSerializedChunkSize rq (ds_data chunk)) \<le> cap"
    and label: "R (d_stream_id (ds_data chunk)) (ds_message_id chunk) = (ds_expires_at chunk = PlusInfinity \<and> ds_max_retransmissions chunk = NoLimit)"
    and begun: "begun_or_gone q (d_stream_id (ds_data chunk)) (ds_message_id chunk)"
  shows "returns (send_chunk discard now chunk ts (rq, q)) (\<lambda>(ts', rq', q'). loop_inv R n (B + 3) cap (rq', q') \<and> loop_frame rq rq'
    \<and> tx_unacked_bytes rq' = tx_unacked_bytes rq + Tx_GetSerializedChunkSize rq (ds_data chunk)
    \<and> (ts' = ts \<and> (od_live (tx_outstanding rq') \<longrightarrow> od_live (tx_outstanding rq)) \<or> (\<exists>tsn. ts' = ts @ [(tsn, ds_data chunk)])))"
proof -
  let ?mr = "if tx_partial_reliability rq then ds_max_retransmissions chunk else NoLimit"
  let ?ex = "if tx_partial_reliability rq then ds_expires_at chunk else PlusInfinity"
  let ?insert = "OD_Insert discard (ds_message_id chunk) (ds_data chunk) now ?mr ?ex (ds_lifecycle_id chunk) (tx_outstanding rq, q)"
  have od: "od_inv (tx_reliability R rq) n B (tx_outstanding rq)" and sizes: "sizes_ok cap (tx_outstanding rq)" and fixed: "tx_fixed rq"
    and lnk: "linked R (tx_outstanding rq, q)" using inv by (simp_all add: loop_inv_def)
  have "insert_ok (tx_reliability R rq) (ds_message_id chunk) (ds_data chunk) now ?mr ?ex (ds_lifecycle_id chunk)"
    using now fits(1) label by (simp add: insert_ok_def tx_reliability_def chunk_fits_def)
  from OD_Insert_returns[OF od this B]
  have ins: "returns ?insert (\<lambda>(r, od', q'). od_inv (tx_reliability R rq) n (B + 3) od')" .
  have "returns ?insert (\<lambda>(r, od', q'). od_inv (tx_reliability R rq) n (B + 3) od' \<and> sizes_ok cap od'
      \<and> od_data_chunk_header_size od' = od_data_chunk_header_size (tx_outstanding rq) \<and> linked R (od', q')
      \<and> od_unacked_bytes od' = od_unacked_bytes (tx_outstanding rq) + Tx_GetSerializedChunkSize rq (ds_data chunk)
      \<and> (r = None \<longrightarrow> od_live od' \<longrightarrow> od_live (tx_outstanding rq)))"
  proof (rule returns_mono[OF ins], clarify, goal_cases)
    case (1 r od' q')
    note v = OD_Insert_Value[OF 1(1)]
    have "qinv R q' \<and> (\<forall>s m. begun_or_gone q s m \<longrightarrow> begun_or_gone q' s m)"
      using v(6) lnk discard_law[of R q] begun by (auto simp: linked_def)
    then have "linked R (od', q')" using v(5) lnk begun by (fastforce simp: linked_def)
    then show ?case
      using 1(2) v(1-3) v(4)[OF sizes _ header_le[OF fixed cap]] fits(2) by (simp add: fixed_size[OF fixed])
  qed
  then show ?thesis
    unfolding send_chunk_def prod.case Let_def
    by (simp split del: if_split, elim returns_mono) (use fixed fits(1) in \<open>auto simp: loop_inv_def loop_frame_def tx_fixed_def tx_reliability_def
        add_event_def chunk_fits_def split: option.splits\<close>)
qed

text \<open>What one round of the loop, and then the whole loop, sends of the bytes it is given.\<close>

definition loop_sent :: "nat \<Rightarrow> (u32 \<times> Data) list \<Rightarrow> RetransmissionQueue \<Rightarrow> (u32 \<times> Data) list \<Rightarrow> RetransmissionQueue \<Rightarrow> bool" where
  "loop_sent bytes ts rq ts' rq' =
     (\<exists>k sent. ts' = ts @ sent \<and> k \<le> bytes \<and> chunk_bytes (tx_outstanding rq) sent \<le> k
        \<and> tx_unacked_bytes rq' = tx_unacked_bytes rq + of_nat k
        \<and> (sent = [] \<longrightarrow> od_live (tx_outstanding rq') \<longrightarrow> od_live (tx_outstanding rq)))"

lemma loop_sent_trans:
  assumes "loop_sent a ts rq ts1 rq1" "loop_sent b ts1 rq1 ts2 rq2"
    and "od_data_chunk_header_size (tx_outstanding rq1) = od_data_chunk_header_size (tx_outstanding rq)"
  shows "loop_sent (a + b) ts rq ts2 rq2"
proof -
  obtain k sent where 1: "ts1 = ts @ sent" "k \<le> a" "chunk_bytes (tx_outstanding rq) sent \<le> k"
      "tx_unacked_bytes rq1 = tx_unacked_bytes rq + of_nat k"
      "sent = [] \<longrightarrow> od_live (tx_outstanding rq1) \<longrightarrow> od_live (tx_outstanding rq)"
    using assms(1) by (auto simp: loop_sent_def)
  obtain k' sent' where 2: "ts2 = ts1 @ sent'" "k' \<le> b" "chunk_bytes (tx_outstanding rq1) sent' \<le> k'"
      "tx_unacked_bytes rq2 = tx_unacked_bytes rq1 + of_nat k'"
      "sent' = [] \<longrightarrow> od_live (tx_outstanding rq2) \<longrightarrow> od_live (tx_outstanding rq1)"
    using assms(2) by (auto simp: loop_sent_def)
  have "chunk_bytes (tx_outstanding rq1) = chunk_bytes (tx_outstanding rq)"
    by (simp add: chunk_bytes_def fun_eq_iff GetSerializedChunkSize_cong[OF assms(3)])
  then show ?thesis
    unfolding loop_sent_def using 1 2 by (intro exI[of _ "k + k'"] exI[of _ "sent @ sent'"]) (auto simp: add.assoc)
qed

lemma loop_sent_mono: "loop_sent a ts rq ts' rq' \<Longrightarrow> a \<le> b \<Longrightarrow> loop_sent b ts rq ts' rq'"
  unfolding loop_sent_def
  by (elim exE, rename_tac k sent, rule_tac x = k in exI, rule_tac x = sent in exI) auto

lemma send_round:
  assumes inv: "loop_inv R n B cap (rq, q)" and cap: "20 \<le> cap" "unat m \<le> cap" "cap < 2 ^ 32" and B: "B + 3 < 2 ^ 31"
    and now: "now < PlusInfinity" and m: "unat m mod 4 = 0" "tx_data_chunk_header_size rq < m"
  shows "returns (bind_outcome (produce now (unat (m - tx_data_chunk_header_size rq)) q) (\<lambda>(chunk_opt, q).
      case chunk_opt of
        None \<Rightarrow> Value (None, ts, rq, q)
      | Some chunk \<Rightarrow> bind_outcome (send_chunk discard now chunk ts (rq, q)) (\<lambda>s'.
          Value (Some (m - Tx_GetSerializedChunkSize rq (ds_data chunk)), s'))))
    (\<lambda>(rest, ts', rq', q'). loop_inv R n (B + 3) cap (rq', q') \<and> loop_frame rq rq' \<and> (case rest of
        None \<Rightarrow> loop_sent 0 ts rq ts' rq'
      | Some m' \<Rightarrow> m' < m \<and> unat m' mod 4 = 0 \<and> loop_sent (unat m - unat m') ts rq ts' rq'))"
proof -
  have fixed: "tx_fixed rq" and "qinv R q" using inv by (simp_all add: loop_inv_def linked_def)
  have pos: "0 < unat (m - tx_data_chunk_header_size rq)" using m(2) by (simp add: unat_gt_0)
  from produce_law[OF \<open>qinv R q\<close> pos, of now] show ?thesis
  proof (simp only: returns_bind, elim returns_mono, clarify, goal_cases)
    case (1 data q')
    have lnk: "linked R (tx_outstanding rq, q')" using 1(2,3) inv by (auto simp: loop_inv_def linked_def)
    have inv': "loop_inv R n B cap (rq, q')" using inv lnk by (simp add: loop_inv_def)
    show ?case
    proof (cases data)
      case None
      moreover have "loop_inv R n (B + 3) cap (rq, q')" using inv' B by (auto simp: loop_inv_def od_inv_def)
      ultimately show ?thesis by (simp add: loop_frame_simps loop_sent_def)
    next
      case (Some chunk)
      let ?size = "Tx_GetSerializedChunkSize rq (ds_data chunk)"
      have len: "length (d_payload (ds_data chunk)) \<le> unat (m - tx_data_chunk_header_size rq)" "chunk_fits (unat (m - tx_data_chunk_header_size rq)) chunk"
        using 1 Some by (simp_all add: chunk_fits_def)
      note sz = chunk_size_fits[OF m len(1)]
      have size: "unat ?size = round4 (unat (tx_data_chunk_header_size rq) + length (d_payload (ds_data chunk)))" "unat ?size \<le> unat m"
        using sz cap by (simp_all add: Tx_GetSerializedChunkSize_def Data_size_def)
      have h: "0 < unat (tx_data_chunk_header_size rq)" using fixed by (auto simp: tx_fixed_def)
      have s0: "0 < unat ?size" "unat ?size mod 4 = 0"
        using size(1) h round4_bounds[of "unat (tx_data_chunk_header_size rq) + length (d_payload (ds_data chunk))"] by simp_all
      have rest: "unat (m - ?size) = unat m - unat ?size" using size(2) by (simp add: unat_diff word_le_nat_alt)
      have m': "m - ?size < m" "unat (m - ?size) mod 4 = 0" "unat m - unat (m - ?size) = unat ?size"
        using rest s0 size(2) m(1) by (simp_all add: word_less_nat_alt mod_diff_eq) presburger
      have "returns (send_chunk discard now chunk ts (rq, q')) (\<lambda>(ts', rq', q'). loop_inv R n (B + 3) cap (rq', q') \<and> loop_frame rq rq'
          \<and> loop_sent (unat ?size) ts rq ts' rq')"
        using 1 Some size(2) cap by (intro returns_mono[OF send_chunk_returns[OF inv' cap(1) B now len(2)]])
          (auto simp: loop_sent_def fixed_size[OF fixed] intro!: exI[of _ "unat ?size"])
      then show ?thesis
        unfolding Some option.case returns_bind using m' by (elim returns_mono) auto
    qed
  qed
qed

lemma send_loop_returns:
  assumes "loop_inv R n B cap (rq, q)" "20 \<le> cap" "unat m \<le> cap" "cap < 2 ^ 32" "B + 3 * unat m + 3 < 2 ^ 31"
    "now < PlusInfinity" "unat m mod 4 = 0"
  shows "\<exists>r. send_loop produce discard now m ts (rq, q) = Some r \<and> returns r (\<lambda>(ts', rq', q').
    (\<exists>B. loop_inv R n B cap (rq', q')) \<and> loop_frame rq rq' \<and> loop_sent (unat m) ts rq ts' rq')"
  using assms
proof (induction "unat m" arbitrary: m B ts rq q rule: less_induct)
  case less
  show ?case
  proof (cases "tx_data_chunk_header_size rq < m")
    case False
    then show ?thesis
      using less.prems by (auto simp: send_loop.simps[of produce] loop_frame_simps loop_sent_def)
  next
    case True
    have "B + 3 < 2 ^ 31" using less.prems by simp
    from send_round[OF less.prems(1-4) this less.prems(6,7) True, of ts]
    obtain rest ts' rq' q' where step: "bind_outcome (produce now (unat (m - tx_data_chunk_header_size rq)) q) (\<lambda>(chunk_opt, q).
        case chunk_opt of
          None \<Rightarrow> Value (None, ts, rq, q)
        | Some chunk \<Rightarrow> bind_outcome (send_chunk discard now chunk ts (rq, q)) (\<lambda>s'.
            Value (Some (m - Tx_GetSerializedChunkSize rq (ds_data chunk)), s'))) = Value (rest, ts', rq', q')"
      and inv': "loop_inv R n (B + 3) cap (rq', q')" and frame: "loop_frame rq rq'" and rest: "case rest of
          None \<Rightarrow> loop_sent 0 ts rq ts' rq'
        | Some m' \<Rightarrow> m' < m \<and> unat m' mod 4 = 0 \<and> loop_sent (unat m - unat m') ts rq ts' rq'"
      unfolding returns_def by fast
    have eq: "send_loop produce discard now m ts (rq, q) = (case rest of None \<Rightarrow> Some (Value (ts', rq', q'))
        | Some m' \<Rightarrow> send_loop produce discard now m' ts' (rq', q'))"
      by (subst send_loop.simps)
        (simp only: True if_True fst_conv snd_conv IsDivisibleBy4_iff less.prems(7) rtc_check_def bind_outcome.simps step
          outcome.case prod.case simp_thms)
    show ?thesis
    proof (cases rest)
      case None
      then show ?thesis
        using eq inv' frame rest loop_sent_mono[of 0 ts rq ts' rq' "unat m"] by auto
    next
      case (Some m')
      have lt: "unat m' < unat m" and m4: "unat m' mod 4 = 0" and snt: "loop_sent (unat m - unat m') ts rq ts' rq'"
        using rest Some by (simp_all add: word_less_nat_alt)
      have hd: "od_data_chunk_header_size (tx_outstanding rq') = od_data_chunk_header_size (tx_outstanding rq)"
        using inv' frame less.prems(1) by (simp add: loop_inv_def loop_frame_def tx_fixed_def)
      have "unat m' \<le> cap" "B + 3 + 3 * unat m' + 3 < 2 ^ 31" using lt less.prems by simp_all
      from less.hyps[OF lt inv' less.prems(2) this(1) less.prems(4) this(2) less.prems(6) m4, of ts'] show ?thesis
        using loop_sent_trans[OF snt _ hd] lt loop_frame_simps(2)[OF frame]
        unfolding eq Some option.case returns_def by fastforce
    qed
  qed
qed

lemma chunk_bytes_mod4: "chunk_bytes od e mod 4 = 0"
proof (induction e)
  case (Cons c e)
  have "unat (RoundUpTo4 x :: u64) mod 4 = 0" for x unfolding RoundUpTo4_def unat_and_not_3 by simp
  then have "chunk_bytes od [c] mod 4 = 0" by (cases c) (simp add: GetSerializedChunkSize_def)
  then show ?case using Cons chunk_bytes_simps(2)[of od "[c]" e] by (simp add: mod_add_eq[symmetric])
qed simp

lemma loop_inv_start:
  assumes inv: "tx_inv R cap (rq, q)" and cap: "20 \<le> cap" and od': "od_inv (tx_reliability R rq) n B od'"
    and same: "same_data (tx_outstanding rq) od'" and rq': "loop_frame rq rq'" "tx_outstanding rq' = od'"
  shows "loop_inv R n B cap (rq', q)"
proof -
  have fixed: "tx_fixed rq" and sizes: "sizes_ok cap (tx_outstanding rq)" and lnk: "linked R (tx_outstanding rq, q)"
    using inv by (simp_all add: tx_inv_def tx_core_def)
  have "linked R (od', q)" by (rule linked_linked_step[OF lnk linked_step_same[OF same]])
  moreover have "sizes_ok cap od'" by (rule same_data_sizes[OF same sizes header_le[OF fixed cap]])
  ultimately show ?thesis
    using od' fixed same rq' by (auto simp: loop_inv_def loop_frame_def tx_fixed_def same_data_def tx_reliability_def)
qed

lemma loop_finish:
  assumes inv: "tx_inv R cap (rq, q)" and loop: "loop_inv R n B cap (rq', q')" "loop_frame rq rq'"
    and live: "ts = [] \<Longrightarrow> od_live (tx_outstanding rq') \<Longrightarrow> od_live (tx_outstanding rq)"
  shows "returns (if ts \<noteq> [] then ensure_timer rq' else Value rq') (\<lambda>rq2. tx_inv R cap (rq2, q') \<and> tx_cwnd rq2 = tx_cwnd rq
    \<and> tx_unacked_bytes rq2 = tx_unacked_bytes rq')"
proof -
  have t: "timer_ok (tx_t3_rtx rq')" using loop(1) by (simp add: loop_inv_def tx_fixed_def)
  have "tx_inv R cap (rq'\<lparr>tx_t3_rtx := t\<rparr>, q')" if "timer_ok t" "tm_options t = tm_options (tx_t3_rtx rq')"
      "od_live (tx_outstanding rq') \<longrightarrow> tm_is_running t" for t
    using that loop(1) unfolding tx_inv_def tx_core_def loop_inv_def tx_fixed_def tx_reliability_def
    by (intro conjI exI[of _ n] exI[of _ B]) simp_all
  note core = this
  show ?thesis
  proof (cases "ts = []")
    case True
    moreover have "tx_inv R cap (rq', q')"
      using core[OF t] live[OF True] inv loop(2) by (auto simp: tx_inv_def tx_core_def loop_frame_def)
    ultimately show ?thesis using loop(2) by (simp add: loop_frame_def)
  next
    case False
    then show ?thesis
      using loop(2) core by (simp, intro returns_mono[OF ensure_timer_returns[OF t]]) (auto simp: loop_frame_def)
  qed
qed

lemma GetChunksToSend_returns:
  assumes inv: "tx_inv R cap (rq, q)" and cap: "20 \<le> cap" "cap < 2 ^ 20" and sp: "spare rq"
    and fast: "od_to_be_fast_retransmitted (tx_outstanding rq) = []" and now: "now < PlusInfinity"
    and room: "IsDivisibleBy4 room" "unat room \<le> cap"
  shows "returns (GetChunksToSend produce discard now room (rq, q)) (\<lambda>(ts, rq', q'). tx_inv R cap (rq', q')
    \<and> chunk_bytes (tx_outstanding rq) ts \<le> unat room \<and> tx_cwnd rq' = tx_cwnd rq
    \<and> unat (tx_unacked_bytes rq') \<le> max (unat (tx_unacked_bytes rq)) (unat (tx_cwnd rq)))"
proof -
  obtain n B where "od_inv (tx_reliability R rq) n B (tx_outstanding rq)" using inv by (auto simp: tx_inv_def tx_core_def)
  note od = spare_inv[OF this sp]
  have fixed: "tx_fixed rq" and sizes: "sizes_ok cap (tx_outstanding rq)" and lnk: "linked R (tx_outstanding rq, q)"
    and live: "od_live (tx_outstanding rq) \<longrightarrow> tm_is_running (tx_t3_rtx rq)"
    using inv by (simp_all add: tx_inv_def tx_core_def)
  define m where "m = RoundDownTo4 (min (max_bytes_to_send rq) room)"
  have m: "unat m mod 4 = 0" "unat m \<le> unat (max_bytes_to_send rq)" "unat m \<le> unat room"
    using unat_min_le[of "max_bytes_to_send rq" room] by (auto simp: m_def unat_RoundDownTo4) 
  have "returns (GetChunksToBeRetransmitted m (tx_outstanding rq)) (\<lambda>(e, od'). od_inv (tx_reliability R rq) 65534 (2 ^ 30) od'
      \<and> took m (tx_outstanding rq) e od')"
    by (rule returns_mono[OF GetChunksToBeRetransmitted_returns[OF od fast]]) (auto dest: GetChunksToBeRetransmitted_took)
  then have "returns (GetChunksToBeRetransmitted m (tx_outstanding rq)) (\<lambda>(e, od'). 
      returns (let b = accumulate_sizes rq e;
          rq1 = rq\<lparr>tx_outstanding := od'\<rparr>;
          rq2 = (if e \<noteq> [] then rq1\<lparr>tx_rtx_packets_count := tx_rtx_packets_count rq1 + 1,
                          tx_rtx_bytes_count := tx_rtx_bytes_count rq1 + b\<rparr> else rq1) in
      case send_loop produce discard now (m - b) e (rq2, q) of
        None \<Rightarrow> Abort
      | Some result \<Rightarrow>
          bind_outcome result (\<lambda>(to_be_sent, rq, q).
          bind_outcome (if to_be_sent \<noteq> [] then ensure_timer rq else Value rq) (\<lambda>rq.
          Value (to_be_sent, rq, q)))) (\<lambda>(ts, rq', q'). tx_inv R cap (rq', q')
    \<and> chunk_bytes (tx_outstanding rq) ts \<le> unat room \<and> tx_cwnd rq' = tx_cwnd rq
    \<and> unat (tx_unacked_bytes rq') \<le> max (unat (tx_unacked_bytes rq)) (unat (tx_cwnd rq))))"
  proof (elim returns_mono, clarify, goal_cases)
    case (1 e od')
    let ?b = "chunk_bytes (tx_outstanding rq) e"
    have b: "?b \<le> unat m" "od_unacked_bytes od' = tx_unacked_bytes rq + of_nat ?b" "same_data (tx_outstanding rq) od'"
      "e = [] \<longrightarrow> od_outstanding_data od' = od_outstanding_data (tx_outstanding rq)"
      using 1 by (simp_all add: took_def)
    have od': "od_inv (tx_reliability R rq) 65534 (2 ^ 30) od'" using 1 by simp
    have "accumulate_sizes rq e = of_nat ?b"
      using accumulate_sizes_eq[of rq e] b(1) m(3) room(2) cap(2) by (simp add: chunk_bytes_def fixed_size[OF fixed])
    note acc = this
    have "unat (of_nat ?b :: u64) = ?b" using b(1) unat_u64[of m] by (simp add: unat_of_nat)
    then have m1: "unat (m - of_nat ?b) = unat m - ?b" using b(1) by (simp add: unat_diff word_le_nat_alt)
    have m4: "unat (m - of_nat ?b) mod 4 = 0" "unat (m - of_nat ?b) \<le> cap"
      using m1 m room(2) chunk_bytes_mod4[of "tx_outstanding rq" e] b(1) by (simp_all, presburger)
    define rq2 where "rq2 = (if e \<noteq> [] then rq\<lparr>tx_outstanding := od',
        tx_rtx_packets_count := tx_rtx_packets_count (rq\<lparr>tx_outstanding := od'\<rparr>) + 1,
        tx_rtx_bytes_count := tx_rtx_bytes_count (rq\<lparr>tx_outstanding := od'\<rparr>) + of_nat ?b\<rparr> else rq\<lparr>tx_outstanding := od'\<rparr>)"
    have rq2: "loop_frame rq rq2" "tx_outstanding rq2 = od'" by (simp_all add: rq2_def loop_frame_def)
    note start = loop_inv_start[OF inv cap(1) od' b(3) rq2]
    from send_loop_returns[OF start cap(1) m4(2) _ _ now m4(1), of e] obtain r
      where r: "send_loop produce discard now (m - of_nat ?b) e (rq2, q) = Some r"
        and ok: "returns r (\<lambda>(ts, rq', q'). (\<exists>B. loop_inv R 65534 B cap (rq', q')) \<and> loop_frame rq2 rq' \<and> loop_sent (unat m - ?b) e rq2 ts rq')"
      using cap(2) m4(2) m1 by auto
    have "returns r (\<lambda>(ts, rq', q'). returns (if ts \<noteq> [] then ensure_timer rq' else Value rq') (\<lambda>rq3. tx_inv R cap (rq3, q')
      \<and> chunk_bytes (tx_outstanding rq) ts \<le> unat room \<and> tx_cwnd rq3 = tx_cwnd rq
      \<and> unat (tx_unacked_bytes rq3) \<le> max (unat (tx_unacked_bytes rq)) (unat (tx_cwnd rq))))"
    proof (rule returns_mono[OF ok], clarify, goal_cases)
      case (1 ts rq' q' B)
      obtain k sent where k: "ts = e @ sent" "k \<le> unat m - ?b" "chunk_bytes od' sent \<le> k"
          "tx_unacked_bytes rq' = od_unacked_bytes od' + of_nat k" "sent = [] \<longrightarrow> od_live (tx_outstanding rq') \<longrightarrow> od_live od'"
        using 1(4) rq2(2) by (auto simp: loop_sent_def)
      have "od_live (tx_outstanding rq)" if "ts = []" "od_live (tx_outstanding rq')"
        using that k(1,5) b(4) by (simp add: od_live_def)
      note fin = loop_finish[OF inv 1(2) loop_frame_simps(2)[OF rq2(1) 1(3)] this]
      have "chunk_bytes od' = chunk_bytes (tx_outstanding rq)"
        using b(3) GetSerializedChunkSize_cong[of od' "tx_outstanding rq"] by (simp add: chunk_bytes_def fun_eq_iff same_data_def)
      then have "chunk_bytes (tx_outstanding rq) ts \<le> unat room" using k(1-3) b(1) m(3) by simp
      moreover have "unat (tx_unacked_bytes rq') \<le> max (unat (tx_unacked_bytes rq)) (unat (tx_cwnd rq))"
        using window_bound[of "?b + k" rq] k(2,4) b(1,2) m(2) by (simp add: add.assoc)
      ultimately show ?case by (intro returns_mono[OF fin]) auto
    qed
    then show ?case
      unfolding Let_def acc rq2_def[symmetric] r option.case returns_bind
      by (elim returns_mono) (clarify, unfold returns_bind, elim returns_mono, simp)
  qed
  then show ?thesis
    using room(1) unfolding GetChunksToSend_def prod.case m_def[symmetric] Let_def returns_bind
    by (simp split del: if_split, elim returns_mono) (simp add: case_prod_beta)
qed

end

end
