(* ===== verification/Transmission_Runs.thy ===== *)
theory Transmission_Runs
  imports Transmission
begin

text \<open>
  The retransmission queue on top of the modelled send queue, and sequences of calls on the pair: the
  calls that a socket makes while messages are added, packets are filled, acknowledgements arrive,
  timers expire and streams are reset.
\<close>

section \<open>The send queue behind the interface\<close>

text \<open>A failed check of the send queue is kept in its state, so that the callback can report it.\<close>

definition queue_produce :: "Timestamp \<Rightarrow> nat \<Rightarrow> RRSendQueue outcome \<Rightarrow> (DataToSend option \<times> RRSendQueue outcome) outcome" where
  "queue_produce now max_size qo = bind_outcome qo (\<lambda>q.
     bind_outcome (SQ_Produce now max_size q) (\<lambda>(data, q). Value (data, Value q)))"

definition queue_discard :: "u16 \<Rightarrow> u32 \<Rightarrow> RRSendQueue outcome \<Rightarrow> bool \<times> RRSendQueue outcome" where
  "queue_discard sid mid qo =
     (case bind_outcome qo (SQ_Discard sid mid) of
        Value (b, q) \<Rightarrow> (b, Value q)
      | Nullopt \<Rightarrow> (False, Nullopt)
      | Abort \<Rightarrow> (False, Abort))"

definition queue_ok :: "(u16 \<Rightarrow> u32 \<Rightarrow> bool) \<Rightarrow> RRSendQueue outcome \<Rightarrow> bool" where
  "queue_ok R qo = returns qo (\<lambda>q. sq_inv q \<and> tracked R {} (sq_out q))"

definition queue_sent :: "RRSendQueue outcome \<Rightarrow> u16 \<Rightarrow> u32 \<Rightarrow> bool" where
  "queue_sent qo sid mid = returns qo (\<lambda>q. sent (sq_out q) sid mid)"

lemma tracked_sub: "tracked R S p \<Longrightarrow> T \<subseteq> S \<Longrightarrow> tracked R T p"
  by (auto simp: tracked_def)

lemma tracked_sent: "tracked R S p \<Longrightarrow> (sid, m) \<in> S \<Longrightarrow> sent p sid m"
  by (auto simp: tracked_def)

interpretation tx: message_source queue_produce queue_discard queue_ok queue_sent
proof (unfold_locales, goal_cases)
  case (1 R qo max_size now)
  obtain q where q: "qo = Value q" "sq_inv q" "tracked R {} (sq_out q)"
    using 1(1) by (auto simp: queue_ok_def returns_def)
  let ?S = "{(s, m). sent (sq_out q) s m}"
  have "tracked R ?S (sq_out q)" using q(3) by (simp add: tracked_def)
  from SQ_Produce_tracked[OF q(2) this 1(2), of now] show ?case
    unfolding queue_produce_def q(1)
    by (simp, elim returns_mono) (auto simp: queue_ok_def queue_sent_def q(1) labelled_def intro: tracked_sub tracked_sent[of R ?S] split: option.splits)
next
  case (2 R qo sid mid)
  obtain q where q: "qo = Value q" "sq_inv q" "tracked R {} (sq_out q)" "sent (sq_out q) sid mid"
    using 2 by (auto simp: queue_ok_def queue_sent_def returns_def)
  obtain b q' where d: "SQ_Discard sid mid q = Value (b, q')" "sq_inv q'" "queue_later q q'"
    using SQ_Discard_later[OF q(2,4)] by (auto simp: returns_def)
  then show ?case
    using tracked_later[OF q(3), of "sq_out q'"] sent_later[of "sq_out q"]
    by (auto simp: queue_discard_def queue_ok_def queue_sent_def q(1))
qed

section \<open>Calls\<close>

datatype TxOp =
    TxAdd Timestamp DcSctpMessage SendOptions
  | TxSend Timestamp u64
  | TxFast
  | TxSack Timestamp u32 u32 "GapAckBlock list"
  | TxExpire
  | TxForward Timestamp
  | TxPrepareReset u16
  | TxBeginReset
  | TxCommitReset
  | TxRollbackReset

text \<open>The chunks that a call puts into its packet.\<close>

type_synonym tx_state = "RetransmissionQueue \<times> RRSendQueue"

definition settle :: "(RetransmissionQueue \<times> RRSendQueue outcome) \<Rightarrow> tx_state outcome" where
  "settle = (\<lambda>(rq, qo). bind_outcome qo (\<lambda>q. Value (rq, q)))"

fun tx_allowed :: "nat \<Rightarrow> TxOp \<Rightarrow> tx_state \<Rightarrow> bool" where
  "tx_allowed cap (TxAdd now message options) (rq, q) =
     (msg_payload message \<noteq> [] \<and> (msg_stream_id message, sq_current_message_id q) \<notin> od_keys (tx_outstanding rq)
      \<and> sq_current_message_id q \<notin> fst ` set (track (sq_out q) (msg_stream_id message)))"
| "tx_allowed cap (TxSend now room) (rq, q) =
     (spare rq \<and> od_to_be_fast_retransmitted (tx_outstanding rq) = [] \<and> now < PlusInfinity \<and> IsDivisibleBy4 room \<and> unat room \<le> cap)"
| "tx_allowed cap TxFast (rq, q) = (spare rq \<and> od_to_be_fast_retransmitted (tx_outstanding rq) \<noteq> [])"
| "tx_allowed cap (TxSack now cum a_rwnd gaps) (rq, q) = (spare rq \<and> od_to_be_fast_retransmitted (tx_outstanding rq) = [])"
| "tx_allowed cap TxExpire (rq, q) = (spare rq \<and> tm_is_running (tx_t3_rtx rq))"
| "tx_allowed cap (TxForward now) (rq, q) = (now < PlusInfinity)"
| "tx_allowed cap (TxPrepareReset sid) (rq, q) = True"
| "tx_allowed cap TxBeginReset (rq, q) = (\<not> some_resetting q)"
| "tx_allowed cap TxCommitReset (rq, q) = some_resetting q"
| "tx_allowed cap TxRollbackReset (rq, q) = some_resetting q"

fun tx_call :: "nat \<Rightarrow> TxOp \<Rightarrow> tx_state \<Rightarrow> ((u32 \<times> Data) list \<times> tx_state) outcome" where
  "tx_call cap (TxAdd now message options) (rq, q) = bind_outcome (SQ_Add now message options q) (\<lambda>q. Value ([], rq, q))"
| "tx_call cap (TxSend now room) (rq, q) =
     bind_outcome (GetChunksToSend queue_produce queue_discard now room (rq, Value q)) (\<lambda>(chunks, s).
     bind_outcome (settle s) (\<lambda>s. Value (chunks, s)))"
| "tx_call cap TxFast (rq, q) = bind_outcome (GetChunksForFastRetransmit (of_nat cap) rq) (\<lambda>(chunks, rq). Value (chunks, rq, q))"
| "tx_call cap (TxSack now cum a_rwnd gaps) (rq, q) =
     bind_outcome (Tx_HandleSack queue_discard now cum a_rwnd gaps (rq, Value q)) (\<lambda>(b, s).
     bind_outcome (settle s) (\<lambda>s. Value ([], s)))"
| "tx_call cap TxExpire (rq, q) = bind_outcome (t3_expires queue_discard (rq, Value q)) (\<lambda>s.
     bind_outcome (settle s) (\<lambda>s. Value ([], s)))"
| "tx_call cap (TxForward now) (rq, q) =
     bind_outcome (Tx_ShouldSendForwardTsn queue_discard now (rq, Value q)) (\<lambda>(b, s).
     bind_outcome (settle s) (\<lambda>s. Value ([], s)))"
| "tx_call cap (TxPrepareReset sid) (rq, q) = bind_outcome (PrepareResetStream sid q) (\<lambda>q. Value ([], rq, q))"
| "tx_call cap TxBeginReset (rq, q) =
     bind_outcome (Tx_BeginResetStreams GetStreamsReadyToBeReset (rq, q)) (\<lambda>(ready, s). Value ([], s))"
| "tx_call cap TxCommitReset (rq, q) = bind_outcome (CommitResetStreams q) (\<lambda>q. Value ([], rq, q))"
| "tx_call cap TxRollbackReset (rq, q) = bind_outcome (RollbackResetStreams q) (\<lambda>q. Value ([], rq, q))"

fun tx_run :: "nat \<Rightarrow> TxOp list \<Rightarrow> tx_state \<Rightarrow> tx_state outcome" where
  "tx_run cap [] s = Value s"
| "tx_run cap (op # ops) s =
     bind_outcome (guard_opt (tx_allowed cap op s)) (\<lambda>_.
     bind_outcome (tx_call cap op s) (\<lambda>(chunks, s). tx_run cap ops s))"

section \<open>Well-formed states\<close>

text \<open>
  For some assignment of reliability to the messages, the outstanding chunks are consistent and fit
  into a packet, the queued messages are consistent, the chunks in flight belong to messages that the
  queue has begun or finished, and a chunk that still has to reach the peer keeps the timer running.
\<close>

definition tx_ok :: "nat \<Rightarrow> tx_state \<Rightarrow> bool" where
  "tx_ok cap s = (\<exists>R. tx.tx_inv R cap (fst s, Value (snd s)))"

definition packet_size :: "nat \<Rightarrow> bool" where
  "packet_size cap = (20 \<le> cap \<and> cap < 2 ^ 20 \<and> cap mod 4 = 0)"

lemma settle_ok: "tx.tx_inv R cap s \<Longrightarrow> returns (settle s) (tx_ok cap)"
  by (cases s) (auto simp: settle_def tx_ok_def tx.tx_inv_def tx.linked_def queue_ok_def returns_def)

lemma queue_step:
  assumes "tx.tx_inv R cap (rq, Value q)" "sq_inv q'" "queue_later q q'"
  shows "tx.tx_inv R cap (rq, Value q')"
  using assms tracked_later[of R "{}" "sq_out q" "sq_out q'"] sent_later[of "sq_out q" _ _ "sq_out q'"]
  by (auto simp: tx.tx_inv_def tx.linked_def queue_ok_def queue_sent_def)

lemma queue_call:
  assumes "tx.tx_inv R cap (rq, Value q)" "returns m (\<lambda>q'. sq_inv q' \<and> queue_later q q')"
  shows "returns (bind_outcome m (\<lambda>q. Value ([], rq, q))) (\<lambda>(chunks, s'). tx_ok cap s')"
  using assms(2) queue_step[OF assms(1)] by (simp, elim returns_mono) (auto simp: tx_ok_def)

text \<open>A message that nothing outstanding belongs to may be relabelled.\<close>

lemma od_inv_relabel:
  assumes "od_inv R n B od" "\<And>sid mid. (sid, mid) \<in> od_keys od \<Longrightarrow> R' sid mid = R sid mid"
  shows "od_inv R' n B od"
  using assms by (auto simp: od_inv_def item_ok_def od_keys_def item_key_def image_iff)

lemma TxAdd_ok:
  assumes inv: "tx.tx_inv R cap (rq, Value q)" and ok: "tx_allowed cap (TxAdd now message options) (rq, q)"
  shows "returns (SQ_Add now message options q) (\<lambda>q'. tx_ok cap (rq, q'))"
proof -
  let ?sid = "msg_stream_id message" and ?id = "sq_current_message_id q" and ?K = "od_keys (tx_outstanding rq)"
  have q: "sq_inv q" "tracked R {} (sq_out q)" and keys: "\<forall>sid mid. (sid, mid) \<in> ?K \<longrightarrow> sent (sq_out q) sid mid"
    using inv by (auto simp: tx.tx_inv_def tx.linked_def queue_ok_def queue_sent_def)
  have t: "tracked R ?K (sq_out q)" using q(2) keys by (auto simp: tracked_def)
  have new: "msg_payload message \<noteq> []" "(?sid, ?id) \<notin> ?K" "?id \<notin> fst ` set (track (sq_out q) ?sid)"
    using ok by simp_all
  obtain n B where od: "od_inv (tx_reliability R rq) n B (tx_outstanding rq)"
    using inv by (auto simp: tx.tx_inv_def tx_core_def)
  show ?thesis
  proof (rule returns_mono[OF SQ_Add_tracked[OF q(1) new(1) refl t new(2,3)]], clarify)
    fix q' r assume q': "sq_inv q'" "tracked (R(?sid := (R ?sid)(?id := r))) ?K (sq_out q')"
    let ?R = "R(?sid := (R ?sid)(?id := r))"
    have "od_inv (tx_reliability ?R rq) n B (tx_outstanding rq)"
      using new(2) by (intro od_inv_relabel[OF od]) (auto simp: tx_reliability_def)
    then have "tx_core ?R cap rq" using inv by (auto simp: tx.tx_inv_def tx_core_def)
    moreover have "tx.linked ?R (tx_outstanding rq, Value q')"
      using q' tracked_sub[OF q'(2)] by (auto simp: tx.linked_def queue_ok_def queue_sent_def intro: tracked_sent[OF q'(2)])
    ultimately show "tx_ok cap (rq, q')" by (auto simp: tx_ok_def tx.tx_inv_def)
  qed
qed

lemma TxBeginReset_ok:
  assumes inv: "tx.tx_inv R cap (rq, Value q)" and none: "\<not> some_resetting q"
  shows "returns (Tx_BeginResetStreams GetStreamsReadyToBeReset (rq, q)) (\<lambda>(ready, s). tx_ok cap s)"
proof -
  let ?rq = "rq\<lparr>tx_outstanding := OD_BeginResetStreams (tx_outstanding rq)\<rparr>"
  have "sq_inv q" using inv by (simp add: tx.tx_inv_def tx.linked_def queue_ok_def)
  note ready = GetStreamsReadyToBeReset_later[OF this none]
  have od: "od_inv R n B (OD_BeginResetStreams od) = od_inv R n B od" "od_keys (OD_BeginResetStreams od) = od_keys od"
      "od_live (OD_BeginResetStreams od) = od_live od" "sizes_ok cap (OD_BeginResetStreams od) = sizes_ok cap od"
      "od_data_chunk_header_size (OD_BeginResetStreams od) = od_data_chunk_header_size od" for R n B od
    by (simp_all add: OD_BeginResetStreams_def od_inv_def counts_ok_def marks_ok_def pending_def load_def od_keys_def
        od_live_def sizes_ok_def GetSerializedChunkSize_def)
  have "tx.tx_inv R cap (?rq, Value q)"
    using inv by (simp add: tx.tx_inv_def tx.linked_def tx_core_def tx_fixed_def tx_reliability_def od)
  from queue_step[OF this] have "tx_ok cap (?rq, q')" if "sq_inv q'" "queue_later q q'" for q'
    unfolding tx_ok_def fst_conv snd_conv using that by metis
  with ready show ?thesis
    unfolding Tx_BeginResetStreams_def by (simp, elim returns_mono) auto
qed

lemma tx_call_ok:
  assumes ok: "tx_ok cap (rq, q)" and cap: "packet_size cap" and op: "tx_allowed cap op (rq, q)"
  shows "returns (tx_call cap op (rq, q)) (\<lambda>(chunks, s'). tx_ok cap s')"
proof -
  obtain R where inv: "tx.tx_inv R cap (rq, Value q)" using ok by (auto simp: tx_ok_def)
  have q: "sq_inv q" using inv by (simp add: tx.tx_inv_def tx.linked_def queue_ok_def)
  have c: "20 \<le> cap" "cap mod 4 = 0" "cap < 2 ^ 20" using cap by (simp_all add: packet_size_def)
  show ?thesis
  proof (cases op)
    case (TxAdd now message options)
    then show ?thesis using TxAdd_ok[OF inv] op by (simp del: tx_allowed.simps)
  next
    case (TxSend now room)
    have "returns (GetChunksToSend queue_produce queue_discard now room (rq, Value q)) (\<lambda>(ts, s). tx.tx_inv R cap s)"
      using op TxSend by (intro returns_mono[OF tx.GetChunksToSend_returns[OF inv c(1,3)]]) auto
    then show ?thesis using TxSend settle_ok by (simp, elim returns_mono) auto
  next
    case TxFast
    have "cap < 2 ^ 64" using c(3) by simp
    from tx.GetChunksForFastRetransmit_returns[OF inv c(1,2) this] show ?thesis
      using op TxFast by (simp, elim returns_mono) (auto simp: tx_ok_def)
  next
    case (TxSack now cum a_rwnd gaps)
    then show ?thesis
      using tx.Tx_HandleSack_returns[OF inv c(1), of now cum a_rwnd gaps] op settle_ok by (simp, elim returns_mono) auto
  next
    case TxExpire
    then show ?thesis
      using tx.t3_expires_returns[OF inv c(1)] op settle_ok by (simp, elim returns_mono) auto
  next
    case (TxForward now)
    then show ?thesis
      using tx.Tx_ShouldSendForwardTsn_returns[OF inv c(1), of now] op settle_ok by (simp, elim returns_mono) auto
  next
    case TxBeginReset
    then show ?thesis using TxBeginReset_ok[OF inv] op by (simp, elim returns_mono) auto
  qed (use op queue_call[OF inv] q in \<open>auto simp: PrepareResetStream_later CommitResetStreams_later RollbackResetStreams_later\<close>)
qed

lemma tx_run_safe:
  assumes "tx_ok cap s" "packet_size cap"
  shows "safe (tx_run cap ops s) (tx_ok cap)"
  using assms(1)
proof (induction ops arbitrary: s)
  case Nil
  then show ?case by (simp add: safe_def)
next
  case (Cons op ops)
  obtain rq q where s: "s = (rq, q)" by fastforce
  have "safe (bind_outcome (tx_call cap op s) (\<lambda>(chunks, s). tx_run cap ops s)) (tx_ok cap)" if "tx_allowed cap op s"
    unfolding s by (rule safe_bind[OF returns_safe[OF tx_call_ok[OF Cons.prems[unfolded s] assms(2) that[unfolded s]]]])
      (use Cons.IH in auto)
  then show ?case by simp
qed

section \<open>The start of an association\<close>

definition start_transmission :: "u32 \<Rightarrow> u64 \<Rightarrow> u32 \<Rightarrow> TimerOptions \<Rightarrow> DcSctpOptions \<Rightarrow> bool \<Rightarrow> bool \<Rightarrow> tx_state" where
  "start_transmission initial_tsn a_rwnd timer_id timer_options options partial_reliability interleaving =
     (new_retransmission_queue initial_tsn a_rwnd (new_timer timer_id timer_options) options partial_reliability interleaving,
      new_send_queue (opt_max_send_buffer_size options) (of_nat (opt_mtu options)) (opt_default_stream_priority options)
        (opt_total_buffered_amount_low_threshold options))"

text \<open>The options that the socket accepts, and a timer without a limit of restarts.\<close>

definition start_allowed :: "TimerOptions \<Rightarrow> DcSctpOptions \<Rightarrow> bool" where
  "start_allowed timer_options options = (to_max_restarts timer_options = None \<and> 32 < opt_mtu options \<and> opt_mtu options < 2 ^ 64)"

lemma new_transmission:
  assumes rq_def: "rq = new_retransmission_queue initial_tsn a_rwnd timer options partial_reliability interleaving"
  obtains h l where "h = 16 \<or> h = 20" "tx_outstanding rq = new_outstanding_data h l" "tx_data_chunk_header_size rq = h" "tx_t3_rtx rq = timer"
proof
  let ?h = "of_nat (kHeaderSize (if interleaving then IDataChunk_config else DataChunk_config)) :: u64"
  show "?h = 16 \<or> ?h = 20" by (simp add: DataChunk_config_def IDataChunk_config_def ChunkConfig_def)
  show "tx_outstanding rq = new_outstanding_data ?h (fst (Unwrap new_unwrapper (initial_tsn - 1)))"
    "tx_data_chunk_header_size rq = ?h" "tx_t3_rtx rq = timer"
    by (simp_all add: rq_def new_retransmission_queue_def Let_def case_prod_beta)
qed

lemma start_ok:
  assumes "start_allowed timer_options options"
  shows "tx_ok cap (start_transmission initial_tsn a_rwnd timer_id timer_options options partial_reliability interleaving)"
proof -
  let ?s = "start_transmission initial_tsn a_rwnd timer_id timer_options options partial_reliability interleaving"
  let ?rq = "fst ?s" and ?q = "snd ?s"
  have "(32 :: u64) < of_nat (opt_mtu options)"
    using assms by (simp add: start_allowed_def word_less_nat_alt unat_of_nat)
  then have "sq_inv ?q" by (simp add: start_transmission_def new_send_queue_inv)
  moreover have "tracked (\<lambda>_ _. True) {} (sq_out ?q)"
    by (simp add: start_transmission_def new_send_queue_def tracked_def track_items_def out_stream_def find_or_def new_outgoing_stream_def)
  moreover obtain h l where rq: "h = 16 \<or> h = 20" "tx_outstanding ?rq = new_outstanding_data h l"
      "tx_data_chunk_header_size ?rq = h" "tx_t3_rtx ?rq = new_timer timer_id timer_options"
    by (rule new_transmission[of ?rq initial_tsn a_rwnd "new_timer timer_id timer_options" options partial_reliability interleaving])
      (simp_all add: start_transmission_def)
  have "tx_core (\<lambda>_ _. True) cap ?rq"
    unfolding tx_core_def tx_fixed_def rq(2-4) using assms rq(1)
    by (intro conjI exI[of _ 0] new_outstanding_inv)
      (auto simp: start_allowed_def sizes_ok_def od_live_def new_outstanding_data_def new_timer_def timer_ok_def)
  moreover have "od_keys (tx_outstanding ?rq) = {}" by (simp add: rq(2) new_outstanding_data_def od_keys_def)
  ultimately show ?thesis
    by (auto simp: tx_ok_def tx.tx_inv_def tx.linked_def queue_ok_def)
qed

lemma safe_Value: "safe m P \<Longrightarrow> m = Value x \<Longrightarrow> P x"
  by (simp add: safe_def)

lemma reached_ok:
  assumes "start_allowed timer_options options" "packet_size cap"
    "tx_run cap ops (start_transmission initial_tsn a_rwnd timer_id timer_options options partial_reliability interleaving) = Value s"
  shows "tx_ok cap s"
  by (rule safe_Value[OF tx_run_safe[OF start_ok[OF assms(1)] assms(2)] assms(3)])

section \<open>Properties\<close>



text \<open>
  C3.  Filling a packet respects its room and the congestion window.  In every state that calls can
  reach, the chunks that are sent take no more than the room they are given, and the bytes in flight
  stay within the congestion window, or where they were when they already exceeded it.
\<close>

theorem congestion_window_respected:
  assumes "start_allowed timer_options options" "packet_size cap"
    "tx_run cap ops (start_transmission initial_tsn a_rwnd timer_id timer_options options partial_reliability interleaving) = Value (rq, q)"
    "tx_allowed cap (TxSend now room) (rq, q)"
  shows "\<exists>chunks rq' q'. tx_call cap (TxSend now room) (rq, q) = Value (chunks, rq', q')
    \<and> (\<Sum>(tsn, data)\<leftarrow>chunks. unat (Tx_GetSerializedChunkSize rq data)) \<le> unat room
    \<and> tx_cwnd rq' = tx_cwnd rq
    \<and> unat (tx_unacked_bytes rq') \<le> max (unat (tx_unacked_bytes rq)) (unat (tx_cwnd rq))"
proof -
  obtain R where inv: "tx.tx_inv R cap (rq, Value q)" using reached_ok[OF assms(1-3)] by (auto simp: tx_ok_def)
  have size: "chunk_bytes (tx_outstanding rq) chunks = (\<Sum>(tsn, data)\<leftarrow>chunks. unat (Tx_GetSerializedChunkSize rq data))" for chunks
    using tx.fixed_size[of rq] inv by (simp add: chunk_bytes_def tx.tx_inv_def tx_core_def)
  have "returns (GetChunksToSend queue_produce queue_discard now room (rq, Value q)) (\<lambda>(ts, rq', q').
      (\<exists>q. q' = Value q) \<and> chunk_bytes (tx_outstanding rq) ts \<le> unat room \<and> tx_cwnd rq' = tx_cwnd rq
      \<and> unat (tx_unacked_bytes rq') \<le> max (unat (tx_unacked_bytes rq)) (unat (tx_cwnd rq)))"
    using assms(2,4) by (intro returns_mono[OF tx.GetChunksToSend_returns[OF inv]])
      (auto simp: packet_size_def tx.tx_inv_def tx.linked_def queue_ok_def returns_def)
  then show ?thesis by (auto simp: returns_def settle_def size)
qed

lemma send_chunk_frame:
  assumes "send_chunk discard now chunk ts (rq, q) = Value (ts', rq', q')"
  shows "tx_rwnd rq' = tx_rwnd rq - Tx_GetSerializedChunkSize rq (ds_data chunk)" "tx_cwnd rq' = tx_cwnd rq"
  using assms by (auto simp: send_chunk_def Let_def add_event_def split: option.splits if_splits)

text \<open>
  C29.  Sending a chunk that is larger than the receiver's window, as is done when nothing is in
  flight, takes the window below zero: it wraps round to almost the whole 64-bit range, and until the
  next acknowledgement only the congestion window limits what is sent.
\<close>

theorem zero_window_probe_wraps:
  assumes "send_chunk discard now chunk ts (rq, q) = Value (ts', rq', q')"
    "tx_rwnd rq < Tx_GetSerializedChunkSize rq (ds_data chunk)"
    "unat (Tx_GetSerializedChunkSize rq (ds_data chunk)) \<le> 2 ^ 62" "unat (tx_cwnd rq) \<le> 2 ^ 62"
  shows "unat (tx_rwnd rq') = 2 ^ 64 + unat (tx_rwnd rq) - unat (Tx_GetSerializedChunkSize rq (ds_data chunk))
    \<and> max_bytes_to_send rq' = (if tx_unacked_bytes rq' \<ge> tx_cwnd rq then 0 else tx_cwnd rq - tx_unacked_bytes rq')"
proof -
  let ?size = "Tx_GetSerializedChunkSize rq (ds_data chunk)"
  note frame = send_chunk_frame[OF assms(1)]
  have "unat (tx_rwnd rq - ?size) = 2 ^ 64 + unat (tx_rwnd rq) - unat ?size"
    using assms(2) by (simp add: unat_sub_if' word_less_nat_alt)
  then have rwnd: "unat (tx_rwnd rq') = 2 ^ 64 + unat (tx_rwnd rq) - unat ?size" by (simp add: frame)
  have "unat (tx_cwnd rq - tx_unacked_bytes rq') \<le> 2 ^ 62" if "\<not> tx_cwnd rq \<le> tx_unacked_bytes rq'"
    using that assms(4) by (simp add: unat_diff)
  then have "tx_cwnd rq - tx_unacked_bytes rq' \<le> tx_rwnd rq'" if "\<not> tx_cwnd rq \<le> tx_unacked_bytes rq'"
    using that rwnd assms(3) by (simp add: word_le_nat_alt)
  then show ?thesis using rwnd by (auto simp: max_bytes_to_send_def frame Let_def min_def)
qed

section \<open>An example\<close>

definition sample_timer_options :: TimerOptions where
  "sample_timer_options =
     \<lparr>to_duration = 500000, to_backoff_algorithm = kExponential, to_max_restarts = None, to_max_backoff_duration = PlusInfinity\<rparr>"

abbreviation sample_start :: tx_state where
  "sample_start \<equiv> start_transmission 10 100000 1 sample_timer_options default_options True False"

definition sample_add :: TxOp where
  "sample_add = TxAdd 0 (sample_message 1 [1, 2, 3]) plain_options"

lemma sample_allowed: "start_allowed sample_timer_options default_options" "packet_size 1176"
  by (simp_all add: start_allowed_def sample_timer_options_def default_options_def kMaxSafeMTUSize_def packet_size_def)

lemma sample_add_allowed: "tx_allowed 1176 sample_add sample_start"
  by (simp add: sample_add_def start_transmission_def new_retransmission_queue_def Let_def case_prod_beta new_outstanding_data_def
      od_keys_def new_send_queue_def track_items_def sample_message_def out_stream_def find_or_def new_outgoing_stream_def)

lemma sample_send_allowed: "tx_allowed 1176 (TxSend 0 1176) (fst sample_start, q)"
  by (simp add: start_transmission_def new_retransmission_queue_def Let_def case_prod_beta new_outstanding_data_def spare_def
      PlusInfinity_def IsDivisibleBy4_iff)

lemma sample_transmission: "\<exists>q. tx_run 1176 [sample_add] sample_start = Value (fst sample_start, q)"
proof -
  from tx_call_ok[of 1176 "fst sample_start" "snd sample_start" sample_add] start_ok[OF sample_allowed(1)] sample_allowed(2) sample_add_allowed
  obtain chunks s where "tx_call 1176 sample_add sample_start = Value (chunks, s)" by (auto simp: returns_def)
  moreover from this have "fst s = fst sample_start"
    by (cases sample_start) (auto simp: sample_add_def)
  ultimately show ?thesis using sample_add_allowed by (auto simp: guard_opt_def prod_eq_iff)
qed



theorem congestion_window_respected_witness:
  "\<exists>rq q. tx_run 1176 [sample_add] sample_start = Value (rq, q)
    \<and> (\<exists>chunks rq' q'. tx_call 1176 (TxSend 0 1176) (rq, q) = Value (chunks, rq', q')
       \<and> unat (tx_unacked_bytes rq') \<le> max (unat (tx_unacked_bytes rq)) (unat (tx_cwnd rq)))"
proof -
  obtain q where run: "tx_run 1176 [sample_add] sample_start = Value (fst sample_start, q)" using sample_transmission by blast
  from congestion_window_respected[OF sample_allowed run sample_send_allowed] run show ?thesis by blast
qed

definition sample_probe :: DataToSend where
  "sample_probe = \<lparr>ds_message_id = 0, ds_data = \<lparr>d_stream_id = 1, d_ssn = 0, d_mid = 0, d_fsn = 0, d_ppid = 51, d_payload = [1, 2, 3],
     d_is_beginning = True, d_is_end = True, d_is_unordered = False\<rparr>, ds_max_retransmissions = NoLimit, ds_expires_at = PlusInfinity, ds_lifecycle_id = 0\<rparr>"

abbreviation keep_all :: "u16 \<Rightarrow> u32 \<Rightarrow> unit \<Rightarrow> bool \<times> unit" where
  "keep_all \<equiv> (\<lambda>_ _ q. (False, q))"

abbreviation sample_closed :: RetransmissionQueue where
  "sample_closed \<equiv> fst (start_transmission 10 0 1 sample_timer_options default_options True False)"

lemma sample_size: "Tx_GetSerializedChunkSize sample_closed (ds_data sample_probe) = 20"
  by (simp add: Tx_GetSerializedChunkSize_def sample_probe_def Data_size_def start_transmission_def new_retransmission_queue_def
      Let_def case_prod_beta DataChunk_config_def ChunkConfig_def RoundUpTo4_def)

lemma sample_probe_sent: "\<exists>ts rq. send_chunk keep_all 0 sample_probe [] (sample_closed, ()) = Value (ts, rq, ())"
proof -
  obtain h l where od: "tx_outstanding sample_closed = new_outstanding_data h l"
    by (rule new_transmission[of sample_closed 10 0 "new_timer 1 sample_timer_options" default_options True False])
      (simp_all add: start_transmission_def)
  have "insert_ok (\<lambda>_ _. True) 0 (ds_data sample_probe) 0 NoLimit PlusInfinity 0"
    by (simp add: insert_ok_def PlusInfinity_def)
  from OD_Insert_returns[OF new_outstanding_inv[of _ h l] this, of keep_all "()"] obtain r od'
    where ins: "OD_Insert keep_all 0 (ds_data sample_probe) 0 NoLimit PlusInfinity 0 (new_outstanding_data h l, ()) = Value (r, od', ())"
    by (auto simp: returns_def)
  have probe: "ds_message_id sample_probe = 0" "ds_max_retransmissions sample_probe = NoLimit" "ds_expires_at sample_probe = PlusInfinity"
      "ds_lifecycle_id sample_probe = 0"
    by (simp_all add: sample_probe_def)
  show ?thesis using ins by (cases r) (simp_all add: send_chunk_def Let_def od probe)
qed

theorem zero_window_probe_wraps_witness:
  "\<exists>ts rq. send_chunk keep_all 0 sample_probe [] (sample_closed, ()) = Value (ts, rq, ()) \<and> unat (tx_rwnd rq) = 2 ^ 64 - 20"
proof -
  obtain ts rq where sent: "send_chunk keep_all 0 sample_probe [] (sample_closed, ()) = Value (ts, rq, ())"
    using sample_probe_sent by blast
  have closed: "tx_rwnd sample_closed = 0" "unat (tx_cwnd sample_closed) \<le> 2 ^ 62"
    by (simp_all add: start_transmission_def new_retransmission_queue_def Let_def case_prod_beta default_options_def kMaxSafeMTUSize_def)
  from zero_window_probe_wraps[OF sent _ _ closed(2)] sent show ?thesis
    by (auto simp: sample_size closed(1))
qed

end
