(* ===== verification/Spec2Isabelle.thy ===== *)
theory Spec2Isabelle
  imports Sequence_Numbers Chunk_Codecs Sctp_Packet Data_Tracker Chunk_Validators Unordered_Delivery
    Interleaved_Delivery Reassembly_Queue Retransmission_Timeout Retransmission_Error_Counter Forward_Tsn Send_Queue_Runs Task_Queue_Timeout Retransmission_Queue
    Transmission_Runs
begin

text \<open>
  This development verifies dcSCTP, the user-space implementation of SCTP that carries WebRTC data
  channels (\<open>src/src/net/dcsctp\<close>), together with the sequence-number utilities of
  \<open>src/src/rtc_base/numerics\<close> that it rests on.

  \<^bold>\<open>The program.\<close>  A packet from the network is split by \<open>SctpPacket::Parse\<close> into chunks, each chunk is
  decoded by the \<open>Parse\<close> function of its class, and the socket hands it to a component: DATA chunks to
  the data tracker, which records their numbers (TSN) and decides when to acknowledge, and to the
  reassembly queue, which puts the fragments of messages together; SACK chunks, after validation and
  repair, to the sender.  All numbers on the wire are the low bits of counters, which every component
  unwraps for itself.

  \<^bold>\<open>The theories.\<close>
  \<^item> \<open>Dcsctp_Prelude\<close>: outcomes (\<open>Abort\<close> is a failed check of the source, \<open>Nullopt\<close> an empty optional),
    sorted sets, generic lemmas on lists and words, the rounding functions of \<open>common/math.h\<close>.
  \<^item> \<open>Ordered_Maps\<close>: \<open>std::map\<close> as a sorted association list, with the operations the source calls.
  \<^item> \<open>Sequence_Numbers\<close>: \<open>mod_ops.h\<close>, \<open>sequence_number_util.h\<close>, \<open>sequence_number_unwrapper.h\<close> and
    \<open>common/sequence_numbers.h\<close>.  A wrapped number is a machine word, an unwrapped one an \<open>int\<close>.
  \<^item> \<open>Bounded_Bytes\<close>, \<open>Tlv\<close>: \<open>bounded_byte_reader.h\<close>, \<open>bounded_byte_writer.h\<close> and \<open>tlv_trait.h\<close>; the locales
    \<open>element_codec\<close> and \<open>tlv_codec\<close> state what an encoder and a decoder owe each other.
  \<^item> \<open>Parameter_Types\<close>, \<open>Error_Causes\<close>, \<open>Parameters\<close>, \<open>Chunks\<close>, \<open>Chunk_Codecs\<close>: every parameter, error cause
    and chunk of \<open>packet/parameter\<close>, \<open>packet/error_cause\<close> and \<open>packet/chunk\<close>, with one interpretation of
    \<open>tlv_codec\<close> for each.
  \<^item> \<open>Sctp_Packet\<close>: \<open>packet/sctp_packet.cc\<close>; the CRC32c function is a parameter.
  \<^item> \<open>Chunk_Validators\<close>: \<open>packet/chunk_validators.cc\<close>.
  \<^item> \<open>Options\<close>, \<open>Handover\<close>: \<open>public/dcsctp_options.h\<close>, \<open>public/dcsctp_handover_state.h\<close>.
  \<^item> \<open>Data_Tracker\<close>: \<open>rx/data_tracker.cc\<close>; the delayed-ack timer is the flag whether it runs.
  \<^item> \<open>Reassembly_Streams\<close>, \<open>Traditional_Reassembly\<close>, \<open>Interleaved_Reassembly\<close>, \<open>Reassembly_Queue\<close>: the
    reassemblers of \<open>rx\<close> and the queue over them.  The interface class \<open>ReassemblyStreams\<close> is the locale
    \<open>reassembly_streams\<close>, interpreted for both reassemblers and for the queue's choice of one.  A call of
    the delivery callback is an element of the list that an operation returns.
  \<^item> \<open>Traditional_Delivery\<close>, \<open>Unordered_Delivery\<close>, \<open>Interleaved_Delivery\<close>: what the reassemblers deliver for
    every order of arrival.
  \<^item> \<open>Time_Units\<close>: \<open>rtc_base/units/unit_base.h\<close> and the time types of \<open>api/units\<close>, in microseconds with the
    largest number as infinity.
  \<^item> \<open>Timer\<close>, \<open>Task_Queue_Timeout\<close>: \<open>timer/timer.cc\<close> and \<open>timer/task_queue_timeout.cc\<close>.
  \<^item> \<open>Retransmission_Timeout\<close>, \<open>Retransmission_Error_Counter\<close>: the estimator of the round-trip time and the
    error counter of \<open>tx\<close>.
  \<^item> \<open>Outcome_Logic\<close>: \<open>returns m P\<close> (the call returns, and its value satisfies \<open>P\<close>) and \<open>safe m P\<close> (no check
    fails, and a returned value satisfies \<open>P\<close>), with the rules by which calls are composed.
  \<^item> \<open>Outstanding_Data\<close>, \<open>Outstanding_Consistency\<close>, \<open>Outstanding_Safety\<close>, \<open>Outstanding_Operations\<close>, \<open>Outstanding_Links\<close>,
    \<open>Forward_Tsn\<close>: \<open>tx/outstanding_data.cc\<close>, its invariant, sequences of calls on it, what the calls do to
    the messages of the chunks, and FORWARD-TSN chunks.
  \<^item> \<open>Stream_Scheduler\<close>, \<open>Send_Queue\<close>, \<open>Send_Queue_Consistency\<close>, \<open>Send_Queue_Operations\<close>, \<open>Send_Queue_Runs\<close>,
    \<open>Send_Queue_Tracking\<close>: \<open>tx/stream_scheduler.cc\<close> and \<open>tx/rr_send_queue.cc\<close>; the interface class
    \<open>StreamProducer\<close> is the locale \<open>stream_producer\<close>, interpreted for the streams of the send queue.
  \<^item> \<open>Retransmission_Queue\<close>: \<open>tx/retransmission_queue.cc\<close> over the interface class \<open>SendQueue\<close>, whose calls are
    parameters; calls of the callbacks are events in the state.
  \<^item> \<open>Transmission\<close>, \<open>Transmission_Runs\<close>: the interface \<open>SendQueue\<close> as the locale \<open>message_source\<close>, the
    operations of the retransmission queue proved over it, its interpretation for the modelled send
    queue, and sequences of calls on the two queues and the retransmission timer.
  \<^bold>\<open>What is shown.\<close>  Codecs: every decoder returns what its encoder wrote, for chunks, parameters and
  whole packets, and no decoder fails a check on any input.  Numbers: unwrapping recovers the sender's
  counter.  Receiver: the tracker implements the set of received TSNs and acknowledges every second
  packet; the reassemblers deliver every message exactly once and ordered ones in order, whatever the
  order of arrival; the queue's byte counter is exact, and a deferred reset replays what it deferred.
  Sender: no sequence of calls fails a check of the outstanding data, of the send queue or of the
  retransmission queue over it; the loops of the scheduler and of the packet filler end; while a chunk
  is neither acknowledged nor abandoned its timer runs, and the bytes in flight respect the congestion
  window; a SACK acknowledges exactly what it reports, and a FORWARD-TSN skips exactly the abandoned
  chunks in front.  Timers: the retransmission timeout stays in its bounds and converges, timers back
  off as configured, and a timeout fires when it is due, once, and never after it was stopped.
  The properties about flaws state the inputs on which the code departs from its comments.

  \<^bold>\<open>Bounds.\<close>  \<open>size_t\<close> is 64 bits wide.  Lengths that cannot reach \<open>2^32\<close> in a packet are \<open>nat\<close>.  Unwrapped
  64-bit numbers are \<open>int\<close>: they move by less than \<open>2^31\<close> with every number received, so no run of
  feasible length reaches the width.  Loops are structural or come with a termination proof.
  Three are partial functions whose \<open>None\<close> is that the loop never ends: \<open>Parameters::Parse\<close>, which may
  run for ever, and the loops of the scheduler and of \<open>GetChunksToSend\<close>, which are proved to end in every
  reachable state.  Byte counts of queued messages are \<open>nat\<close>, bounded by the memory that holds them; the
  counters of the outstanding data are words.  Virtual finish times are rationals rounded to a double.
  Sequences of calls on the sender are stated for packets below \<open>2^20\<close> bytes, fewer than \<open>2^29\<close> chunks in
  flight, fewer than 65534 retransmissions of a chunk, and message identifiers that are not reused while
  a message that has them is queued or in flight.

  \<^bold>\<open>Not modelled.\<close>  The socket (\<open>socket\<close>): the state machine of the association and its handlers for
  heartbeats, stream resets and the cookie, which compose the parts above under the callbacks of the
  application; text formatting, logging and packet capture, which have no effect on the transport; and
  the rest of WebRTC (audio, video, RTP, ICE, peer connection, platform code), which does not share
  state with the data channel transport.
\<close>

section \<open>Sequence numbers\<close>

text \<open>
  C16.  Unwrapping recovers the sender's unbounded counter.  If a sender numbers its items with a
  counter that starts inside the range of the wrapped type and every value differs from the one
  before it by less than half that range, then feeding the low bits of the counter, in that order,
  to a pristine unwrapper returns exactly the counter's values, across any number of wraps.
\<close>

theorem unwrap_recovers_counter:
  fixes y :: int and ys :: "int list"
  assumes "0 \<le> y" "y < 2 ^ LENGTH('a::len)"
    and "steps_below (2 ^ (LENGTH('a) - 1)) (y # ys)"
  shows "unwrap_all (new_unwrapper :: 'a SeqNumUnwrapper) (map Wrap (y # ys)) = y # ys"
proof -
  have u: "uint (word_of_int y :: 'a word) = y"
    using assms(1,2) by (simp add: uint_word_of_int)
  define u1 :: "'a SeqNumUnwrapper" where
    "u1 = \<lparr>last_unwrapped = y, last_value = Some (word_of_int y)\<rparr>"
  have "unwrap_all u1 (map word_of_int ys) = ys"
    using assms(3) by (intro unwrap_all_recover_from) (auto simp: u1_def unwrapper_ok_def)
  then show ?thesis
    by (simp add: Unwrap_def new_unwrapper_def u Let_def u1_def)
qed

theorem unwrap_recovers_counter_witness:
  "unwrap_all (new_unwrapper :: 16 SeqNumUnwrapper) (map Wrap [65530, 65535, 65540, 65538, 98000])
     = [65530, 65535, 65540, 65538, 98000]"
  using unwrap_recovers_counter[where 'a=16, of 65530 "[65535, 65540, 65538, 98000]"] by simp

end
